(* ===== verification/Prelude.thy ===== *)
theory Prelude
  imports Main "HOL-Library.Word" "HOL-Library.Sublist" "HOL-Library.Multiset"
begin

text \<open>
  Shared vocabulary of the development: the result type that models Go's
  \<open>(value, error)\<close> returns, early returns as a bind, first-failing-element loops,
  facts on filtered lists, and the lemma collection the component
  theories rely on.  \<open>result_iff\<close> holds the facts that say when a
  computation succeeds or fails.
\<close>

named_theorems result_iff

section \<open>Results and early returns\<close>

text \<open>A Go function returning \<open>(T, error)\<close>: \<open>Inl\<close> is a non-nil error.\<close>

type_synonym ('e, 'a) result = "'e + 'a"

definition rbind :: "('e, 'a) result \<Rightarrow> ('a \<Rightarrow> ('e, 'b) result) \<Rightarrow> ('e, 'b) result" where
  "rbind m k = (case m of Inl e \<Rightarrow> Inl e | Inr a \<Rightarrow> k a)"

text \<open>The statement \<open>if bad { return err }\<close> in front of the rest of a function.\<close>

definition guard_err :: "bool \<Rightarrow> 'e \<Rightarrow> ('e, unit) result" where
  "guard_err bad e = (if bad then Inl e else Inr ())"

lemma rbind_simps [simp]:
  "rbind (Inl e) k = Inl e" "rbind (Inr a) k = k a"
  by (simp_all add: rbind_def)

lemma rbind_Inr_iff [result_iff]: "rbind m k = Inr b \<longleftrightarrow> (\<exists>a. m = Inr a \<and> k a = Inr b)"
  by (cases m) auto

lemma rbind_Inl_iff [result_iff]:
  "rbind m k = Inl e \<longleftrightarrow> m = Inl e \<or> (\<exists>a. m = Inr a \<and> k a = Inl e)"
  by (cases m) auto

lemma guard_err_iff [result_iff]:
  "guard_err bad e = Inr u \<longleftrightarrow> \<not> bad"
  "guard_err bad e = Inl e' \<longleftrightarrow> bad \<and> e' = e"
  by (auto simp: guard_err_def)

lemma guard_err_simps [simp]: "guard_err True e = Inl e" "guard_err False e = Inr ()"
  by (simp_all add: guard_err_def)

section \<open>Loops\<close>

text \<open>A loop over a slice whose body may return an error: the first error ends it.\<close>

fun for_each :: "('a \<Rightarrow> ('e, unit) result) \<Rightarrow> 'a list \<Rightarrow> ('e, unit) result" where
  "for_each body [] = Inr ()"
| "for_each body (x # xs) = rbind (body x) (\<lambda>_. for_each body xs)"

lemma for_each_Inr_iff [result_iff]:
  "for_each body xs = Inr u \<longleftrightarrow> (\<forall>x \<in> set xs. body x = Inr ())"
  by (induction xs) (auto simp: result_iff)

text \<open>
  Go iterates over a map in an unspecified order.  Maps that are iterated are modelled as the
  list of their bindings in the order of the iteration; what does not depend on the order is
  proved for every permutation.
\<close>

section \<open>Lists\<close>

lemma filter_singleton_iff:
  "filter P xs = [x] \<longleftrightarrow>
    (\<exists>ys zs. xs = ys @ x # zs \<and> P x \<and> (\<forall>y \<in> set ys. \<not> P y) \<and> (\<forall>z \<in> set zs. \<not> P z))"
  by (fastforce simp: filter_eq_Cons_iff filter_empty_conv eq_commute [of "[]"])

lemma filter_mset_length: "mset xs = mset ys \<Longrightarrow> length (filter P xs) = length (filter P ys)"
  by (metis mset_filter size_mset)

lemma mset_singleton_filter:
  "mset xs = mset ys \<Longrightarrow> filter P xs = [x] \<Longrightarrow> filter P ys = [x]"
  by (metis mset_filter mset_single_iff)

end
