(* ===== verification/GoText.thy ===== *)
theory GoText
  imports Prelude
begin

text \<open>
  Go's strings and the part of the standard library (\<open>strings\<close>, \<open>regexp\<close>,
  \<open>unicode/utf8\<close>, \<open>encoding/hex\<close>) that the program calls.  A Go string is a
  sequence of bytes, and so is \<^typ>\<open>string\<close>: a \<^typ>\<open>char\<close> is one of 256 bytes, and
  \<open>length\<close> is Go's \<open>len\<close>.  The allow-lists of the policy are anchored regular
  expressions that repeat one character class; what such an allow-list excludes is proved
  once, in the locale \<open>allowlist\<close>.
\<close>

section \<open>Bytes and character classes\<close>

abbreviation byte :: "char \<Rightarrow> nat" where
  "byte \<equiv> of_char"

definition between_chars :: "char \<Rightarrow> char \<Rightarrow> char \<Rightarrow> bool" where
  "between_chars lo hi c \<longleftrightarrow> byte lo \<le> byte c \<and> byte c \<le> byte hi"

definition is_upper :: "char \<Rightarrow> bool" where
  "is_upper c = between_chars (CHR ''A'') (CHR ''Z'') c"

definition is_lower :: "char \<Rightarrow> bool" where
  "is_lower c = between_chars (CHR ''a'') (CHR ''z'') c"

definition is_digit :: "char \<Rightarrow> bool" where
  "is_digit c = between_chars (CHR ''0'') (CHR ''9'') c"

definition is_alnum :: "char \<Rightarrow> bool" where
  "is_alnum c = (is_upper c \<or> is_lower c \<or> is_digit c)"

lemmas char_class_defs = between_chars_def is_upper_def is_lower_def is_digit_def is_alnum_def

text \<open>Control characters, as \<open>validateForceCommand\<close> and the Key ID comments mean them.\<close>

definition is_control :: "char \<Rightarrow> bool" where
  "is_control c \<longleftrightarrow> byte c < 0x20 \<or> byte c = 0x7f"

definition is_space :: "char \<Rightarrow> bool" where
  "is_space c \<longleftrightarrow> byte c \<in> {9, 10, 11, 12, 13, 32}"

section \<open>The package strings\<close>

text \<open>\<open>strings.Contains(s, sub)\<close>\<close>

definition Contains :: "string \<Rightarrow> string \<Rightarrow> bool" where
  "Contains s sub = sublist sub s"

lemma sublist_code [code]:
  "sublist sub [] = (sub = [])"
  "sublist sub (c # s) = (prefix sub (c # s) \<or> sublist sub s)"
  by (auto simp: sublist_Cons_right)

lemma Contains_char [simp]: "Contains s [c] \<longleftrightarrow> c \<in> set s"
proof (induction s)
  case Nil
  then show ?case by (simp add: Contains_def)
next
  case (Cons d s)
  then show ?case by (auto simp: Contains_def sublist_Cons_right)
qed

text \<open>\<open>strings.ContainsAny\<close> on ASCII characters\<close>

definition ContainsAny :: "string \<Rightarrow> string \<Rightarrow> bool" where
  "ContainsAny s chars = list_ex (\<lambda>c. c \<in> set chars) s"

text \<open>\<open>strings.Cut\<close> with a one-byte separator: \<open>None\<close> is \<open>found == false\<close>.\<close>

fun Cut :: "char \<Rightarrow> string \<Rightarrow> (string \<times> string) option" where
  "Cut sep [] = None"
| "Cut sep (c # s) =
     (if c = sep then Some ([], s)
      else map_option (\<lambda>(before, after). (c # before, after)) (Cut sep s))"

lemma Cut_append [simp]: "sep \<notin> set b \<Longrightarrow> Cut sep (b @ sep # a) = Some (b, a)"
  by (induction b) auto

lemma Cut_SomeD: "Cut sep s = Some (b, a) \<Longrightarrow> s = b @ sep # a \<and> sep \<notin> set b"
  by (induction s arbitrary: b) (auto split: if_splits)

lemma Cut_Some_iff:
  "Cut sep s = Some (b, a) \<longleftrightarrow> s = b @ sep # a \<and> sep \<notin> set b"
  using Cut_SomeD by fastforce

lemma Cut_None_iff: "Cut sep s = None \<longleftrightarrow> sep \<notin> set s"
  by (induction s) auto

lemma Cut_unique:
  fixes sep :: char
  assumes a: "sep \<notin> set a" and c: "sep \<notin> set c"
  shows "a @ sep # b = c @ sep # d \<longleftrightarrow> a = c \<and> b = d"
proof
  assume eq: "a @ sep # b = c @ sep # d"
  have "Some (a, b) = Cut sep (a @ sep # b)" by (rule Cut_append [OF a, symmetric])
  also have "\<dots> = Cut sep (c @ sep # d)" by (rule arg_cong [OF eq])
  also have "\<dots> = Some (c, d)" by (rule Cut_append [OF c])
  finally show "a = c \<and> b = d" by blast
qed simp

text \<open>\<open>strings.Split\<close> with a one-byte separator, and \<open>strings.Join\<close>\<close>

fun Split :: "char \<Rightarrow> string \<Rightarrow> string list" where
  "Split sep [] = [[]]"
| "Split sep (c # s) =
     (if c = sep then [] # Split sep s
      else (case Split sep s of [] \<Rightarrow> [[c]] | p # ps \<Rightarrow> (c # p) # ps))"

fun Join :: "string list \<Rightarrow> string \<Rightarrow> string" where
  "Join [] sep = []"
| "Join [x] sep = x"
| "Join (x # y # ys) sep = x @ sep @ Join (y # ys) sep"

lemma Split_not_Nil [simp]: "Split sep s \<noteq> []"
  by (cases s) (auto split: list.splits)

lemma Split_no_sep: "sep \<notin> set s \<Longrightarrow> Split sep s = [s]"
  by (induction s) auto

lemma Split_append: "sep \<notin> set x \<Longrightarrow> Split sep (x @ sep # s) = x # Split sep s"
  by (induction x) auto

lemma Split_Join:
  assumes "xs \<noteq> []" and "\<forall>x \<in> set xs. sep \<notin> set x"
  shows "Split sep (Join xs [sep]) = xs"
  using assms by (induction xs "[sep]" rule: Join.induct) (auto simp: Split_no_sep Split_append)

text \<open>\<open>strings.HasPrefix\<close>, \<open>strings.TrimRight\<close>, \<open>strings.TrimSpace\<close> on ASCII\<close>

definition HasPrefix :: "string \<Rightarrow> string \<Rightarrow> bool" where
  "HasPrefix s p = prefix p s"

fun TrimRight :: "string \<Rightarrow> string \<Rightarrow> string" where
  "TrimRight [] cutset = []"
| "TrimRight (c # s) cutset =
     (let t = TrimRight s cutset in if t = [] \<and> c \<in> set cutset then [] else c # t)"

lemma TrimRight_idem [simp]: "TrimRight (TrimRight s cutset) cutset = TrimRight s cutset"
  by (induction s) (auto simp: Let_def)

section \<open>Anchored allow-list patterns\<close>

text \<open>
  \<open>^[class]{min,max}$\<close>: the pattern and \<open>MatchString\<close>.  Without the flag \<open>m\<close>
  Go's \<open>^\<close> and \<open>$\<close> match only at the two ends of the text.  The classes hold ASCII
  characters only, so that matching runes and matching bytes agree: a byte that is no ASCII
  character decodes to a rune outside every class.
\<close>

datatype pattern = Pattern (pat_class: "char \<Rightarrow> bool") (pat_min: nat) (pat_max: "nat option")

definition MatchString :: "pattern \<Rightarrow> string \<Rightarrow> bool" where
  "MatchString p s \<longleftrightarrow>
     list_all (pat_class p) s \<and> pat_min p \<le> length s \<and>
     (case pat_max p of None \<Rightarrow> True | Some m \<Rightarrow> length s \<le> m)"

lemma MatchString_Pattern [simp]:
  "MatchString (Pattern cls lo None) s \<longleftrightarrow> (\<forall>c \<in> set s. cls c) \<and> lo \<le> length s"
  "MatchString (Pattern cls lo (Some hi)) s \<longleftrightarrow>
     (\<forall>c \<in> set s. cls c) \<and> lo \<le> length s \<and> length s \<le> hi"
  by (auto simp: MatchString_def list_all_iff)

text \<open>
  What the program relies on when it writes a matching string into a log line, a
  certificate field or a comma-separated list: a class of printable ASCII characters without
  blank, quote, backslash, comma, \<open>$\<close> and braces.
\<close>

locale allowlist =
  fixes cls :: "char \<Rightarrow> bool"
  assumes printable: "cls c \<Longrightarrow> 0x20 < byte c \<and> byte c < 0x7f"
    and no_meta: "cls c \<Longrightarrow> c \<notin> {CHR '','', CHR ''$'', CHR ''{'', CHR ''}'', CHR 0x22, CHR 0x5C}"
begin

lemma cls_clean: "cls c \<Longrightarrow> \<not> is_control c \<and> \<not> is_space c"
  using printable [of c] by (auto simp: is_control_def is_space_def)

lemma matches_no_dollar: "MatchString (Pattern cls lo hi) s \<Longrightarrow> CHR ''$'' \<notin> set s"
  using no_meta by (cases hi) auto

end

section \<open>Runes\<close>

text \<open>
  \<open>for _, r := range s\<close> decodes UTF-8: \<open>decode_rune\<close> is
  \<open>utf8.DecodeRuneInString\<close>, the rune and its width.  A byte that starts no valid
  sequence is the rune \<open>0xFFFD\<close> of width 1.
\<close>

definition cont :: "nat \<Rightarrow> nat \<Rightarrow> char \<Rightarrow> bool" where
  "cont lo hi c \<longleftrightarrow> lo \<le> byte c \<and> byte c \<le> hi"

definition second_range :: "nat \<Rightarrow> nat \<times> nat" where
  "second_range b0 =
     (if b0 = 0xE0 then (0xA0, 0xBF) else if b0 = 0xED then (0x80, 0x9F)
      else if b0 = 0xF0 then (0x90, 0xBF) else if b0 = 0xF4 then (0x80, 0x8F)
      else (0x80, 0xBF))"

definition decode_rune :: "char \<Rightarrow> string \<Rightarrow> nat \<times> nat" where
  "decode_rune c s =
    (let b0 = byte c; (lo, hi) = second_range b0; bad = (0xFFFD, 1) in
     if b0 < 0x80 then (b0, 1)
     else if 0xC2 \<le> b0 \<and> b0 \<le> 0xDF then
       (case s of c1 # _ \<Rightarrow>
          if cont 0x80 0xBF c1 then ((b0 - 0xC0) * 64 + (byte c1 - 0x80), 2) else bad
        | _ \<Rightarrow> bad)
     else if 0xE0 \<le> b0 \<and> b0 \<le> 0xEF then
       (case s of c1 # c2 # _ \<Rightarrow>
          if cont lo hi c1 \<and> cont 0x80 0xBF c2
          then ((b0 - 0xE0) * 4096 + (byte c1 - 0x80) * 64 + (byte c2 - 0x80), 3) else bad
        | _ \<Rightarrow> bad)
     else if 0xF0 \<le> b0 \<and> b0 \<le> 0xF4 then
       (case s of c1 # c2 # c3 # _ \<Rightarrow>
          if cont lo hi c1 \<and> cont 0x80 0xBF c2 \<and> cont 0x80 0xBF c3
          then ((b0 - 0xF0) * 262144 + (byte c1 - 0x80) * 4096 + (byte c2 - 0x80) * 64
                + (byte c3 - 0x80), 4) else bad
        | _ \<Rightarrow> bad)
     else bad)"

fun runes :: "string \<Rightarrow> nat list" where
  "runes [] = []"
| "runes (c # s) = (case decode_rune c s of (r, w) \<Rightarrow> r # runes (drop (w - 1) s))"

lemma decode_rune_ascii: "byte c < 0x80 \<Longrightarrow> decode_rune c s = (byte c, 1)"
  by (simp add: decode_rune_def Let_def split: prod.splits)

text \<open>A rune of a longer sequence, or the replacement rune, is never an ASCII rune, and it
  swallows only continuation bytes.\<close>

lemma decode_rune_nonascii:
  assumes "0x80 \<le> byte c" and "decode_rune c s = (r, w)"
  shows "0x80 \<le> r \<and> (\<forall>d \<in> set (take (w - 1) s). 0x80 \<le> byte d)"
  using assms
  by (auto simp: decode_rune_def Let_def cont_def second_range_def
      split: prod.splits if_splits list.splits)

theorem ascii_runes_are_bytes:
  "{r \<in> set (runes s). r < 0x80} = byte ` {c \<in> set s. byte c < 0x80}"
proof (induction s rule: runes.induct)
  case 1
  then show ?case by simp
next
  case (2 c s)
  obtain r w where d: "decode_rune c s = (r, w)" by (cases "decode_rune c s")
  have IH: "{r' \<in> set (runes (drop (w - 1) s)). r' < 0x80} =
      byte ` {e \<in> set (drop (w - 1) s). byte e < 0x80}"
    using "2.IH" [OF d [symmetric]] .
  show ?case
  proof (cases "byte c < 0x80")
    case True
    with d IH show ?thesis by (auto simp: decode_rune_ascii)
  next
    case False
    then have hi: "0x80 \<le> r" "\<forall>e \<in> set (take (w - 1) s). 0x80 \<le> byte e"
      using decode_rune_nonascii [OF _ d] by auto
    have "set s = set (take (w - 1) s) \<union> set (drop (w - 1) s)"
      by (metis append_take_drop_id set_append)
    with hi have "{e \<in> set (c # s). byte e < 0x80} = {e \<in> set (drop (w - 1) s). byte e < 0x80}"
      using False by auto
    with hi IH d show ?thesis by auto
  qed
qed

corollary rune_control_iff:
  "(\<exists>r \<in> set (runes s). r < 0x20 \<or> r = 0x7f) \<longleftrightarrow> (\<exists>c \<in> set s. is_control c)"
proof -
  have "(\<exists>r \<in> set (runes s). r < 0x20 \<or> r = 0x7f) \<longleftrightarrow>
      (\<exists>r \<in> {r \<in> set (runes s). r < 0x80}. r < 0x20 \<or> r = 0x7f)"
    by auto
  also have "\<dots> \<longleftrightarrow> (\<exists>c \<in> set s. is_control c)"
    unfolding ascii_runes_are_bytes is_control_def by auto
  finally show ?thesis .
qed

section \<open>encoding/hex\<close>

definition hex_digit :: "nat \<Rightarrow> char" where
  "hex_digit n = ''0123456789abcdef'' ! n"

definition EncodeToString :: "8 word list \<Rightarrow> string" where
  "EncodeToString bs = concat (map (\<lambda>b. [hex_digit (unat b div 16), hex_digit (unat b mod 16)]) bs)"

lemma length_EncodeToString [simp]: "length (EncodeToString bs) = 2 * length bs"
  by (induction bs) (auto simp: EncodeToString_def)

lemma hex_digit_in: "n < 16 \<Longrightarrow> hex_digit n \<in> set ''0123456789abcdef''"
  unfolding hex_digit_def by (rule nth_mem) simp

lemma EncodeToString_chars: "set (EncodeToString bs) \<subseteq> set ''0123456789abcdef''"
proof
  fix c assume "c \<in> set (EncodeToString bs)"
  then obtain b where "c = hex_digit (unat b div 16) \<or> c = hex_digit (unat (b :: 8 word) mod 16)"
    by (auto simp: EncodeToString_def)
  moreover have "unat b < 256"
    using unsigned_less [of b] by simp
  moreover from this have "unat b div 16 < 16" by simp
  ultimately show "c \<in> set ''0123456789abcdef''"
    using hex_digit_in by (metis mod_less_divisor zero_less_numeral)
qed

end
