(* ===== verification/PolicyModel.thy ===== *)
theory PolicyModel
  imports GoText
begin

text \<open>
  The data of \<open>internal/policy/policy.go\<close>: the policy file as the structs the YAML is
  decoded into, and the accessors that resolve a rule's effective settings against the
  policy's defaults.  A pointer field that may be nil is an \<open>option\<close>; a Go \<open>int\<close> is a
  64-bit word read by \<open>sint\<close>; the map \<open>claims_exact\<close> is the list of its bindings in
  the order of an iteration over it.
\<close>

type_synonym go_int = "64 word"

section \<open>The policy file\<close>

record Extensions =
  ext_PermitPTY :: bool
  ext_PermitPortForwarding :: bool
  ext_PermitAgentForwarding :: bool
  ext_PermitX11Forwarding :: bool
  ext_PermitUserRC :: bool

text \<open>Go's zero value \<open>Extensions{}\<close>\<close>

definition no_extensions :: Extensions where
  "no_extensions = \<lparr>ext_PermitPTY = False, ext_PermitPortForwarding = False,
     ext_PermitAgentForwarding = False, ext_PermitX11Forwarding = False,
     ext_PermitUserRC = False\<rparr>"

record Defaults =
  def_ValidAfterOffsetSeconds :: "go_int option"
  def_MaxValidForSeconds :: "go_int option"
  def_AllowedPublicKeyTypes :: "string list"
  def_Extensions :: "Extensions option"
  def_ValidForSeconds :: "go_int option"
  def_KeyIDTemplate :: string
  def_SourceAddress :: "string list"

record JWTMatch =
  jwt_Issuer :: string
  jwt_Audience :: string
  jwt_Owner :: string
  jwt_RepoName :: string
  jwt_ClaimsExact :: "(string \<times> string) list"

record Match =
  match_JWT :: "JWTMatch option"

record Certificate =
  cert_Principals :: "string list"
  cert_ValidForSeconds :: "go_int option"
  cert_KeyIDTemplate :: string
  cert_Extensions :: "Extensions option"
  cert_ForceCommand :: string
  cert_SourceAddress :: "string list"

record Rule =
  rule_Name :: string
  rule_Enabled :: "bool option"
  rule_Match :: Match
  rule_Certificate :: Certificate

record Policy =
  pol_Version :: go_int
  pol_Disabled :: bool
  pol_Defaults :: Defaults
  pol_Rules :: "Rule list"

section \<open>Constants\<close>

definition DefaultValidAfterOffsetSeconds :: go_int where
  "DefaultValidAfterOffsetSeconds = - 30"

definition DefaultMaxValidForSeconds :: go_int where
  "DefaultMaxValidForSeconds = 900"

definition supportedKeyTypes :: "string \<Rightarrow> bool" where
  "supportedKeyTypes t \<longleftrightarrow> t = ''ssh-ed25519''"

section \<open>Effective settings\<close>

definition IsEnabled :: "Rule \<Rightarrow> bool" where
  "IsEnabled r = (case rule_Enabled r of None \<Rightarrow> True | Some b \<Rightarrow> b)"

definition ValidAfterOffsetSeconds :: "Policy \<Rightarrow> go_int" where
  "ValidAfterOffsetSeconds p =
     (case def_ValidAfterOffsetSeconds (pol_Defaults p) of
        Some v \<Rightarrow> v | None \<Rightarrow> DefaultValidAfterOffsetSeconds)"

definition MaxValidForSeconds :: "Policy \<Rightarrow> go_int" where
  "MaxValidForSeconds p =
     (case def_MaxValidForSeconds (pol_Defaults p) of
        Some v \<Rightarrow> v | None \<Rightarrow> DefaultMaxValidForSeconds)"

definition AllowedPublicKeyTypes :: "Policy \<Rightarrow> string list" where
  "AllowedPublicKeyTypes p =
     (if 0 < length (def_AllowedPublicKeyTypes (pol_Defaults p))
      then def_AllowedPublicKeyTypes (pol_Defaults p) else [''ssh-ed25519''])"

definition ExtensionsFor :: "Policy \<Rightarrow> Rule \<Rightarrow> Extensions" where
  "ExtensionsFor p r =
     (case cert_Extensions (rule_Certificate r) of
        Some e \<Rightarrow> e
      | None \<Rightarrow> (case def_Extensions (pol_Defaults p) of Some e \<Rightarrow> e | None \<Rightarrow> no_extensions))"

definition ValidForSecondsFor :: "Policy \<Rightarrow> Rule \<Rightarrow> go_int" where
  "ValidForSecondsFor p r =
     (case cert_ValidForSeconds (rule_Certificate r) of
        Some v \<Rightarrow> v
      | None \<Rightarrow> (case def_ValidForSeconds (pol_Defaults p) of Some v \<Rightarrow> v | None \<Rightarrow> 0))"

definition KeyIDTemplateFor :: "Policy \<Rightarrow> Rule \<Rightarrow> string" where
  "KeyIDTemplateFor p r =
     (if cert_KeyIDTemplate (rule_Certificate r) \<noteq> [] then cert_KeyIDTemplate (rule_Certificate r)
      else def_KeyIDTemplate (pol_Defaults p))"

definition SourceAddressFor :: "Policy \<Rightarrow> Rule \<Rightarrow> string list" where
  "SourceAddressFor p r =
     (if 0 < length (cert_SourceAddress (rule_Certificate r))
      then cert_SourceAddress (rule_Certificate r) else def_SourceAddress (pol_Defaults p))"

lemmas effective_defs = ValidAfterOffsetSeconds_def MaxValidForSeconds_def
  AllowedPublicKeyTypes_def ExtensionsFor_def ValidForSecondsFor_def KeyIDTemplateFor_def
  SourceAddressFor_def

section \<open>The issuers the verifier may talk to\<close>

text \<open>The loop of \<open>Issuers\<close>: \<open>seen\<close> is the map, here the list of its keys.\<close>

fun issuers_loop :: "string list \<Rightarrow> Rule list \<Rightarrow> string list" where
  "issuers_loop seen [] = []"
| "issuers_loop seen (r # rs) =
     (case match_JWT (rule_Match r) of
        None \<Rightarrow> issuers_loop seen rs
      | Some m \<Rightarrow>
          if \<not> IsEnabled r then issuers_loop seen rs
          else if jwt_Issuer m \<noteq> [] \<and> jwt_Issuer m \<notin> set seen
          then jwt_Issuer m # issuers_loop (jwt_Issuer m # seen) rs
          else issuers_loop seen rs)"

definition Issuers :: "Policy \<Rightarrow> string list" where
  "Issuers p = issuers_loop [] (pol_Rules p)"

definition rule_issuers :: "Rule list \<Rightarrow> string set" where
  "rule_issuers rs =
     {jwt_Issuer m |m r. r \<in> set rs \<and> IsEnabled r \<and> match_JWT (rule_Match r) = Some m
        \<and> jwt_Issuer m \<noteq> []}"

lemma rule_issuers_Cons:
  "rule_issuers (r # rs) =
     (case match_JWT (rule_Match r) of
        Some m \<Rightarrow> (if IsEnabled r \<and> jwt_Issuer m \<noteq> [] then {jwt_Issuer m} else {})
      | None \<Rightarrow> {}) \<union> rule_issuers rs"
  by (auto simp: rule_issuers_def split: option.splits)

lemma set_issuers_loop: "set (issuers_loop seen rs) = rule_issuers rs - set seen"
  by (induction seen rs rule: issuers_loop.induct)
    (auto simp: rule_issuers_Cons rule_issuers_def [of "[]"] split: option.splits)

lemma distinct_issuers_loop: "distinct (issuers_loop seen rs)"
  by (induction seen rs rule: issuers_loop.induct)
    (auto simp: set_issuers_loop split: option.splits)

lemma set_Issuers: "set (Issuers p) = rule_issuers (pol_Rules p)"
  by (simp add: Issuers_def set_issuers_loop)

lemma distinct_Issuers: "distinct (Issuers p)"
  by (simp add: Issuers_def distinct_issuers_loop)

end
