(* ===== verification/GoValue.thy ===== *)
theory GoValue
  imports GoText
begin

text \<open>
  The values a decoded JWT claim set holds: Go's \<open>map[string]any\<close> as
  \<open>encoding/json\<close> fills it.  A JSON number is a finite \<open>float64\<close>, that is
  \<open>mantissa * 2 ^ exponent\<close>; the type keeps the two integers, so that the conversion to
  \<open>int64\<close> can be computed.
\<close>

datatype float64 = Float (mantissa: int) (exponent: int)

datatype go_any =
    ANil
  | ABool bool
  | AFloat float64
  | AString string
  | AArray "go_any list"
  | AObject "(string \<times> go_any) list"

text \<open>A claim set: looking a key up gives \<open>None\<close> when it is absent.\<close>

type_synonym claims = "string \<Rightarrow> go_any option"

text \<open>The type assertion \<open>v, ok := claims[name].(string)\<close>; an absent key is the nil
  interface, whose assertion fails.\<close>

definition string_claim :: "claims \<Rightarrow> string \<Rightarrow> string option" where
  "string_claim cs name = (case cs name of Some (AString s) \<Rightarrow> Some s | _ \<Rightarrow> None)"

lemma string_claim_Some_iff [simp]:
  "string_claim cs name = Some s \<longleftrightarrow> cs name = Some (AString s)"
  by (auto simp: string_claim_def split: option.splits go_any.splits)

lemma string_claim_None_iff:
  "string_claim cs name = None \<longleftrightarrow> (\<forall>s. cs name \<noteq> Some (AString s))"
  by (auto simp: string_claim_def split: option.splits go_any.splits)

end
