(* ===== verification/KeyID.thy ===== *)
theory KeyID
  imports GoValue
begin

text \<open>
  \<open>internal/policy/keyid.go\<close>: the syntax check of a \<open>key_id_template\<close> and its
  expansion with verified claims.  The regular expression \<open>\$\{([^}]*)\}\<close> splits a
  template into segments, a literal byte or a variable; \<open>ReplaceAllString\<close>,
  \<open>FindAllStringSubmatch\<close> and \<open>ReplaceAllStringFunc\<close> are three folds over them.
\<close>

section \<open>The patterns\<close>

definition MaxKeyIDLength :: nat where
  "MaxKeyIDLength = 256"

definition claim_name_char :: "char \<Rightarrow> bool" where
  "claim_name_char c = (is_lower c \<or> is_digit c \<or> c = CHR ''_'')"

definition key_id_char :: "char \<Rightarrow> bool" where
  "key_id_char c = (is_alnum c \<or> c \<in> set ''._/:@-'')"

definition claimNameRe :: pattern where
  "claimNameRe = Pattern claim_name_char 1 None"

definition keyIDValueRe :: pattern where
  "keyIDValueRe = Pattern key_id_char 1 None"

definition keyIDLiteralRe :: pattern where
  "keyIDLiteralRe = Pattern key_id_char 0 None"

lemmas keyid_pattern_defs = claimNameRe_def keyIDValueRe_def keyIDLiteralRe_def

interpretation claim_name: allowlist claim_name_char
  by unfold_locales (auto simp: claim_name_char_def char_class_defs)

interpretation key_id: allowlist key_id_char
  by unfold_locales (auto simp: key_id_char_def char_class_defs)

section \<open>templateVarRe\<close>

datatype segment = Lit char | Var string

text \<open>
  A match at the front of the text: \<open>${\<close>, then \<open>[^}]*\<close>, which takes everything up to
  the first closing brace, then that brace.
\<close>

definition match_var :: "string \<Rightarrow> (string \<times> string) option" where
  "match_var s = (case s of
      a # b # t \<Rightarrow> if a = CHR ''$'' \<and> b = CHR ''{'' then Cut (CHR ''}'') t else None
    | _ \<Rightarrow> None)"

lemma match_var_Some_iff:
  "match_var s = Some (name, rest) \<longleftrightarrow>
     s = ''${'' @ name @ CHR ''}'' # rest \<and> CHR ''}'' \<notin> set name"
  by (auto simp: match_var_def Cut_Some_iff split: list.splits if_splits)

lemma match_var_length: "match_var s = Some (name, rest) \<Longrightarrow> length rest < length s"
  by (auto simp: match_var_Some_iff)

text \<open>Leftmost, non-overlapping matches from left to right.\<close>

function segments :: "string \<Rightarrow> segment list" where
  "segments [] = []"
| "segments (c # s) =
     (case match_var (c # s) of
        Some (name, rest) \<Rightarrow> Var name # segments rest
      | None \<Rightarrow> Lit c # segments s)"
  by pat_completeness auto
termination
  by (relation "measure length") (auto dest: match_var_length)

text \<open>\<open>templateVarRe.FindAllStringSubmatch(tmpl, -1)\<close>, first group\<close>

fun segment_names :: "segment list \<Rightarrow> string list" where
  "segment_names [] = []"
| "segment_names (Lit c # xs) = segment_names xs"
| "segment_names (Var n # xs) = n # segment_names xs"

definition var_names :: "string \<Rightarrow> string list" where
  "var_names tmpl = segment_names (segments tmpl)"

text \<open>\<open>templateVarRe.ReplaceAllString(tmpl, "")\<close>\<close>

fun segment_literals :: "segment list \<Rightarrow> string" where
  "segment_literals [] = []"
| "segment_literals (Lit c # xs) = c # segment_literals xs"
| "segment_literals (Var n # xs) = segment_literals xs"

definition strip_vars :: "string \<Rightarrow> string" where
  "strip_vars tmpl = segment_literals (segments tmpl)"

text \<open>
  \<open>templateVarRe.ReplaceAllStringFunc(tmpl, repl)\<close>: the callback gets the text of each
  match, in order; it may keep a state between the calls (a captured variable).
\<close>

fun segment_text :: "segment \<Rightarrow> string" where
  "segment_text (Lit c) = [c]"
| "segment_text (Var n) = ''${'' @ n @ ''}''"

fun replace_func :: "(string \<Rightarrow> 's \<Rightarrow> string \<times> 's) \<Rightarrow> segment list \<Rightarrow> 's \<Rightarrow> string \<times> 's" where
  "replace_func repl [] st = ([], st)"
| "replace_func repl (Lit c # xs) st =
     (let (out, st') = replace_func repl xs st in (c # out, st'))"
| "replace_func repl (Var n # xs) st =
     (let (v, st1) = repl (segment_text (Var n)) st; (out, st2) = replace_func repl xs st1
      in (v @ out, st2))"

lemma segments_text: "concat (map segment_text (segments tmpl)) = tmpl"
proof (induction tmpl rule: segments.induct)
  case 1
  then show ?case by simp
next
  case (2 c s)
  then show ?case
    by (auto split: option.splits simp: match_var_Some_iff)
qed

lemma set_segment_names: "set (segment_names xs) = {n. Var n \<in> set xs}"
  by (induction xs rule: segment_names.induct) auto

lemma set_segment_literals: "set (segment_literals xs) = {c. Lit c \<in> set xs}"
  by (induction xs rule: segment_literals.induct) auto

lemma segments_eq_Nil_iff [simp]: "segments tmpl = [] \<longleftrightarrow> tmpl = []"
  by (cases tmpl) (auto split: option.splits)

lemma segments_lit: "c \<noteq> CHR ''$'' \<Longrightarrow> segments (c # s) = Lit c # segments s"
  by (auto simp: match_var_def split: list.splits)

lemma segments_var:
  assumes "CHR ''}'' \<notin> set n"
  shows "segments (''${'' @ n @ CHR ''}'' # s) = Var n # segments s"
  using assms by (simp add: match_var_def)

declare segments.simps(2) [simp del]

section \<open>templateVars\<close>

datatype template_error =
    MalformedVariableReference
  | InvalidClaimName string
  | BadLiteralText

definition check_name :: "string \<Rightarrow> (template_error, unit) result" where
  "check_name name = guard_err (\<not> MatchString claimNameRe name) (InvalidClaimName name)"

definition templateVars :: "string \<Rightarrow> (template_error, string list) result" where
  "templateVars tmpl =
     (if Contains tmpl ''$'' \<and> Contains (strip_vars tmpl) ''$''
      then Inl MalformedVariableReference
      else rbind (for_each check_name (var_names tmpl)) (\<lambda>_.
        if \<not> MatchString keyIDLiteralRe (strip_vars tmpl) then Inl BadLiteralText
        else Inr (var_names tmpl)))"

text \<open>The exported alias for check-config\<close>

definition TemplateVars :: "string \<Rightarrow> (template_error, string list) result" where
  "TemplateVars tmpl = templateVars tmpl"

text \<open>
  The check for a stray \<open>$\<close> only chooses the error: a literal text within the allow-list
  has none.
\<close>

lemma templateVars_Inr_iff [result_iff]:
  "templateVars tmpl = Inr vs \<longleftrightarrow>
     vs = var_names tmpl \<and> (\<forall>n \<in> set vs. MatchString claimNameRe n)
     \<and> MatchString keyIDLiteralRe (strip_vars tmpl)"
proof -
  have "MatchString keyIDLiteralRe (strip_vars tmpl) \<Longrightarrow> CHR ''$'' \<notin> set (strip_vars tmpl)"
    unfolding keyIDLiteralRe_def by (rule key_id.matches_no_dollar)
  then show ?thesis
    by (auto simp: templateVars_def check_name_def result_iff)
qed

text \<open>The template language the documentation describes, as a grammar.\<close>

inductive template_grammar :: "string \<Rightarrow> string list \<Rightarrow> bool" where
  tg_empty: "template_grammar [] []"
| tg_lit: "key_id_char c \<Longrightarrow> template_grammar t vs \<Longrightarrow> template_grammar (c # t) vs"
| tg_var: "MatchString claimNameRe n \<Longrightarrow> template_grammar t vs \<Longrightarrow>
    template_grammar (''${'' @ n @ CHR ''}'' # t) (n # vs)"

lemma claim_name_no_brace: "MatchString claimNameRe n \<Longrightarrow> CHR ''}'' \<notin> set n"
  using claim_name.no_meta [of "CHR ''}''"] by (auto simp: claimNameRe_def)

lemma grammar_segments:
  "template_grammar t vs \<Longrightarrow>
     segment_names (segments t) = vs \<and> (\<forall>n \<in> set vs. MatchString claimNameRe n)
     \<and> (\<forall>c \<in> set (segment_literals (segments t)). key_id_char c)"
proof (induction rule: template_grammar.induct)
  case tg_empty
  then show ?case by simp
next
  case (tg_lit c t vs)
  then have "c \<noteq> CHR ''$''" using key_id.no_meta [of c] by auto
  from segments_lit [OF this, of t] tg_lit show ?case by auto
next
  case (tg_var n t vs)
  then show ?case
    using segments_var [OF claim_name_no_brace [OF tg_var.hyps(1)], of t] by simp
qed

lemma segments_grammar:
  assumes "\<forall>n. Var n \<in> set xs \<longrightarrow> MatchString claimNameRe n"
    and "\<forall>c. Lit c \<in> set xs \<longrightarrow> key_id_char c"
  shows "template_grammar (concat (map segment_text xs)) (segment_names xs)"
  using assms
proof (induction xs)
  case Nil
  then show ?case by (simp add: tg_empty)
next
  case (Cons x xs)
  then have IH: "template_grammar (concat (map segment_text xs)) (segment_names xs)" by simp
  show ?case
  proof (cases x)
    case (Lit c)
    with Cons.prems IH show ?thesis by (auto intro: tg_lit)
  next
    case (Var n)
    with Cons.prems IH tg_var [of n] show ?thesis by auto
  qed
qed

lemma templateVars_grammar_iff: "templateVars t = Inr vs \<longleftrightarrow> template_grammar t vs"
proof
  assume "templateVars t = Inr vs"
  then have vs: "vs = segment_names (segments t)" and "\<forall>n \<in> set vs. MatchString claimNameRe n"
    and "\<forall>c \<in> set (segment_literals (segments t)). key_id_char c"
    by (auto simp: result_iff var_names_def strip_vars_def keyIDLiteralRe_def)
  then show "template_grammar t vs"
    using segments_grammar [of "segments t"]
    by (simp add: segments_text set_segment_names set_segment_literals)
next
  assume "template_grammar t vs"
  then show "templateVars t = Inr vs"
    by (auto simp: result_iff var_names_def strip_vars_def keyIDLiteralRe_def
        dest: grammar_segments)
qed

section \<open>ExpandKeyID\<close>

datatype key_id_error =
    ClaimNotPresent string
  | ClaimNotString string
  | ClaimBadCharacters string
  | KeyIDTooLong
  | KeyIDBadCharacters

text \<open>The slice \<open>m[2 : len(m)-1]\<close>\<close>

definition var_of_match :: "string \<Rightarrow> string" where
  "var_of_match m = take (length m - 1 - 2) (drop 2 m)"

lemma var_of_match [simp]: "var_of_match (segment_text (Var n)) = n"
  by (simp add: var_of_match_def)

declare segment_text.simps(2) [simp del]

text \<open>The closure handed to \<open>ReplaceAllStringFunc\<close>; its state is \<open>expandErr\<close>.\<close>

definition expand_claim ::
  "claims \<Rightarrow> string \<Rightarrow> key_id_error option \<Rightarrow> string \<times> key_id_error option" where
  "expand_claim cs m err =
     (if err \<noteq> None then ([], err) else
      let name = var_of_match m in
      case cs name of
        None \<Rightarrow> ([], Some (ClaimNotPresent name))
      | Some (AString v) \<Rightarrow>
          if \<not> MatchString keyIDValueRe v then ([], Some (ClaimBadCharacters name))
          else (v, None)
      | Some _ \<Rightarrow> ([], Some (ClaimNotString name)))"

definition ExpandKeyID :: "string \<Rightarrow> claims \<Rightarrow> (key_id_error, string) result" where
  "ExpandKeyID tmpl cs =
     (case replace_func (expand_claim cs) (segments tmpl) None of
        (out, Some e) \<Rightarrow> Inl e
      | (out, None) \<Rightarrow>
          if length out > MaxKeyIDLength then Inl KeyIDTooLong
          else if \<not> MatchString keyIDValueRe out then Inl KeyIDBadCharacters
          else Inr out)"

text \<open>What one variable contributes, and what goes wrong with it.\<close>

definition claim_fault :: "claims \<Rightarrow> string \<Rightarrow> key_id_error option" where
  "claim_fault cs name = (case cs name of
      None \<Rightarrow> Some (ClaimNotPresent name)
    | Some (AString v) \<Rightarrow>
        if MatchString keyIDValueRe v then None else Some (ClaimBadCharacters name)
    | Some _ \<Rightarrow> Some (ClaimNotString name))"

fun segment_value :: "claims \<Rightarrow> segment \<Rightarrow> string" where
  "segment_value cs (Lit c) = [c]"
| "segment_value cs (Var n) = (case string_claim cs n of Some v \<Rightarrow> v | None \<Rightarrow> [])"

lemma claim_fault_None_iff:
  "claim_fault cs n = None \<longleftrightarrow> (\<exists>v. cs n = Some (AString v) \<and> MatchString keyIDValueRe v)"
  by (auto simp: claim_fault_def split: option.splits go_any.splits)

lemma expand_claim_ok:
  "claim_fault cs n = None \<Longrightarrow>
     expand_claim cs (segment_text (Var n)) None = (segment_value cs (Var n), None)"
  by (auto simp: claim_fault_None_iff expand_claim_def string_claim_def)

lemma expand_claim_fault:
  "claim_fault cs n = Some e \<Longrightarrow> expand_claim cs (segment_text (Var n)) None = ([], Some e)"
  by (auto simp: claim_fault_def expand_claim_def split: option.splits go_any.splits if_splits)

lemma replace_after_error: "snd (replace_func (expand_claim cs) xs (Some e)) = Some e"
  by (induction xs rule: segment_names.induct) (auto simp: expand_claim_def split: prod.splits)

text \<open>The error is that of the first faulty variable.\<close>

fun first_fault :: "claims \<Rightarrow> string list \<Rightarrow> key_id_error option" where
  "first_fault cs [] = None"
| "first_fault cs (n # ns) =
     (case claim_fault cs n of Some e \<Rightarrow> Some e | None \<Rightarrow> first_fault cs ns)"

lemma first_fault_None_iff: "first_fault cs ns = None \<longleftrightarrow> (\<forall>n \<in> set ns. claim_fault cs n = None)"
  by (induction ns) (auto split: option.splits)

lemma replace_func_expand:
  "replace_func (expand_claim cs) xs None = (out, err) \<Longrightarrow>
     err = first_fault cs (segment_names xs)
     \<and> (err = None \<longrightarrow> out = concat (map (segment_value cs) xs))"
proof (induction xs arbitrary: out rule: segment_names.induct)
  case 1
  then show ?case by simp
next
  case (2 c xs)
  then show ?case by (auto split: prod.splits)
next
  case (3 n xs)
  show ?case
  proof (cases "claim_fault cs n")
    case None
    with 3 show ?thesis
      by (auto simp: expand_claim_ok split: prod.splits)
  next
    case (Some e)
    then show ?thesis
      using 3 replace_after_error [of cs xs e]
      by (auto simp: expand_claim_fault split: prod.splits)
  qed
qed

definition expansion :: "claims \<Rightarrow> string \<Rightarrow> string" where
  "expansion cs tmpl = concat (map (segment_value cs) (segments tmpl))"

lemma ExpandKeyID_cases:
  "ExpandKeyID tmpl cs =
     (case first_fault cs (var_names tmpl) of
        Some e \<Rightarrow> Inl e
      | None \<Rightarrow>
          if length (expansion cs tmpl) > MaxKeyIDLength then Inl KeyIDTooLong
          else if \<not> MatchString keyIDValueRe (expansion cs tmpl) then Inl KeyIDBadCharacters
          else Inr (expansion cs tmpl))"
  using replace_func_expand [of cs "segments tmpl"]
  by (cases "replace_func (expand_claim cs) (segments tmpl) None")
    (auto simp: ExpandKeyID_def expansion_def var_names_def split: option.splits)

lemma ExpandKeyID_Inr_iff [result_iff]:
  "ExpandKeyID tmpl cs = Inr out \<longleftrightarrow>
     (\<forall>n \<in> set (var_names tmpl). claim_fault cs n = None) \<and> out = expansion cs tmpl
     \<and> length out \<le> MaxKeyIDLength \<and> MatchString keyIDValueRe out"
  by (auto simp: ExpandKeyID_cases first_fault_None_iff [symmetric] split: option.splits)

lemma expansion_clean:
  assumes "templateVars tmpl = Inr vs" and "tmpl \<noteq> []"
    and "\<forall>n \<in> set vs. claim_fault cs n = None"
  shows "MatchString keyIDValueRe (expansion cs tmpl)"
proof -
  have seg: "MatchString keyIDValueRe (segment_value cs x)" if "x \<in> set (segments tmpl)" for x
  proof (cases x)
    case (Lit c)
    with that assms(1) show ?thesis
      by (auto simp: result_iff keyid_pattern_defs strip_vars_def set_segment_literals)
  next
    case (Var n)
    with that assms(1,3) have "claim_fault cs n = None"
      by (auto simp: result_iff var_names_def set_segment_names)
    with Var show ?thesis by (auto simp: claim_fault_None_iff string_claim_def)
  qed
  obtain x xs where xs: "segments tmpl = x # xs"
    using assms(2) by (metis segments_eq_Nil_iff neq_Nil_conv)
  with seg [of x] have "1 \<le> length (segment_value cs x)" by (simp add: keyIDValueRe_def)
  with seg show ?thesis
    unfolding expansion_def keyIDValueRe_def xs by (fastforce simp: keyIDValueRe_def)
qed

end
