(* ===== verification/GoNet.thy ===== *)
theory GoNet
  imports GoText
begin

text \<open>
  \<open>net.ParseCIDR\<close> of the Go standard library, which decides what a
  \<open>source_address\<close> entry may be: \<open>netip.ParseAddr\<close> with its IPv4 and IPv6
  parsers, and the decimal mask.  \<open>None\<close> is a non-nil error.  The lemmas bound the
  characters an accepted entry can hold.
\<close>

section \<open>IPv4\<close>

text \<open>
  The loop of \<open>parseIPv4Fields\<close>: the octet read so far and its number of digits, whether a
  dot may not stand here (front of the text or right after a dot), and the finished fields.
\<close>

definition digit_val :: "char \<Rightarrow> nat" where
  "digit_val c = byte c - byte (CHR ''0'')"

fun ipv4_loop :: "string \<Rightarrow> nat \<Rightarrow> nat \<Rightarrow> bool \<Rightarrow> nat list \<Rightarrow> nat list option" where
  "ipv4_loop [] val digLen nodot fields =
     (if length fields < 3 then None else Some (fields @ [val]))"
| "ipv4_loop (c # s) val digLen nodot fields =
     (if is_digit c then
        (if digLen = 1 \<and> val = 0 then None
         else let val' = val * 10 + digit_val c in
           if val' > 255 then None else ipv4_loop s val' (digLen + 1) False fields)
      else if c = CHR ''.'' then
        (if nodot \<or> s = [] then None
         else if length fields = 3 then None
         else ipv4_loop s 0 0 True (fields @ [val]))
      else None)"

definition parseIPv4Fields :: "string \<Rightarrow> nat list option" where
  "parseIPv4Fields s = ipv4_loop s 0 0 True []"

lemma ipv4_loop_chars:
  "ipv4_loop s v d b fs = Some out \<Longrightarrow> \<forall>c \<in> set s. is_digit c \<or> c = CHR ''.''"
  by (induction s v d b fs rule: ipv4_loop.induct) (auto simp: Let_def split: if_splits)

section \<open>IPv6\<close>

definition is_hex :: "char \<Rightarrow> bool" where
  "is_hex c \<longleftrightarrow> is_digit c \<or> between_chars (CHR ''a'') (CHR ''f'') c
     \<or> between_chars (CHR ''A'') (CHR ''F'') c"

definition hex_val :: "char \<Rightarrow> nat" where
  "hex_val c =
     (if is_digit c then digit_val c
      else if between_chars (CHR ''a'') (CHR ''f'') c then byte c - byte (CHR ''a'') + 10
      else byte c - byte (CHR ''A'') + 10)"

text \<open>One group: its number of digits, its value, the text after it.\<close>

fun hex_group :: "string \<Rightarrow> nat \<Rightarrow> nat \<Rightarrow> (nat \<times> nat \<times> string) option" where
  "hex_group [] off acc = Some (off, acc, [])"
| "hex_group (c # s) off acc =
     (if is_hex c then
        (let acc' = acc * 16 + hex_val c in
         if off > 3 then None else if acc' > 65535 then None else hex_group s (off + 1) acc')
      else Some (off, acc, c # s))"

lemma hex_group_split:
  "hex_group s off acc = Some (off', acc', rest) \<Longrightarrow>
     \<exists>g. s = g @ rest \<and> (\<forall>c \<in> set g. is_hex c) \<and> off' = off + length g"
proof (induction s off acc rule: hex_group.induct)
  case (1 off acc)
  then show ?case by simp
next
  case (2 c s off acc)
  show ?case
  proof (cases "is_hex c")
    case True
    with 2 obtain g where "s = g @ rest" "\<forall>c \<in> set g. is_hex c" "off' = off + 1 + length g"
      by (auto simp: Let_def split: if_splits)
    with True show ?thesis by (intro exI [of _ "c # g"]) auto
  next
    case False
    with 2 show ?thesis by auto
  qed
qed

text \<open>
  The main loop of \<open>parseIPv6\<close>: \<open>ip\<close> is the prefix of the 16 bytes that is filled, so
  Go's \<open>i\<close> is its length; the result is the unread text, the bytes and the ellipsis.
\<close>

function ipv6_loop ::
  "string \<Rightarrow> nat list \<Rightarrow> nat option \<Rightarrow> (string \<times> nat list \<times> nat option) option" where
  "ipv6_loop s ip ell =
     (if \<not> length ip < 16 then Some (s, ip, ell) else
      case hex_group s 0 0 of
        None \<Rightarrow> None
      | Some (off, acc, rest) \<Rightarrow>
          if off = 0 then None
          else if rest \<noteq> [] \<and> hd rest = CHR ''.'' then
            (if ell = None \<and> length ip \<noteq> 12 then None
             else if length ip + 4 > 16 then None
             else map_option (\<lambda>fs. ([], ip @ fs, ell)) (parseIPv4Fields s))
          else let ip' = ip @ [acc div 256, acc mod 256] in
            (case rest of
              [] \<Rightarrow> Some ([], ip', ell)
            | c # t \<Rightarrow>
                if c \<noteq> CHR '':'' then None
                else if t = [] then None
                else if hd t = CHR '':'' then
                  (if ell \<noteq> None then None
                   else if tl t = [] then Some ([], ip', Some (length ip'))
                   else ipv6_loop (tl t) ip' (Some (length ip')))
                else ipv6_loop t ip' ell))"
  by pat_completeness auto
termination
  by (relation "measure (\<lambda>(s, ip, ell). length s)")
    (auto dest!: hex_group_split simp: length_tl less_Suc_eq_le trans_le_add2)

declare ipv6_loop.simps [simp del]

definition parseIPv6 :: "string \<Rightarrow> (nat list \<times> string) option" where
  "parseIPv6 inp =
     (let (s, zone, bad_zone) =
        (case Cut (CHR ''%'') inp of
           None \<Rightarrow> (inp, [], False)
         | Some (a, z) \<Rightarrow> (a, z, z = [])) in
      if bad_zone then None
      else if prefix ''::'' s \<and> drop 2 s = [] then Some (replicate 16 0, zone)
      else
        case ipv6_loop (if prefix ''::'' s then drop 2 s else s) []
               (if prefix ''::'' s then Some 0 else None) of
          None \<Rightarrow> None
        | Some (rest, ip, ell) \<Rightarrow>
            if rest \<noteq> [] then None
            else if length ip < 16 then
              (case ell of
                 None \<Rightarrow> None
               | Some e \<Rightarrow> Some (take e ip @ replicate (16 - length ip) 0 @ drop e ip, zone))
            else if ell \<noteq> None then None
            else Some (ip, zone))"

section \<open>ParseAddr and ParseCIDR\<close>

fun parse_addr_scan :: "string \<Rightarrow> string \<Rightarrow> (nat list \<times> string) option" where
  "parse_addr_scan s [] = None"
| "parse_addr_scan s (c # cs) =
     (if c = CHR ''.'' then map_option (\<lambda>fs. (fs, [])) (parseIPv4Fields s)
      else if c = CHR '':'' then parseIPv6 s
      else if c = CHR ''%'' then None
      else parse_addr_scan s cs)"

definition ParseAddr :: "string \<Rightarrow> (nat list \<times> string) option" where
  "ParseAddr s = parse_addr_scan s s"

text \<open>\<open>dtoi\<close>: the number, the count of digits read, and the flag.\<close>

fun dtoi_loop :: "string \<Rightarrow> nat \<Rightarrow> nat \<Rightarrow> nat \<times> nat \<times> bool" where
  "dtoi_loop [] n i = (n, i, 0 < i)"
| "dtoi_loop (c # s) n i =
     (if is_digit c then
        (let n' = n * 10 + digit_val c in
         if n' \<ge> 0xFFFFFF then (0xFFFFFF, i, False) else dtoi_loop s n' (i + 1))
      else (n, i, 0 < i))"

definition dtoi :: "string \<Rightarrow> nat \<times> nat \<times> bool" where
  "dtoi s = dtoi_loop s 0 0"

text \<open>The address bytes (4 or 16) and the mask length.\<close>

definition ParseCIDR :: "string \<Rightarrow> (nat list \<times> nat) option" where
  "ParseCIDR s =
     (case Cut (CHR ''/'') s of
        None \<Rightarrow> None
      | Some (addr, bits) \<Rightarrow>
          (case ParseAddr addr of
             None \<Rightarrow> None
           | Some (ip, zone) \<Rightarrow>
               if zone \<noteq> [] then None
               else (let (n, i, ok) = dtoi bits in
                 if \<not> ok \<or> i \<noteq> length bits \<or> n > 8 * length ip then None
                 else Some (ip, n))))"

lemma replicate_numeral_Cons:
  "replicate (numeral k) x = x # replicate (pred_numeral k) x"
  by (simp add: numeral_eq_Suc)

lemmas cidr_eval = replicate_numeral_Cons ParseCIDR_def ParseAddr_def parseIPv4Fields_def parseIPv6_def dtoi_def
  digit_val_def hex_val_def is_hex_def char_class_defs ipv6_loop.simps

lemma ParseCIDR_v4: "ParseCIDR ''192.0.2.0/24'' = Some ([192, 0, 2, 0], 24)"
  by (simp add: cidr_eval)

lemma ParseCIDR_v6:
  "ParseCIDR ''2001:db8::/32'' =
     Some ([0x20, 0x01, 0x0d, 0xb8, 0, 0, 0, 0, 0, 0, 0, 0, 0, 0, 0, 0], 32)"
  by (simp add: cidr_eval)

lemma ParseCIDR_bare: "ParseCIDR ''192.0.2.10'' = None"
  by (simp add: cidr_eval)

section \<open>What an accepted entry looks like\<close>

definition cidr_char :: "char \<Rightarrow> bool" where
  "cidr_char c = (is_hex c \<or> c \<in> set ''.:/'')"

interpretation cidr: allowlist cidr_char
  by unfold_locales (auto simp: cidr_char_def is_hex_def char_class_defs)

lemma is_digit_is_hex: "is_digit c \<Longrightarrow> is_hex c"
  by (simp add: is_hex_def)

lemma ipv6_loop_chars:
  "ipv6_loop s ip ell = Some (rest, out) \<Longrightarrow> \<forall>c \<in> set s - set rest. is_hex c \<or> c \<in> set ''.:''"
proof (induction s ip ell arbitrary: rest out rule: ipv6_loop.induct)
  case (1 s ip ell)
  show ?case
  proof (cases "length ip < 16")
    case False
    with "1.prems" show ?thesis by (subst (asm) ipv6_loop.simps) simp
  next
    case True
    with "1.prems" obtain off acc t where g: "hex_group s 0 0 = Some (off, acc, t)"
      by (subst (asm) ipv6_loop.simps) (auto split: option.splits)
    then obtain h where h: "s = h @ t" "\<forall>c \<in> set h. is_hex c"
      using hex_group_split by blast
    show ?thesis
    proof (cases t)
      case Nil
      with h show ?thesis by auto
    next
      case (Cons c u)
      show ?thesis
      proof (cases "c = CHR ''.''")
        case True
        with "1.prems" g Cons \<open>length ip < 16\<close> obtain fs where "parseIPv4Fields s = Some fs"
          by (subst (asm) ipv6_loop.simps) (auto split: if_splits)
        then have "\<forall>c \<in> set s. is_digit c \<or> c = CHR ''.''"
          unfolding parseIPv4Fields_def by (rule ipv4_loop_chars)
        then show ?thesis by (auto dest: is_digit_is_hex)
      next
        case False
        have "\<forall>d \<in> set u - set rest. is_hex d \<or> d \<in> set ''.:''" if "u \<noteq> []" "hd u \<noteq> CHR '':''"
          using that "1.prems" "1.IH"(2) [OF _ g] g Cons False \<open>length ip < 16\<close>
          by (subst (asm) ipv6_loop.simps) (auto simp: Let_def split: if_splits)
        moreover have "\<forall>d \<in> set (tl u) - set rest. is_hex d \<or> d \<in> set ''.:''"
          if "u \<noteq> []" "hd u = CHR '':''" "tl u \<noteq> []"
          using that "1.prems" "1.IH"(1) [OF _ g] g Cons False \<open>length ip < 16\<close>
          by (subst (asm) ipv6_loop.simps) (auto simp: Let_def split: if_splits)
        moreover have "c = CHR '':''"
          using "1.prems" g Cons False \<open>length ip < 16\<close>
          by (subst (asm) ipv6_loop.simps) (auto simp: Let_def split: if_splits)
        ultimately show ?thesis
          using h Cons by (cases u; cases "hd u = CHR '':''"; cases "tl u") auto
      qed
    qed
  qed
qed

lemma parseIPv6_chars:
  assumes "parseIPv6 s = Some (ip, [])" and "c \<in> set s"
  shows "is_hex c \<or> c \<in> set ''.:''"
proof -
  let ?t = "if prefix ''::'' s then drop 2 s else s"
  have nz: "Cut (CHR ''%'') s = None"
    using assms(1) by (cases "Cut (CHR ''%'') s") (auto simp: parseIPv6_def Let_def split: if_splits option.splits)
  show ?thesis
  proof (cases "prefix ''::'' s \<and> drop 2 s = []")
    case True
    with assms(2) show ?thesis by (auto simp: prefix_def)
  next
    case False
    with assms(1) nz obtain out where
      "ipv6_loop ?t [] (if prefix ''::'' s then Some 0 else None) = Some ([], out)"
      by (auto simp: parseIPv6_def split: option.splits if_splits)
    then have "\<forall>c \<in> set ?t. is_hex c \<or> c \<in> set ''.:''"
      by (auto dest!: ipv6_loop_chars)
    with assms(2) show ?thesis by (auto simp: prefix_def split: if_splits)
  qed
qed

lemma parse_addr_scan_cases:
  "parse_addr_scan s t = Some r \<Longrightarrow>
     (\<exists>fs. parseIPv4Fields s = Some fs \<and> r = (fs, [])) \<or> parseIPv6 s = Some r"
  by (induction s t rule: parse_addr_scan.induct) (auto split: if_splits)

lemma ParseAddr_chars:
  assumes "ParseAddr s = Some (ip, [])" and "c \<in> set s"
  shows "is_hex c \<or> c \<in> set ''.:''"
proof -
  consider fs where "parseIPv4Fields s = Some fs" | "parseIPv6 s = Some (ip, [])"
    using assms(1) parse_addr_scan_cases unfolding ParseAddr_def by blast
  then show ?thesis
  proof cases
    case 1
    with assms(2) show ?thesis
      unfolding parseIPv4Fields_def by (auto dest!: ipv4_loop_chars is_digit_is_hex)
  next
    case 2
    then show ?thesis using assms(2) by (rule parseIPv6_chars)
  qed
qed

lemma dtoi_digits:
  "dtoi_loop s n i = (n', i', True) \<Longrightarrow> i' = i + length s \<Longrightarrow> \<forall>c \<in> set s. is_digit c"
  by (induction s n i rule: dtoi_loop.induct) (auto simp: Let_def split: if_splits)

lemma ParseCIDR_chars:
  assumes "ParseCIDR s = Some r" and "c \<in> set s"
  shows "cidr_char c"
proof -
  obtain addr bits ip n where cut: "Cut (CHR ''/'') s = Some (addr, bits)"
    and "ParseAddr addr = Some (ip, [])" and "dtoi bits = (n, length bits, True)"
    using assms(1) by (auto simp: ParseCIDR_def split: option.splits if_splits prod.splits)
  then have "\<forall>c \<in> set addr. is_hex c \<or> c \<in> set ''.:''" and "\<forall>c \<in> set bits. is_digit c"
    using ParseAddr_chars dtoi_digits [of bits 0 0] by (auto simp: dtoi_def)
  moreover have "s = addr @ CHR ''/'' # bits"
    using cut by (simp add: Cut_Some_iff)
  ultimately show ?thesis
    using assms(2) is_digit_is_hex [of c] by (auto simp: cidr_char_def)
qed

end
