(* ===== verification/PolicyValidate.thy ===== *)
theory PolicyValidate
  imports PolicyModel KeyID GoNet
begin

text \<open>
  \<open>Validate\<close>, \<open>Parse\<close> and \<open>Load\<close> of \<open>internal/policy/policy.go\<close>.  Every early
  return is a branch that yields its own error value.  The declarative predicate
  \<open>policy_ok\<close> states what the policy reference promises; \<open>Validate_ok_iff\<close> says that
  the sequence of checks accepts exactly the policies that satisfy it.
\<close>

section \<open>Patterns\<close>

definition rule_name_char :: "char \<Rightarrow> bool" where
  "rule_name_char c = (is_alnum c \<or> c \<in> set ''._-'')"

definition principal_char :: "char \<Rightarrow> bool" where
  "principal_char c = (is_alnum c \<or> c \<in> set ''._@:-'')"

definition ruleNameRe :: pattern where
  "ruleNameRe = Pattern rule_name_char 1 None"

definition principalRe :: pattern where
  "principalRe = Pattern principal_char 1 (Some 128)"

interpretation rule_name: allowlist rule_name_char
  by unfold_locales (auto simp: rule_name_char_def char_class_defs)

interpretation principal: allowlist principal_char
  by unfold_locales (auto simp: principal_char_def char_class_defs)

section \<open>Errors\<close>

datatype source_error = EmptyEntry string | NotCIDR string string

datatype force_error = ForceTemplating | ForceControlCharacter

datatype rule_error =
    NameInvalidCharacters
  | JWTRequired
  | IssuerRequired
  | AudienceRequired
  | OwnerSlash string
  | RepoNameSlash string
  | EmptyClaimName
  | EmptyClaimValue string
  | NoPrincipals
  | EmptyPrincipal
  | BadPrincipal string
  | TTLRequired
  | TTLExceedsMax go_int go_int
  | TemplateRequired
  | RuleTemplate template_error
  | RuleForceCommand force_error
  | RuleSourceAddress source_error

datatype policy_error =
    UnsupportedVersion go_int
  | MaxNotPositive
  | UnsupportedKeyType string
  | DefaultTTLNotPositive
  | DefaultTTLExceedsMax go_int go_int
  | DefaultTemplate template_error
  | DefaultSourceAddress source_error
  | NoRules
  | NameRequired nat
  | DuplicateRuleName string
  | RuleInvalid string rule_error

text \<open>\<open>fmt.Errorf("...: %w", err)\<close>: wrap an error on its way out.\<close>

definition wrap_err :: "('e \<Rightarrow> 'f) \<Rightarrow> ('e, 'a) result \<Rightarrow> ('f, 'a) result" where
  "wrap_err f m = (case m of Inl e \<Rightarrow> Inl (f e) | Inr a \<Rightarrow> Inr a)"

lemma wrap_err_iff [result_iff]:
  "wrap_err f m = Inr a \<longleftrightarrow> m = Inr a"
  "wrap_err f m = Inl e \<longleftrightarrow> (\<exists>e'. m = Inl e' \<and> e = f e')"
  by (auto simp: wrap_err_def split: sum.splits)

section \<open>Field checks\<close>

definition validateForceCommand :: "string \<Rightarrow> (force_error, unit) result" where
  "validateForceCommand cmd =
     (if cmd = [] then Inr ()
      else if Contains cmd ''${'' then Inl ForceTemplating
      else for_each (\<lambda>r. guard_err (r < 0x20 \<or> r = 0x7f) ForceControlCharacter) (runes cmd))"

definition validateSourceAddress :: "string \<Rightarrow> string list \<Rightarrow> (source_error, unit) result" where
  "validateSourceAddress field cidrs =
     for_each (\<lambda>c. if c = [] then Inl (EmptyEntry field)
        else guard_err (ParseCIDR c = None) (NotCIDR field c)) cidrs"

definition check_claim :: "string \<times> string \<Rightarrow> (rule_error, unit) result" where
  "check_claim kv = (case kv of (claim, v) \<Rightarrow>
     if claim = [] then Inl EmptyClaimName
     else guard_err (v = []) (EmptyClaimValue claim))"

definition check_principal :: "string \<Rightarrow> (rule_error, unit) result" where
  "check_principal pr =
     (if pr = [] then Inl EmptyPrincipal
      else guard_err (\<not> MatchString principalRe pr) (BadPrincipal pr))"

definition check_key_type :: "string \<Rightarrow> (policy_error, unit) result" where
  "check_key_type kt = guard_err (\<not> supportedKeyTypes kt) (UnsupportedKeyType kt)"

section \<open>Validate\<close>

text \<open>The body of the loop over the rules, from the match block on.\<close>

definition validate_match :: "Match \<Rightarrow> (rule_error, unit) result" where
  "validate_match mt =
     (case match_JWT mt of
        None \<Rightarrow> Inl JWTRequired
      | Some m \<Rightarrow>
          if jwt_Issuer m = [] then Inl IssuerRequired
          else if jwt_Audience m = [] then Inl AudienceRequired
          else if Contains (jwt_Owner m) ''/'' then Inl (OwnerSlash (jwt_Owner m))
          else if Contains (jwt_RepoName m) ''/'' then Inl (RepoNameSlash (jwt_RepoName m))
          else for_each check_claim (jwt_ClaimsExact m))"

definition validate_certificate :: "Policy \<Rightarrow> Rule \<Rightarrow> (rule_error, unit) result" where
  "validate_certificate p r =
     (let c = rule_Certificate r in
      if cert_Principals c = [] then Inl NoPrincipals
      else rbind (for_each check_principal (cert_Principals c)) (\<lambda>_.
        let ttl = ValidForSecondsFor p r in
        if sint ttl \<le> 0 then Inl TTLRequired
        else if sint ttl > sint (MaxValidForSeconds p)
        then Inl (TTLExceedsMax ttl (MaxValidForSeconds p))
        else let tmpl = KeyIDTemplateFor p r in
        if tmpl = [] then Inl TemplateRequired
        else rbind (wrap_err RuleTemplate (templateVars tmpl)) (\<lambda>_.
          rbind (wrap_err RuleForceCommand (validateForceCommand (cert_ForceCommand c))) (\<lambda>_.
            wrap_err RuleSourceAddress
              (validateSourceAddress ''certificate.source_address'' (SourceAddressFor p r))))))"

definition validate_rule :: "Policy \<Rightarrow> Rule \<Rightarrow> (rule_error, unit) result" where
  "validate_rule p r = rbind (validate_match (rule_Match r)) (\<lambda>_. validate_certificate p r)"

text \<open>The loop itself: the index for the error message, the set \<open>names\<close> seen so far.\<close>

fun validate_rules :: "Policy \<Rightarrow> nat \<Rightarrow> string list \<Rightarrow> Rule list \<Rightarrow> (policy_error, unit) result" where
  "validate_rules p i names [] = Inr ()"
| "validate_rules p i names (r # rs) =
     (if rule_Name r = [] then Inl (NameRequired (i + 1))
      else if \<not> MatchString ruleNameRe (rule_Name r)
      then Inl (RuleInvalid (rule_Name r) NameInvalidCharacters)
      else if rule_Name r \<in> set names then Inl (DuplicateRuleName (rule_Name r))
      else rbind (wrap_err (RuleInvalid (rule_Name r)) (validate_rule p r)) (\<lambda>_.
        validate_rules p (i + 1) (rule_Name r # names) rs))"

definition validate_default_ttl :: "Policy \<Rightarrow> (policy_error, unit) result" where
  "validate_default_ttl p =
     (case def_ValidForSeconds (pol_Defaults p) of
        None \<Rightarrow> Inr ()
      | Some v \<Rightarrow>
          if sint v \<le> 0 then Inl DefaultTTLNotPositive
          else guard_err (sint v > sint (MaxValidForSeconds p))
                 (DefaultTTLExceedsMax v (MaxValidForSeconds p)))"

definition validate_default_template :: "Policy \<Rightarrow> (policy_error, unit) result" where
  "validate_default_template p =
     (let tmpl = def_KeyIDTemplate (pol_Defaults p) in
      if tmpl \<noteq> [] then rbind (wrap_err DefaultTemplate (templateVars tmpl)) (\<lambda>_. Inr ())
      else Inr ())"

definition Validate :: "Policy \<Rightarrow> (policy_error, unit) result" where
  "Validate p =
     (if pol_Version p \<noteq> 1 then Inl (UnsupportedVersion (pol_Version p))
      else if sint (MaxValidForSeconds p) \<le> 0 then Inl MaxNotPositive
      else rbind (for_each check_key_type (AllowedPublicKeyTypes p)) (\<lambda>_.
        rbind (validate_default_ttl p) (\<lambda>_.
          rbind (validate_default_template p) (\<lambda>_.
            rbind (wrap_err DefaultSourceAddress
                (validateSourceAddress ''defaults.source_address''
                  (def_SourceAddress (pol_Defaults p)))) (\<lambda>_.
              if length (pol_Rules p) = 0 then Inl NoRules
              else validate_rules p 0 [] (pol_Rules p))))))"

section \<open>The declarative reading\<close>

definition cidr_list_ok :: "string list \<Rightarrow> bool" where
  "cidr_list_ok cs \<longleftrightarrow> (\<forall>c \<in> set cs. ParseCIDR c \<noteq> None)"

definition force_command_ok :: "string \<Rightarrow> bool" where
  "force_command_ok cmd \<longleftrightarrow> \<not> sublist ''${'' cmd \<and> (\<forall>c \<in> set cmd. \<not> is_control c)"

definition match_ok :: "JWTMatch \<Rightarrow> bool" where
  "match_ok m \<longleftrightarrow> jwt_Issuer m \<noteq> [] \<and> jwt_Audience m \<noteq> []
     \<and> CHR ''/'' \<notin> set (jwt_Owner m) \<and> CHR ''/'' \<notin> set (jwt_RepoName m)
     \<and> (\<forall>(claim, v) \<in> set (jwt_ClaimsExact m). claim \<noteq> [] \<and> v \<noteq> [])"

definition certificate_ok :: "Policy \<Rightarrow> Rule \<Rightarrow> bool" where
  "certificate_ok p r \<longleftrightarrow>
     cert_Principals (rule_Certificate r) \<noteq> []
     \<and> (\<forall>pr \<in> set (cert_Principals (rule_Certificate r)). MatchString principalRe pr)
     \<and> 0 < sint (ValidForSecondsFor p r)
     \<and> sint (ValidForSecondsFor p r) \<le> sint (MaxValidForSeconds p)
     \<and> KeyIDTemplateFor p r \<noteq> [] \<and> (\<exists>vs. template_grammar (KeyIDTemplateFor p r) vs)
     \<and> force_command_ok (cert_ForceCommand (rule_Certificate r))
     \<and> cidr_list_ok (SourceAddressFor p r)"

definition rule_ok :: "Policy \<Rightarrow> Rule \<Rightarrow> bool" where
  "rule_ok p r \<longleftrightarrow> MatchString ruleNameRe (rule_Name r)
     \<and> (\<exists>m. match_JWT (rule_Match r) = Some m \<and> match_ok m) \<and> certificate_ok p r"

definition defaults_ok :: "Policy \<Rightarrow> bool" where
  "defaults_ok p \<longleftrightarrow>
     (\<forall>v. def_ValidForSeconds (pol_Defaults p) = Some v \<longrightarrow>
        0 < sint v \<and> sint v \<le> sint (MaxValidForSeconds p))
     \<and> (\<exists>vs. template_grammar (def_KeyIDTemplate (pol_Defaults p)) vs)
     \<and> cidr_list_ok (def_SourceAddress (pol_Defaults p))"

definition policy_ok :: "Policy \<Rightarrow> bool" where
  "policy_ok p \<longleftrightarrow> pol_Version p = 1 \<and> 0 < sint (MaxValidForSeconds p)
     \<and> (\<forall>kt \<in> set (AllowedPublicKeyTypes p). kt = ''ssh-ed25519'')
     \<and> defaults_ok p \<and> pol_Rules p \<noteq> [] \<and> distinct (map rule_Name (pol_Rules p))
     \<and> (\<forall>r \<in> set (pol_Rules p). rule_ok p r)"

text \<open>The emergency switch is no matter of validity.\<close>

lemma policy_ok_disabled: "policy_ok (p\<lparr>pol_Disabled := d\<rparr>) = policy_ok p"
  by (simp add: policy_ok_def defaults_ok_def rule_ok_def certificate_ok_def effective_defs cong: option.case_cong)

lemma ParseCIDR_nonempty: "ParseCIDR [] = None"
  by (simp add: ParseCIDR_def)

lemma validateSourceAddress_iff [result_iff]:
  "validateSourceAddress field cs = Inr u \<longleftrightarrow> cidr_list_ok cs"
  by (auto simp: validateSourceAddress_def result_iff cidr_list_ok_def ParseCIDR_nonempty
      split: if_splits)

lemma validateForceCommand_iff [result_iff]:
  "validateForceCommand cmd = Inr u \<longleftrightarrow> force_command_ok cmd"
  using rune_control_iff [of cmd]
  by (auto simp: validateForceCommand_def result_iff force_command_ok_def Contains_def)

lemma check_claim_iff [result_iff]:
  "check_claim kv = Inr u \<longleftrightarrow> fst kv \<noteq> [] \<and> snd kv \<noteq> []"
  by (auto simp: check_claim_def result_iff split: prod.splits)

lemma MatchString_nonempty: "MatchString (Pattern cls 1 hi) s \<Longrightarrow> s \<noteq> []"
  by (cases hi) auto

lemma check_principal_iff [result_iff]:
  "check_principal pr = Inr u \<longleftrightarrow> MatchString principalRe pr"
  using MatchString_nonempty [of principal_char "Some 128" pr]
  by (auto simp: check_principal_def result_iff principalRe_def)

lemma validate_match_iff [result_iff]:
  "validate_match mt = Inr u \<longleftrightarrow> (\<exists>m. match_JWT mt = Some m \<and> match_ok m)"
  by (auto simp: validate_match_def result_iff match_ok_def split: option.splits)

lemma validate_certificate_iff [result_iff]:
  "validate_certificate p r = Inr u \<longleftrightarrow> certificate_ok p r"
  by (auto simp: validate_certificate_def certificate_ok_def result_iff Let_def
      templateVars_grammar_iff [symmetric])

lemma validate_rule_iff [result_iff]:
  "validate_rule p r = Inr u \<longleftrightarrow>
     (\<exists>m. match_JWT (rule_Match r) = Some m \<and> match_ok m) \<and> certificate_ok p r"
  by (simp add: validate_rule_def result_iff)

lemma validate_rules_iff:
  "validate_rules p i names rs = Inr u \<longleftrightarrow>
     distinct (map rule_Name rs) \<and> set (map rule_Name rs) \<inter> set names = {}
     \<and> (\<forall>r \<in> set rs. rule_ok p r)"
proof (induction p i names rs rule: validate_rules.induct)
  case (1 p i names)
  then show ?case by simp
next
  case (2 p i names r rs)
  have ne: "MatchString ruleNameRe (rule_Name r) \<Longrightarrow> rule_Name r \<noteq> []"
    unfolding ruleNameRe_def by (rule MatchString_nonempty)
  show ?case
  proof (cases "MatchString ruleNameRe (rule_Name r) \<and> rule_Name r \<notin> set names")
    case True
    then show ?thesis using 2 ne by (auto simp: result_iff rule_ok_def)
  next
    case False
    then show ?thesis by (auto simp: rule_ok_def)
  qed
qed

lemma validate_default_ttl_iff [result_iff]:
  "validate_default_ttl p = Inr u \<longleftrightarrow>
     (\<forall>v. def_ValidForSeconds (pol_Defaults p) = Some v \<longrightarrow>
        0 < sint v \<and> sint v \<le> sint (MaxValidForSeconds p))"
  by (auto simp: validate_default_ttl_def result_iff split: option.splits)

lemma validate_default_template_iff [result_iff]:
  "validate_default_template p = Inr u \<longleftrightarrow>
     (\<exists>vs. template_grammar (def_KeyIDTemplate (pol_Defaults p)) vs)"
proof (cases "def_KeyIDTemplate (pol_Defaults p) = []")
  case True
  then show ?thesis by (auto simp: validate_default_template_def intro: tg_empty)
next
  case False
  then show ?thesis
    by (auto simp: validate_default_template_def rbind_Inr_iff wrap_err_iff
        templateVars_grammar_iff)
qed

lemma Validate_ok_iff [result_iff]: "Validate p = Inr u \<longleftrightarrow> policy_ok p"
  unfolding policy_ok_def defaults_ok_def
  by (auto simp: Validate_def result_iff check_key_type_def supportedKeyTypes_def
      validate_rules_iff)

section \<open>Parse and Load\<close>

text \<open>
  The YAML library (\<open>gopkg.in/yaml.v3\<close>) is a parameter: what the strict decoder returns
  for the first document, and whether decoding a second one reports \<open>io.EOF\<close>.  The file
  system is a parameter too.
\<close>

record yaml_lib =
  yaml_decode :: "string \<Rightarrow> (string, Policy) result"
  yaml_second_eof :: "string \<Rightarrow> bool"

type_synonym read_file = "string \<Rightarrow> (string, string) result"

datatype load_error =
    ReadPolicy string
  | ParsePolicy string
  | MultipleDocuments
  | InvalidPolicy policy_error

definition Parse :: "yaml_lib \<Rightarrow> string \<Rightarrow> (load_error, Policy) result" where
  "Parse yaml text_data =
     rbind (wrap_err ParsePolicy (yaml_decode yaml text_data)) (\<lambda>p.
       if \<not> yaml_second_eof yaml text_data then Inl MultipleDocuments
       else rbind (wrap_err InvalidPolicy (Validate p)) (\<lambda>_. Inr p))"

definition Load :: "read_file \<Rightarrow> yaml_lib \<Rightarrow> string \<Rightarrow> (load_error, Policy) result" where
  "Load read yaml path =
     rbind (wrap_err ReadPolicy (read path)) (\<lambda>text_data. Parse yaml text_data)"

lemma Parse_iff [result_iff]:
  "Parse yaml d = Inr p \<longleftrightarrow> yaml_decode yaml d = Inr p \<and> yaml_second_eof yaml d \<and> policy_ok p"
  by (auto simp: Parse_def result_iff)

lemma Load_iff [result_iff]:
  "Load read yaml path = Inr p \<longleftrightarrow>
     (\<exists>d. read path = Inr d \<and> yaml_decode yaml d = Inr p \<and> yaml_second_eof yaml d \<and> policy_ok p)"
  by (auto simp: Load_def result_iff)

lemma Load_policy_ok: "Load read yaml path = Inr p \<Longrightarrow> policy_ok p"
  by (auto simp: result_iff)

section \<open>What a valid policy guarantees\<close>

lemma policy_ok_rule: "policy_ok p \<Longrightarrow> r \<in> set (pol_Rules p) \<Longrightarrow> rule_ok p r"
  by (simp add: policy_ok_def)

lemma policy_ok_ttl:
  assumes "policy_ok p" and "r \<in> set (pol_Rules p)"
  shows "0 < sint (ValidForSecondsFor p r)
    \<and> sint (ValidForSecondsFor p r) \<le> sint (MaxValidForSeconds p)"
  using policy_ok_rule [OF assms] by (simp add: rule_ok_def certificate_ok_def)

lemma policy_ok_template:
  assumes "policy_ok p" and "r \<in> set (pol_Rules p)"
  shows "KeyIDTemplateFor p r \<noteq> [] \<and> (\<exists>vs. templateVars (KeyIDTemplateFor p r) = Inr vs)"
  using policy_ok_rule [OF assms]
  by (auto simp: rule_ok_def certificate_ok_def templateVars_grammar_iff)

lemma cidr_list_Split_Join:
  assumes "cidr_list_ok cs" and "cs \<noteq> []"
  shows "Split (CHR '','') (Join cs '','') = cs"
proof (rule Split_Join [OF assms(2)])
  show "\<forall>x \<in> set cs. CHR '','' \<notin> set x"
    using assms(1) cidr.no_meta ParseCIDR_chars unfolding cidr_list_ok_def by blast
qed

end
