(* ===== verification/GoTime.thy ===== *)
theory GoTime
  imports PolicyModel "HOL-Library.Signed_Division"
begin

text \<open>
  Go's \<open>time.Time\<close> and \<open>time.Duration\<close> as the standard library computes with them: signed
  64-bit seconds since year 1, nanoseconds, and an optional monotonic reading; durations are
  signed 64-bit nanoseconds, whose multiplication wraps.  The lemmas say when the machine
  arithmetic agrees with the integers.
\<close>

section \<open>Signed 64-bit arithmetic\<close>

lemma sint64_range: "- (2 ^ 63) \<le> sint (a :: 64 word)" "sint (a :: 64 word) < 2 ^ 63"
  using sint_greater_eq [of a] sint_less [of a] by simp_all

lemma sint64_inject: "sint (a :: 64 word) = sint b \<longleftrightarrow> a = b"
  by (simp add: word_eq_iff_signed [symmetric])

lemma sint64_of_int:
  "- (2 ^ 63) \<le> x \<Longrightarrow> x < 2 ^ 63 \<Longrightarrow> sint (word_of_int x :: 64 word) = x"
  by (simp add: sint_sbintrunc' signed_take_bit_int_eq_self)

lemma sint64_add:
  fixes a b :: "64 word"
  assumes "- (2 ^ 63) \<le> sint a + sint b" and "sint a + sint b < 2 ^ 63"
  shows "sint (a + b) = sint a + sint b"
  using assms by (simp add: sint_word_ariths signed_take_bit_int_eq_self)

lemma sint64_sub:
  fixes a b :: "64 word"
  assumes "- (2 ^ 63) \<le> sint a - sint b" and "sint a - sint b < 2 ^ 63"
  shows "sint (a - b) = sint a - sint b"
  using assms by (simp add: sint_word_ariths signed_take_bit_int_eq_self)

lemma sint64_mult:
  fixes a b :: "64 word"
  assumes "- (2 ^ 63) \<le> sint a * sint b" and "sint a * sint b < 2 ^ 63"
  shows "sint (a * b) = sint a * sint b"
  using assms by (simp add: sint_word_ariths signed_take_bit_int_eq_self)

section \<open>Durations\<close>

type_synonym duration = "64 word"

definition ns_per_s :: int where
  "ns_per_s = 1000000000"

text \<open>\<open>time.Duration(n) * time.Second\<close>\<close>

definition seconds :: "go_int \<Rightarrow> duration" where
  "seconds n = n * 1000000000"

definition max_seconds :: int where
  "max_seconds = 9223372036"

lemma sint_seconds:
  assumes "- max_seconds \<le> sint n" and "sint n \<le> max_seconds"
  shows "sint (seconds n) = sint n * ns_per_s"
proof -
  have "sint (n * 1000000000) = sint n * sint (1000000000 :: 64 word)"
    using assms by (intro sint64_mult) (simp_all add: max_seconds_def)
  then show ?thesis by (simp add: seconds_def ns_per_s_def)
qed

section \<open>Times\<close>

record gotime =
  t_sec :: "64 word"
  t_nsec :: int
  t_mono :: "64 word option"

definition unixToInternal :: "64 word" where
  "unixToInternal = 62135596800"

definition wallToInternal :: "64 word" where
  "wallToInternal = 59453308800"

text \<open>\<open>time.Unix(sec, 0)\<close> and the method \<open>Unix\<close>\<close>

definition time_Unix :: "64 word \<Rightarrow> gotime" where
  "time_Unix s = \<lparr>t_sec = s + unixToInternal, t_nsec = 0, t_mono = None\<rparr>"

definition Unix :: "gotime \<Rightarrow> 64 word" where
  "Unix t = t_sec t - unixToInternal"

text \<open>\<open>addSec\<close>: the seconds saturate.\<close>

definition add_sec :: "64 word \<Rightarrow> 64 word \<Rightarrow> 64 word" where
  "add_sec s d =
     (let sum = s + d in
      if (sint sum > sint s) = (sint d > 0) then sum
      else if sint d > 0 then 0x7FFFFFFFFFFFFFFF else - 0x7FFFFFFFFFFFFFFF)"

text \<open>\<open>Add\<close>: seconds and nanoseconds by truncating division, then a carry.  The monotonic
  reading survives while the wall seconds fit 33 bits and it does not overflow itself.\<close>

definition carry_ns :: "int \<Rightarrow> int \<Rightarrow> int \<times> int" where
  "carry_ns dsec nsec =
     (if nsec \<ge> ns_per_s then (dsec + 1, nsec - ns_per_s)
      else if nsec < 0 then (dsec - 1, nsec + ns_per_s) else (dsec, nsec))"

definition add_mono :: "gotime \<Rightarrow> 64 word \<Rightarrow> duration \<Rightarrow> 64 word option" where
  "add_mono t dsec d =
     (case t_mono t of
        None \<Rightarrow> None
      | Some m \<Rightarrow>
          let wall = t_sec t - wallToInternal + dsec; te = m + d in
          if \<not> (0 \<le> sint wall \<and> sint wall \<le> 2 ^ 33 - 1) then None
          else if sint d < 0 \<and> sint te > sint m \<or> sint d > 0 \<and> sint te < sint m then None
          else Some te)"

definition Add :: "gotime \<Rightarrow> duration \<Rightarrow> gotime" where
  "Add t d =
     (let (dsec, nsec) = carry_ns (sint d sdiv ns_per_s) (t_nsec t + sint d smod ns_per_s);
          ds = word_of_int dsec in
      \<lparr>t_sec = add_sec (t_sec t) ds, t_nsec = nsec, t_mono = add_mono t ds d\<rparr>)"

definition After :: "gotime \<Rightarrow> gotime \<Rightarrow> bool" where
  "After t u =
     (case (t_mono t, t_mono u) of
        (Some a, Some b) \<Rightarrow> sint a > sint b
      | _ \<Rightarrow> sint (t_sec t) > sint (t_sec u)
             \<or> t_sec t = t_sec u \<and> t_nsec t > t_nsec u)"

definition Before :: "gotime \<Rightarrow> gotime \<Rightarrow> bool" where
  "Before t u =
     (case (t_mono t, t_mono u) of
        (Some a, Some b) \<Rightarrow> sint a < sint b
      | _ \<Rightarrow> sint (t_sec t) < sint (t_sec u)
             \<or> t_sec t = t_sec u \<and> t_nsec t < t_nsec u)"

definition EqualTime :: "gotime \<Rightarrow> gotime \<Rightarrow> bool" where
  "EqualTime t u =
     (case (t_mono t, t_mono u) of
        (Some a, Some b) \<Rightarrow> a = b
      | _ \<Rightarrow> t_sec t = t_sec u \<and> t_nsec t = t_nsec u)"

definition minDuration :: duration where
  "minDuration = 0x8000000000000000"

definition maxDuration :: duration where
  "maxDuration = 0x7FFFFFFFFFFFFFFF"

definition Sub :: "gotime \<Rightarrow> gotime \<Rightarrow> duration" where
  "Sub t u =
     (case (t_mono t, t_mono u) of
        (Some a, Some b) \<Rightarrow>
          (let d = a - b in
           if sint d < 0 \<and> sint a > sint b then maxDuration
           else if sint d > 0 \<and> sint a < sint b then minDuration else d)
      | _ \<Rightarrow>
          (let d = (t_sec t - t_sec u) * 1000000000 + word_of_int (t_nsec t - t_nsec u) in
           if EqualTime (Add u d) t then d
           else if Before t u then minDuration else maxDuration))"

section \<open>Agreement with the integers\<close>

definition wf_time :: "gotime \<Rightarrow> bool" where
  "wf_time t \<longleftrightarrow> 0 \<le> t_nsec t \<and> t_nsec t < ns_per_s"

text \<open>Nanoseconds since year 1.\<close>

definition ns :: "gotime \<Rightarrow> int" where
  "ns t = sint (t_sec t) * ns_per_s + t_nsec t"

lemma smod_bounds: "\<bar>(d :: int) smod ns_per_s\<bar> < ns_per_s"
  by (simp add: signed_modulo_int_def ns_per_s_def abs_mult sgn_if)

lemma sdiv_bounds:
  assumes "- (2 ^ 63) \<le> d" and "d < 2 ^ 63"
  shows "\<bar>(d :: int) sdiv ns_per_s\<bar> \<le> 9223372036"
proof -
  have "\<bar>d\<bar> div ns_per_s \<le> 2 ^ 63 div ns_per_s"
    using assms by (intro zdiv_mono1) (auto simp: ns_per_s_def abs_le_iff)
  then have "\<bar>d\<bar> div ns_per_s \<le> 9223372036" by (simp add: ns_per_s_def)
  moreover have "0 \<le> \<bar>d\<bar> div ns_per_s" by (simp add: ns_per_s_def pos_imp_zdiv_nonneg_iff)
  moreover have "\<bar>d sdiv ns_per_s\<bar> \<le> \<bar>\<bar>d\<bar> div ns_per_s\<bar>"
    by (simp add: signed_divide_int_def ns_per_s_def abs_mult sgn_if)
  ultimately show ?thesis by linarith
qed

lemma carry_ns_sound:
  assumes "0 \<le> n" "n < ns_per_s" "\<bar>m\<bar> < ns_per_s" and "carry_ns q (n + m) = (dsec, nsec)"
  shows "0 \<le> nsec \<and> nsec < ns_per_s \<and> dsec * ns_per_s + nsec = q * ns_per_s + m + n \<and> \<bar>dsec - q\<bar> \<le> 1"
  using assms by (auto simp: carry_ns_def ns_per_s_def split: if_splits)

lemma add_sec_exact:
  assumes "- (2 ^ 63) \<le> sint s + sint d" and "sint s + sint d < 2 ^ 63"
  shows "sint (add_sec s d) = sint s + sint d"
  using sint64_add [OF assms] by (auto simp: add_sec_def Let_def)

text \<open>A time some 290 years away from either end of the representable range, so that no
  addition of a duration saturates.\<close>

definition central :: "gotime \<Rightarrow> bool" where
  "central t \<longleftrightarrow> wf_time t \<and> \<bar>sint (t_sec t)\<bar> \<le> 2 ^ 62"

lemma Add_exact:
  assumes "central t"
  shows "ns (Add t d) = ns t + sint d" and "wf_time (Add t d)"
proof -
  obtain dsec nsec where c: "carry_ns (sint d sdiv ns_per_s) (t_nsec t + sint d smod ns_per_s) = (dsec, nsec)"
    by (cases "carry_ns (sint d sdiv ns_per_s) (t_nsec t + sint d smod ns_per_s)")
  have s: "0 \<le> nsec \<and> nsec < ns_per_s
      \<and> dsec * ns_per_s + nsec = sint d sdiv ns_per_s * ns_per_s + sint d smod ns_per_s + t_nsec t
      \<and> \<bar>dsec - sint d sdiv ns_per_s\<bar> \<le> 1"
    using carry_ns_sound [OF _ _ smod_bounds c] assms by (simp add: central_def wf_time_def)
  have "\<bar>sint d sdiv ns_per_s\<bar> \<le> 9223372036"
    using sdiv_bounds sint64_range by blast
  with s have b: "\<bar>dsec\<bar> \<le> 9223372037" by linarith
  then have ds: "sint (word_of_int dsec :: 64 word) = dsec"
    by (intro sint64_of_int) (simp_all add: abs_le_iff)
  have "sint (add_sec (t_sec t) (word_of_int dsec)) = sint (t_sec t) + dsec"
    using add_sec_exact [of "t_sec t" "word_of_int dsec"] ds b assms
    by (simp add: central_def abs_le_iff)
  with s c show "ns (Add t d) = ns t + sint d" "wf_time (Add t d)"
    using sdiv_mult_smod_eq [of "sint d" ns_per_s]
    by (simp_all add: Add_def Let_def ns_def wf_time_def algebra_simps)
qed

lemma After_wall:
  assumes "t_mono t = None \<or> t_mono u = None" and "wf_time t" and "wf_time u"
  shows "After t u \<longleftrightarrow> ns t > ns u"
proof -
  have "After t u \<longleftrightarrow> sint (t_sec t) > sint (t_sec u)
      \<or> sint (t_sec t) = sint (t_sec u) \<and> t_nsec t > t_nsec u"
    using assms(1) by (auto simp: After_def sint64_inject split: option.splits)
  also have "\<dots> \<longleftrightarrow> ns t > ns u"
    using assms(2,3) unfolding ns_def wf_time_def ns_per_s_def by linarith
  finally show ?thesis .
qed

lemma Before_wall:
  assumes "t_mono t = None \<or> t_mono u = None" and "wf_time t" and "wf_time u"
  shows "Before t u \<longleftrightarrow> ns t < ns u"
proof -
  have "Before t u \<longleftrightarrow> sint (t_sec t) < sint (t_sec u)
      \<or> sint (t_sec t) = sint (t_sec u) \<and> t_nsec t < t_nsec u"
    using assms(1) by (auto simp: Before_def sint64_inject split: option.splits)
  also have "\<dots> \<longleftrightarrow> ns t < ns u"
    using assms(2,3) unfolding ns_def wf_time_def ns_per_s_def by linarith
  finally show ?thesis .
qed

text \<open>Two readings of one process's clock: the difference of the monotonic readings.\<close>

lemma Sub_mono:
  assumes "t_mono t = Some a" and "t_mono u = Some b" and "0 \<le> sint a" and "0 \<le> sint b"
  shows "sint (Sub t u) = sint a - sint b"
proof -
  have "sint (a - b) = sint a - sint b"
    using assms(3,4) sint64_range [of a] sint64_range [of b] by (intro sint64_sub) linarith+
  with assms show ?thesis by (simp add: Sub_def Let_def)
qed

end
