(* ===== verification/Issuer.thy ===== *)
theory Issuer
  imports PolicyValidate GoTime
begin

unbundle bit_operations_syntax

text \<open>
  \<open>internal/issuer\<close>: checking the client's public key (\<open>pubkey.go\<close>), loading the CA key
  (\<open>cakey.go\<close>), and building and signing a certificate (\<open>issuer.go\<close>).  The library
  \<open>golang.org/x/crypto/ssh\<close> is the record \<open>ssh_lib\<close> of the functions the code calls;
  \<open>'pk\<close> stands for \<open>ssh.PublicKey\<close> and \<open>'sk\<close> for \<open>ssh.Signer\<close>.  The interface
  \<open>issuer.Signer\<close> is the locale \<open>Signer\<close>: signing a certificate fills in the
  signature and leaves everything else as it was.
\<close>

section \<open>The SSH library\<close>

text \<open>The struct \<open>ssh.Certificate\<close>, its \<open>Permissions\<close> inlined.\<close>

record 'pk ssh_cert =
  crt_Nonce :: string
  crt_Key :: 'pk
  crt_Serial :: "64 word"
  crt_CertType :: "32 word"
  crt_KeyId :: string
  crt_ValidPrincipals :: "string list"
  crt_ValidAfter :: "64 word"
  crt_ValidBefore :: "64 word"
  crt_CriticalOptions :: "string \<Rightarrow> string option"
  crt_Extensions :: "string \<Rightarrow> string option"
  crt_SignatureKey :: "'pk option"
  crt_Signature :: "string option"

text \<open>
  \<open>lib_SignCert\<close> gives the nonce and the signature for a certificate (the number is the
  position in the stream of random bytes); \<open>Certificate.SignCert\<close> is documented to set
  the nonce, the signature key and the signature of its receiver.
\<close>

record ('pk, 'sk) ssh_lib =
  lib_ParseAuthorizedKey :: "string \<Rightarrow> (string, 'pk \<times> string) result"
  lib_Type :: "'pk \<Rightarrow> string"
  lib_FingerprintSHA256 :: "'pk \<Rightarrow> string"
  lib_MarshalKey :: "'pk \<Rightarrow> string"
  lib_MarshalCert :: "'pk ssh_cert \<Rightarrow> string"
  lib_ParsePrivateKey :: "string \<Rightarrow> (string, 'sk) result"
  lib_PublicKey :: "'sk \<Rightarrow> 'pk"
  lib_SignCert :: "'sk \<Rightarrow> nat \<Rightarrow> 'pk ssh_cert \<Rightarrow> (string, string \<times> string) result"

definition UserCert :: "32 word" where
  "UserCert = 1"

section \<open>pubkey.go\<close>

definition MaxPublicKeyBytes :: nat where
  "MaxPublicKeyBytes = 4096"

datatype pubkey_error =
    PKEmpty | PKTooLong | PKNotSingleLine | PKDoesNotParse string | PKTrailingData
  | PKCertificate | PKTypeNotAllowed string

text \<open>\<open>unicode.IsSpace\<close>, and \<open>len(strings.TrimSpace(s)) == 0\<close>\<close>

definition rune_is_space :: "nat \<Rightarrow> bool" where
  "rune_is_space r \<longleftrightarrow> (9 \<le> r \<and> r \<le> 13) \<or> r = 0x20 \<or> r = 0x85 \<or> r = 0xA0 \<or> r = 0x1680
     \<or> (0x2000 \<le> r \<and> r \<le> 0x200A) \<or> r = 0x2028 \<or> r = 0x2029 \<or> r = 0x202F \<or> r = 0x205F \<or> r = 0x3000"

definition trims_to_empty :: "string \<Rightarrow> bool" where
  "trims_to_empty s = list_all rune_is_space (runes s)"

definition ValidatePublicKey ::
  "('pk, 'sk) ssh_lib \<Rightarrow> string \<Rightarrow> string list \<Rightarrow> (pubkey_error, 'pk) result" where
  "ValidatePublicKey lib raw allowedTypes =
     (let trimmed = TrimRight raw [CHR 0x0D, CHR 0x0A] in
      if trimmed = [] then Inl PKEmpty
      else if length trimmed > MaxPublicKeyBytes then Inl PKTooLong
      else if ContainsAny trimmed [CHR 0x0D, CHR 0x0A] then Inl PKNotSingleLine
      else rbind (wrap_err PKDoesNotParse (lib_ParseAuthorizedKey lib trimmed)) (\<lambda>(pub, rest).
        if \<not> trims_to_empty rest then Inl PKTrailingData
        else let keyType = lib_Type lib pub in
        if Contains keyType ''-cert-'' then Inl PKCertificate
        else if list_ex (\<lambda>t. keyType = t) allowedTypes then Inr pub
        else Inl (PKTypeNotAllowed keyType)))"

lemma ValidatePublicKey_iff [result_iff]:
  "ValidatePublicKey lib raw allowed = Inr pub \<longleftrightarrow>
     (let key = TrimRight raw [CHR 0x0D, CHR 0x0A] in
      key \<noteq> [] \<and> length key \<le> MaxPublicKeyBytes
      \<and> CHR 0x0D \<notin> set key \<and> CHR 0x0A \<notin> set key
      \<and> (\<exists>rest. lib_ParseAuthorizedKey lib key = Inr (pub, rest) \<and> trims_to_empty rest)
      \<and> \<not> sublist ''-cert-'' (lib_Type lib pub) \<and> lib_Type lib pub \<in> set allowed)"
  by (auto simp: ValidatePublicKey_def Let_def result_iff ContainsAny_def list_ex_iff Contains_def
      split: if_splits)

section \<open>issuer.go: the in-memory signer\<close>

text \<open>\<open>memorySigner\<close> holds the parsed key.\<close>

record 'sk memorySigner =
  ms_signer :: 'sk

definition NewMemorySigner :: "'sk \<Rightarrow> 'sk memorySigner" where
  "NewMemorySigner s = \<lparr>ms_signer = s\<rparr>"

section \<open>cakey.go\<close>

definition EnvKeyFile :: string where
  "EnvKeyFile = ''OIDC_SSH_CA_KEY_FILE''"

definition EnvKey :: string where
  "EnvKey = ''OIDC_SSH_CA_KEY''"

text \<open>The operating system: the environment, and what opening a path gives.\<close>

record os_file =
  file_stat_error :: "string option"
  file_regular :: bool
  file_perm :: "32 word"
  file_read :: "(string, string) result"

record os =
  os_getenv :: "string \<Rightarrow> string"
  os_open :: "string \<Rightarrow> (string, os_file) result"

datatype cakey_error =
    KeyFileOpen string | KeyFileStat string | KeyNotRegular string
  | KeyPermissions string "32 word" | KeyFileRead string | KeyFileEmpty
  | KeyNotConfigured | KeyMultipleSources "string list"
  | KeyDoesNotParse string string | KeyNotEd25519 string string

definition readKeyFile :: "os \<Rightarrow> string \<Rightarrow> bool \<Rightarrow> (cakey_error, string) result" where
  "readKeyFile sys path skipPermCheck =
     rbind (wrap_err KeyFileOpen (os_open sys path)) (\<lambda>f.
       case file_stat_error f of
         Some e \<Rightarrow> Inl (KeyFileStat e)
       | None \<Rightarrow>
           if \<not> file_regular f then Inl (KeyNotRegular path)
           else if \<not> skipPermCheck \<and> file_perm f AND 63 \<noteq> 0
           then Inl (KeyPermissions path (file_perm f))
           else rbind (wrap_err KeyFileRead (file_read f)) (\<lambda>data.
             if length data = 0 then Inl KeyFileEmpty else Inr data))"

text \<open>A source: its name in messages, and the loader.\<close>

datatype key_source = FromFile (source_name: string) string | FromEnv (source_name: string) string

definition key_sources :: "os \<Rightarrow> string \<Rightarrow> key_source list" where
  "key_sources sys flagPath =
     (if flagPath \<noteq> [] then [FromFile ''--ca-key-file'' flagPath] else [])
     @ (let p = os_getenv sys EnvKeyFile in if p \<noteq> [] then [FromFile EnvKeyFile p] else [])
     @ (let v = os_getenv sys EnvKey in if v \<noteq> [] then [FromEnv EnvKey v] else [])"

fun load_source :: "os \<Rightarrow> bool \<Rightarrow> key_source \<Rightarrow> (cakey_error, string) result" where
  "load_source sys skip (FromFile n p) = readKeyFile sys p skip"
| "load_source sys skip (FromEnv n v) = Inr v"

text \<open>The loop that overwrites the buffer.\<close>

definition scrub :: "string \<Rightarrow> string" where
  "scrub pem = map (\<lambda>_. CHR 0x00) pem"

text \<open>The result, and what is left in the buffer that held the key material.\<close>

definition LoadCAKey ::
  "('pk, 'sk) ssh_lib \<Rightarrow> os \<Rightarrow> string \<Rightarrow> bool \<Rightarrow> (cakey_error, 'sk memorySigner) result \<times> string" where
  "LoadCAKey lib sys flagPath skipPermCheck =
     (case key_sources sys flagPath of
        [] \<Rightarrow> (Inl KeyNotConfigured, [])
      | [src] \<Rightarrow>
          (case load_source sys skipPermCheck src of
             Inl e \<Rightarrow> (Inl e, [])
           | Inr pem \<Rightarrow>
               let parsed = lib_ParsePrivateKey lib pem; buf = scrub pem in
               (case parsed of
                  Inl e \<Rightarrow> (Inl (KeyDoesNotParse (source_name src) e), buf)
                | Inr sk \<Rightarrow>
                    if lib_Type lib (lib_PublicKey lib sk) \<noteq> ''ssh-ed25519''
                    then (Inl (KeyNotEd25519 (source_name src) (lib_Type lib (lib_PublicKey lib sk))), buf)
                    else (Inr (NewMemorySigner sk), buf)))
      | srcs \<Rightarrow> (Inl (KeyMultipleSources (map source_name srcs)), []))"

definition Fingerprint :: "('pk, 'sk) ssh_lib \<Rightarrow> 'pk \<Rightarrow> string" where
  "Fingerprint lib pub = lib_FingerprintSHA256 lib pub"

lemma readKeyFile_iff [result_iff]:
  "readKeyFile sys path skip = Inr d \<longleftrightarrow>
     (\<exists>f. os_open sys path = Inr f \<and> file_stat_error f = None \<and> file_regular f
        \<and> (skip \<or> file_perm f AND 63 = 0) \<and> file_read f = Inr d \<and> d \<noteq> [])"
  by (auto simp: readKeyFile_def result_iff split: option.splits if_splits)

lemma LoadCAKey_iff [result_iff]:
  "fst (LoadCAKey lib sys flagPath skip) = Inr m \<longleftrightarrow>
     (\<exists>src pem sk. key_sources sys flagPath = [src] \<and> load_source sys skip src = Inr pem
        \<and> lib_ParsePrivateKey lib pem = Inr sk
        \<and> lib_Type lib (lib_PublicKey lib sk) = ''ssh-ed25519'' \<and> m = NewMemorySigner sk)"
  by (auto simp: LoadCAKey_def Let_def split: list.splits sum.splits)

section \<open>issuer.go: signers\<close>

definition SignCertificate ::
  "('pk, 'sk) ssh_lib \<Rightarrow> 'sk memorySigner \<Rightarrow> nat \<Rightarrow> 'pk ssh_cert \<Rightarrow> (string, 'pk ssh_cert) result" where
  "SignCertificate lib m i cert =
     rbind (lib_SignCert lib (ms_signer m) i cert) (\<lambda>(nonce, sig).
       Inr (cert\<lparr>crt_Nonce := nonce, crt_SignatureKey := Some (lib_PublicKey lib (ms_signer m)),
          crt_Signature := Some sig\<rparr>))"

definition PublicKey :: "('pk, 'sk) ssh_lib \<Rightarrow> 'sk memorySigner \<Rightarrow> 'pk" where
  "PublicKey lib m = lib_PublicKey lib (ms_signer m)"

text \<open>The certificate without what signing adds.\<close>

definition tbs :: "'pk ssh_cert \<Rightarrow> 'pk ssh_cert" where
  "tbs c = c\<lparr>crt_Nonce := [], crt_SignatureKey := None, crt_Signature := None\<rparr>"

lemma tbs_fields [simp]:
  "crt_Key (tbs c) = crt_Key c" "crt_Serial (tbs c) = crt_Serial c"
  "crt_CertType (tbs c) = crt_CertType c" "crt_KeyId (tbs c) = crt_KeyId c"
  "crt_ValidPrincipals (tbs c) = crt_ValidPrincipals c"
  "crt_ValidAfter (tbs c) = crt_ValidAfter c" "crt_ValidBefore (tbs c) = crt_ValidBefore c"
  "crt_CriticalOptions (tbs c) = crt_CriticalOptions c"
  "crt_Extensions (tbs c) = crt_Extensions c"
  by (simp_all add: tbs_def)

lemma tbs_idem [simp]: "tbs (tbs c) = tbs c"
  by (simp add: tbs_def)

section \<open>issuer.go: Issue\<close>

record 'pk Request =
  req_PublicKey :: 'pk
  req_KeyID :: string
  req_Principals :: "string list"
  req_ValidAfter :: gotime
  req_ValidBefore :: gotime
  req_Extensions :: Extensions
  req_ForceCommand :: string
  req_SourceAddress :: "string list"

definition criticalOptionMap :: "'pk Request \<Rightarrow> (string \<Rightarrow> string option)" where
  "criticalOptionMap req =
     (let out = Map.empty;
          out = (if req_ForceCommand req \<noteq> [] then out(''force-command'' \<mapsto> req_ForceCommand req)
                 else out)
      in if 0 < length (req_SourceAddress req)
         then out(''source-address'' \<mapsto> Join (req_SourceAddress req) '','') else out)"

definition put_if :: "bool \<Rightarrow> string \<Rightarrow> (string \<Rightarrow> string option) \<Rightarrow> (string \<Rightarrow> string option)" where
  "put_if b name out = (if b then out(name \<mapsto> []) else out)"

definition extensionMap :: "Extensions \<Rightarrow> (string \<Rightarrow> string option)" where
  "extensionMap e =
     put_if (ext_PermitUserRC e) ''permit-user-rc''
      (put_if (ext_PermitX11Forwarding e) ''permit-X11-forwarding''
        (put_if (ext_PermitAgentForwarding e) ''permit-agent-forwarding''
          (put_if (ext_PermitPortForwarding e) ''permit-port-forwarding''
            (put_if (ext_PermitPTY e) ''permit-pty'' Map.empty))))"

text \<open>
  \<open>crypto/rand\<close>: the \<open>i\<close>-th read gives eight bytes or fails.  The big-endian integer they
  spell is the serial.
\<close>

type_synonym rand = "nat \<Rightarrow> (nat \<Rightarrow> 8 word) option"

definition eight_bytes :: "(nat \<Rightarrow> 8 word) \<Rightarrow> 8 word list" where
  "eight_bytes b = map b [0..<8]"

definition BigEndian_Uint64 :: "8 word list \<Rightarrow> 64 word" where
  "BigEndian_Uint64 bs = foldl (\<lambda>acc b. push_bit 8 acc OR ucast b) 0 bs"

definition randomSerial :: "rand \<Rightarrow> nat \<Rightarrow> 64 word option" where
  "randomSerial rnd i = map_option (\<lambda>b. BigEndian_Uint64 (eight_bytes b)) (rnd i)"

datatype issue_error = GenerateSerial | SignFailed string

definition unsigned_cert :: "64 word \<Rightarrow> 'pk Request \<Rightarrow> 'pk ssh_cert" where
  "unsigned_cert serial req =
     \<lparr>crt_Nonce = [], crt_Key = req_PublicKey req, crt_Serial = serial, crt_CertType = UserCert,
      crt_KeyId = req_KeyID req, crt_ValidPrincipals = req_Principals req,
      crt_ValidAfter = Unix (req_ValidAfter req), crt_ValidBefore = Unix (req_ValidBefore req),
      crt_CriticalOptions = criticalOptionMap req,
      crt_Extensions = extensionMap (req_Extensions req),
      crt_SignatureKey = None, crt_Signature = None\<rparr>"

text \<open>\<open>Issue\<close> takes the signer's method; it reads randomness for the serial, then the
  signer reads some.\<close>

definition Issue ::
  "(nat \<Rightarrow> 'pk ssh_cert \<Rightarrow> (string, 'pk ssh_cert) result) \<Rightarrow> ('pk ssh_cert \<Rightarrow> string) \<Rightarrow> rand \<Rightarrow> nat
   \<Rightarrow> 'pk Request \<Rightarrow> (issue_error, string \<times> 'pk ssh_cert) result" where
  "Issue sign marshal rnd i req =
     (case randomSerial rnd i of
        None \<Rightarrow> Inl GenerateSerial
      | Some serial \<Rightarrow>
          rbind (wrap_err SignFailed (sign (Suc i) (unsigned_cert serial req))) (\<lambda>cert.
            Inr (marshal cert, cert)))"

section \<open>The contract of a signer\<close>

locale Signer =
  fixes sign :: "nat \<Rightarrow> 'pk ssh_cert \<Rightarrow> (string, 'pk ssh_cert) result"
    and ca_key :: 'pk
  assumes sign_frame: "sign i c = Inr c' \<Longrightarrow> tbs c' = tbs c"
    and sign_key: "sign i c = Inr c' \<Longrightarrow> crt_SignatureKey c' = Some ca_key \<and> crt_Signature c' \<noteq> None"
begin

lemma Issue_cert:
  assumes "Issue sign marshal rnd i req = Inr (out, cert)"
  obtains serial where "randomSerial rnd i = Some serial" and "tbs cert = unsigned_cert serial req"
    and "crt_SignatureKey cert = Some ca_key" and "crt_Signature cert \<noteq> None" and "out = marshal cert"
proof -
  from assms obtain serial where s: "randomSerial rnd i = Some serial"
    and g: "sign (Suc i) (unsigned_cert serial req) = Inr cert" and o: "out = marshal cert"
    by (auto simp: Issue_def result_iff split: option.splits)
  have "tbs cert = unsigned_cert serial req"
    using sign_frame [OF g] by (simp add: tbs_def unsigned_cert_def)
  with that s o sign_key [OF g] show thesis by blast
qed

lemma Issue_fields:
  assumes "Issue sign marshal rnd i req = Inr (out, cert)"
  shows "crt_Key cert = req_PublicKey req" and "crt_KeyId cert = req_KeyID req"
    and "crt_CertType cert = UserCert" and "crt_ValidPrincipals cert = req_Principals req"
    and "crt_ValidAfter cert = Unix (req_ValidAfter req)"
    and "crt_ValidBefore cert = Unix (req_ValidBefore req)"
    and "crt_CriticalOptions cert = criticalOptionMap req"
    and "crt_Extensions cert = extensionMap (req_Extensions req)"
    and "crt_SignatureKey cert = Some ca_key"
proof -
  obtain serial where t: "tbs cert = unsigned_cert serial req"
    and k: "crt_SignatureKey cert = Some ca_key"
    using Issue_cert [OF assms] by blast
  show "crt_Key cert = req_PublicKey req" and "crt_KeyId cert = req_KeyID req"
    and "crt_CertType cert = UserCert" and "crt_ValidPrincipals cert = req_Principals req"
    and "crt_ValidAfter cert = Unix (req_ValidAfter req)"
    and "crt_ValidBefore cert = Unix (req_ValidBefore req)"
    and "crt_CriticalOptions cert = criticalOptionMap req"
    and "crt_Extensions cert = extensionMap (req_Extensions req)"
    using arg_cong [OF t, of crt_Key] arg_cong [OF t, of crt_KeyId]
      arg_cong [OF t, of crt_CertType] arg_cong [OF t, of crt_ValidPrincipals]
      arg_cong [OF t, of crt_ValidAfter] arg_cong [OF t, of crt_ValidBefore]
      arg_cong [OF t, of crt_CriticalOptions] arg_cong [OF t, of crt_Extensions]
    by (simp_all add: unsigned_cert_def)
  show "crt_SignatureKey cert = Some ca_key" by (rule k)
qed

end

interpretation memory: Signer "SignCertificate lib m" "PublicKey lib m" for lib m
  by unfold_locales (auto simp: SignCertificate_def PublicKey_def tbs_def result_iff)

section \<open>Options and extensions\<close>

lemma criticalOptionMap_apply:
  "criticalOptionMap req k =
     (if k = ''source-address'' \<and> req_SourceAddress req \<noteq> []
      then Some (Join (req_SourceAddress req) '','')
      else if k = ''force-command'' \<and> req_ForceCommand req \<noteq> [] then Some (req_ForceCommand req)
      else None)"
  by (auto simp: criticalOptionMap_def Let_def)

lemma extensionMap_apply:
  "extensionMap e k =
     (if k = ''permit-pty'' \<and> ext_PermitPTY e
        \<or> k = ''permit-port-forwarding'' \<and> ext_PermitPortForwarding e
        \<or> k = ''permit-agent-forwarding'' \<and> ext_PermitAgentForwarding e
        \<or> k = ''permit-X11-forwarding'' \<and> ext_PermitX11Forwarding e
        \<or> k = ''permit-user-rc'' \<and> ext_PermitUserRC e
      then Some [] else None)"
  by (auto simp: extensionMap_def put_if_def)

lemma extensionMap_inject: "extensionMap e = extensionMap e' \<Longrightarrow> e = e'"
proof -
  assume eq: "extensionMap e = extensionMap e'"
  have "extensionMap e k = extensionMap e' k" for k by (simp add: eq)
  from this [of "''permit-pty''"] this [of "''permit-port-forwarding''"]
    this [of "''permit-agent-forwarding''"] this [of "''permit-X11-forwarding''"]
    this [of "''permit-user-rc''"]
  show "e = e'" by (simp add: extensionMap_apply split: if_splits)
qed

end
