(* ===== verification/TokenTime.thy ===== *)
theory TokenTime
  imports GoTime GoValue
begin

text \<open>
  \<open>checkTimeClaims\<close> and \<open>numericClaim\<close> of \<open>internal/oidc/verifier.go\<close>.  Converting a
  \<open>float64\<close> outside the range of \<open>int64\<close> is implementation-defined in Go: the
  parameter \<open>oob\<close> stands for what the implementation gives.
\<close>

definition ClockSkewLeeway :: duration where
  "ClockSkewLeeway = 60000000000"

text \<open>The integer part of a float, towards zero.\<close>

definition trunc_float :: "float64 \<Rightarrow> int" where
  "trunc_float v =
     (if 0 \<le> exponent v then mantissa v * 2 ^ nat (exponent v)
      else mantissa v sdiv 2 ^ nat (- exponent v))"

definition float_to_int64 :: "(float64 \<Rightarrow> 64 word) \<Rightarrow> float64 \<Rightarrow> 64 word" where
  "float_to_int64 oob v =
     (if - (2 ^ 63) \<le> trunc_float v \<and> trunc_float v < 2 ^ 63
      then word_of_int (trunc_float v) else oob v)"

definition numericClaim :: "(float64 \<Rightarrow> 64 word) \<Rightarrow> claims \<Rightarrow> string \<Rightarrow> gotime option" where
  "numericClaim oob cs name =
     (case cs name of
        Some (AFloat v) \<Rightarrow> Some (time_Unix (float_to_int64 oob v))
      | _ \<Rightarrow> None)"

datatype time_error = NoExpClaim | TokenExpired | TokenNotYetValid | TokenFromFuture

definition checkTimeClaims ::
  "(float64 \<Rightarrow> 64 word) \<Rightarrow> claims \<Rightarrow> gotime \<Rightarrow> (time_error, unit) result" where
  "checkTimeClaims oob cs now =
     (case numericClaim oob cs ''exp'' of
        None \<Rightarrow> Inl NoExpClaim
      | Some exp_time \<Rightarrow>
          if After now (Add exp_time ClockSkewLeeway) then Inl TokenExpired
          else if (case numericClaim oob cs ''nbf'' of
                     None \<Rightarrow> False
                   | Some nbf \<Rightarrow> Before now (Add nbf (- ClockSkewLeeway)))
          then Inl TokenNotYetValid
          else if (case numericClaim oob cs ''iat'' of
                     None \<Rightarrow> False
                   | Some iat \<Rightarrow> Before now (Add iat (- ClockSkewLeeway)))
          then Inl TokenFromFuture
          else Inr ())"

section \<open>Agreement with integer seconds\<close>

text \<open>Nanoseconds since 1970, and the clock readings and dates for which nothing wraps:
  within 2^61 seconds of 1970.\<close>

definition unix_ns :: "gotime \<Rightarrow> int" where
  "unix_ns t = ns t - 62135596800 * ns_per_s"

definition date_bound :: int where
  "date_bound = 2 ^ 61"

lemma time_Unix_exact:
  assumes "\<bar>sint x\<bar> \<le> date_bound"
  shows "central (time_Unix x)" and "unix_ns (time_Unix x) = sint x * ns_per_s"
    and "t_mono (time_Unix x) = None"
proof -
  have u: "sint unixToInternal = 62135596800" by (simp add: unixToInternal_def)
  have "sint (x + unixToInternal) = sint x + 62135596800"
    using sint64_add [of x unixToInternal] assms by (simp add: u date_bound_def abs_le_iff)
  with assms show "central (time_Unix x)" and "unix_ns (time_Unix x) = sint x * ns_per_s"
    by (simp_all add: central_def wf_time_def time_Unix_def unix_ns_def ns_def date_bound_def
        ns_per_s_def abs_le_iff algebra_simps)
  show "t_mono (time_Unix x) = None" by (simp add: time_Unix_def)
qed

lemma Add_no_mono: "t_mono t = None \<Longrightarrow> t_mono (Add t d) = None"
  by (simp add: Add_def add_mono_def Let_def split: prod.splits)

lemma shifted_date:
  assumes "\<bar>sint x\<bar> \<le> date_bound" and "wf_time now"
  shows "After now (Add (time_Unix x) d) \<longleftrightarrow> unix_ns now > sint x * ns_per_s + sint d"
    and "Before now (Add (time_Unix x) d) \<longleftrightarrow> unix_ns now < sint x * ns_per_s + sint d"
  using After_wall [OF _ assms(2) Add_exact(2) [OF time_Unix_exact(1) [OF assms(1)]], of d]
    Before_wall [OF _ assms(2) Add_exact(2) [OF time_Unix_exact(1) [OF assms(1)]], of d]
    Add_exact(1) [OF time_Unix_exact(1) [OF assms(1)], of d]
    Add_no_mono [OF time_Unix_exact(3) [OF assms(1)], of d] time_Unix_exact(2) [OF assms(1)]
  by (auto simp: unix_ns_def)

text \<open>The value of a numeric claim in seconds.\<close>

definition claim_seconds :: "(float64 \<Rightarrow> 64 word) \<Rightarrow> claims \<Rightarrow> string \<Rightarrow> int option" where
  "claim_seconds oob cs name =
     (case cs name of Some (AFloat v) \<Rightarrow> Some (sint (float_to_int64 oob v)) | _ \<Rightarrow> None)"

lemma numericClaim_seconds:
  "numericClaim oob cs name =
     (case claim_seconds oob cs name of None \<Rightarrow> None | Some x \<Rightarrow> Some (time_Unix (word_of_int x)))"
  by (simp add: numericClaim_def claim_seconds_def split: option.splits go_any.splits)

lemma claim_seconds_range:
  "claim_seconds oob cs name = Some x \<Longrightarrow> sint (word_of_int x :: 64 word) = x"
  by (auto simp: claim_seconds_def split: option.splits go_any.splits)

definition dates_bounded :: "(float64 \<Rightarrow> 64 word) \<Rightarrow> claims \<Rightarrow> bool" where
  "dates_bounded oob cs \<longleftrightarrow>
     (\<forall>name \<in> {''exp'', ''nbf'', ''iat''}. \<forall>x. claim_seconds oob cs name = Some x \<longrightarrow> \<bar>x\<bar> \<le> date_bound)"

lemma claim_after:
  assumes "dates_bounded oob cs" and "name \<in> {''exp'', ''nbf'', ''iat''}"
    and "claim_seconds oob cs name = Some x" and "wf_time now"
  shows "numericClaim oob cs name = Some (time_Unix (word_of_int x))"
    and "After now (Add (time_Unix (word_of_int x)) d) \<longleftrightarrow> unix_ns now > x * ns_per_s + sint d"
    and "Before now (Add (time_Unix (word_of_int x)) d) \<longleftrightarrow> unix_ns now < x * ns_per_s + sint d"
proof -
  have x: "\<bar>x\<bar> \<le> date_bound" using assms(1-3) by (auto simp: dates_bounded_def)
  have s: "sint (word_of_int x :: 64 word) = x" using claim_seconds_range [OF assms(3)] .
  show "numericClaim oob cs name = Some (time_Unix (word_of_int x))"
    using assms(3) by (simp add: numericClaim_seconds)
  show "After now (Add (time_Unix (word_of_int x)) d) \<longleftrightarrow> unix_ns now > x * ns_per_s + sint d"
    and "Before now (Add (time_Unix (word_of_int x)) d) \<longleftrightarrow> unix_ns now < x * ns_per_s + sint d"
    using shifted_date [of "word_of_int x" now d] x s assms(4) by simp_all
qed

text \<open>The declarative reading: a window around the dates, widened by the leeway.\<close>

definition time_window :: "(float64 \<Rightarrow> 64 word) \<Rightarrow> claims \<Rightarrow> int \<Rightarrow> bool" where
  "time_window oob cs t \<longleftrightarrow>
     (\<exists>e. claim_seconds oob cs ''exp'' = Some e \<and> t \<le> (e + 60) * ns_per_s)
     \<and> (\<forall>n. claim_seconds oob cs ''nbf'' = Some n \<longrightarrow> (n - 60) * ns_per_s \<le> t)
     \<and> (\<forall>i. claim_seconds oob cs ''iat'' = Some i \<longrightarrow> (i - 60) * ns_per_s \<le> t)"

lemma sint_leeway: "sint ClockSkewLeeway = 60 * ns_per_s" "sint (- ClockSkewLeeway) = - 60 * ns_per_s"
  by (simp_all add: ClockSkewLeeway_def ns_per_s_def)

lemma date_guard:
  assumes "dates_bounded oob cs" and "name \<in> {''nbf'', ''iat''}" and "wf_time now"
  shows "(case numericClaim oob cs name of None \<Rightarrow> False
      | Some nbf \<Rightarrow> Before now (Add nbf (- ClockSkewLeeway)))
    \<longleftrightarrow> (\<exists>n. claim_seconds oob cs name = Some n \<and> unix_ns now < (n - 60) * ns_per_s)"
proof (cases "claim_seconds oob cs name")
  case None
  then show ?thesis by (simp add: numericClaim_seconds)
next
  case (Some x)
  with claim_after [OF assms(1) _ Some assms(3)] assms(2) show ?thesis
    by (auto simp: sint_leeway algebra_simps)
qed

lemma checkTimeClaims_window:
  assumes "dates_bounded oob cs" and "wf_time now"
  shows "checkTimeClaims oob cs now = Inr () \<longleftrightarrow> time_window oob cs (unix_ns now)"
proof (cases "claim_seconds oob cs ''exp''")
  case None
  then show ?thesis by (simp add: checkTimeClaims_def numericClaim_seconds time_window_def)
next
  case (Some e)
  have exp_ok: "numericClaim oob cs ''exp'' = Some (time_Unix (word_of_int e))"
    "After now (Add (time_Unix (word_of_int e)) ClockSkewLeeway) \<longleftrightarrow> \<not> unix_ns now \<le> (e + 60) * ns_per_s"
    using claim_after [OF assms(1) _ Some assms(2)] by (auto simp: sint_leeway algebra_simps)
  show ?thesis
    unfolding checkTimeClaims_def exp_ok(1) option.case exp_ok(2)
      date_guard [OF assms(1) _ assms(2), of "''nbf''", simplified]
      date_guard [OF assms(1) _ assms(2), of "''iat''", simplified]
    using Some by (auto simp: time_window_def)
qed

end
