(* ===== verification/GoJson.thy ===== *)
theory GoJson
  imports GoValue
begin

text \<open>
  The part of \<open>encoding/json\<close> and \<open>encoding/base64\<close> the program calls.  A document is
  split into tokens, and a stack machine builds the value, as Go's scanner keeps a stack of
  enclosing arrays and objects (at most 10000 deep).  Strings are unquoted to Go strings:
  escapes, surrogate pairs, and U+FFFD for invalid UTF-8.  \<open>decode_string_field\<close> and
  \<open>decode_raw_list_field\<close> are \<open>json.Unmarshal\<close> into the one-field structs of the code.
\<close>

section \<open>UTF-8 output\<close>

definition chr :: "nat \<Rightarrow> char" where
  "chr n = char_of n"

text \<open>\<open>utf8.AppendRune\<close>\<close>

definition encode_rune :: "nat \<Rightarrow> string" where
  "encode_rune r =
     (if r < 0x80 then [chr r]
      else if r < 0x800 then [chr (0xC0 + r div 64), chr (0x80 + r mod 64)]
      else if r > 0x10FFFF \<or> (0xD800 \<le> r \<and> r \<le> 0xDFFF)
      then [chr 0xEF, chr 0xBF, chr 0xBD]
      else if r < 0x10000
      then [chr (0xE0 + r div 4096), chr (0x80 + r div 64 mod 64), chr (0x80 + r mod 64)]
      else [chr (0xF0 + r div 262144), chr (0x80 + r div 4096 mod 64),
            chr (0x80 + r div 64 mod 64), chr (0x80 + r mod 64)])"

section \<open>Tokens\<close>

datatype token =
    TLBrace | TRBrace | TLBrack | TRBrack | TComma | TColon
  | TStr string | TNum string | TTrue | TFalse | TNull

definition hex_nibble :: "char \<Rightarrow> nat option" where
  "hex_nibble c =
     (if is_digit c then Some (byte c - 48)
      else if between_chars (CHR ''a'') (CHR ''f'') c then Some (byte c - 87)
      else if between_chars (CHR ''A'') (CHR ''F'') c then Some (byte c - 55)
      else None)"

fun hex4 :: "string \<Rightarrow> (nat \<times> string) option" where
  "hex4 (a # b # c # d # s) =
     (case (hex_nibble a, hex_nibble b, hex_nibble c, hex_nibble d) of
        (Some w, Some x, Some y, Some z) \<Rightarrow> Some (w * 4096 + x * 256 + y * 16 + z, s)
      | _ \<Rightarrow> None)"
| "hex4 _ = None"

lemma hex4_length: "hex4 s = Some (n, t) \<Longrightarrow> length t < length s"
  by (induction s rule: hex4.induct) (auto split: option.splits)

definition is_surrogate :: "nat \<Rightarrow> bool" where
  "is_surrogate r \<longleftrightarrow> 0xD800 \<le> r \<and> r \<le> 0xDFFF"

text \<open>\<open>utf16.DecodeRune\<close>; \<open>None\<close> is the replacement character.\<close>

definition decode_pair :: "nat \<Rightarrow> nat \<Rightarrow> nat option" where
  "decode_pair r1 r2 =
     (if 0xD800 \<le> r1 \<and> r1 < 0xDC00 \<and> 0xDC00 \<le> r2 \<and> r2 < 0xE000
      then Some ((r1 - 0xD800) * 1024 + (r2 - 0xDC00) + 0x10000) else None)"

text \<open>After \<open>\u\<close>: the bytes the escape stands for and the text behind it.\<close>

definition unicode_escape :: "string \<Rightarrow> (string \<times> string) option" where
  "unicode_escape s =
     (case hex4 s of
        None \<Rightarrow> None
      | Some (r, t) \<Rightarrow>
          if is_surrogate r then
            (case t of
               b # u # t2 \<Rightarrow>
                 (if b = CHR 0x5C \<and> u = CHR ''u'' then
                    (case hex4 t2 of
                       Some (r2, t3) \<Rightarrow>
                         (case decode_pair r r2 of
                            Some q \<Rightarrow> Some (encode_rune q, t3)
                          | None \<Rightarrow> Some (encode_rune 0xFFFD, t))
                     | None \<Rightarrow> Some (encode_rune 0xFFFD, t))
                  else Some (encode_rune 0xFFFD, t))
             | _ \<Rightarrow> Some (encode_rune 0xFFFD, t))
          else Some (encode_rune r, t))"

lemma unicode_escape_length: "unicode_escape s = Some (out, t) \<Longrightarrow> length t < length s"
  by (auto simp: unicode_escape_def dest!: hex4_length split: option.splits list.splits if_splits)

definition simple_escape :: "char \<Rightarrow> char option" where
  "simple_escape c =
     (if c = CHR 0x22 \<or> c = CHR 0x5C \<or> c = CHR ''/'' then Some c
      else if c = CHR ''b'' then Some (chr 8) else if c = CHR ''f'' then Some (chr 12)
      else if c = CHR ''n'' then Some (chr 10) else if c = CHR ''r'' then Some (chr 13)
      else if c = CHR ''t'' then Some (chr 9) else None)"

text \<open>The text after an opening quote: the unquoted string and the text behind it.\<close>

definition prepend :: "string \<Rightarrow> (string \<times> 'a) option \<Rightarrow> (string \<times> 'a) option" where
  "prepend p m = map_option (\<lambda>(out, rest). (p @ out, rest)) m"

function lex_string :: "string \<Rightarrow> (string \<times> string) option" where
  "lex_string [] = None"
| "lex_string (c # s) =
     (if c = CHR 0x22 then Some ([], s)
      else if c = CHR 0x5C then
        (case s of
           [] \<Rightarrow> None
         | e # t \<Rightarrow>
             if e = CHR ''u'' then
               (case unicode_escape t of
                  None \<Rightarrow> None
                | Some (out, t') \<Rightarrow> prepend out (lex_string t'))
             else (case simple_escape e of
                  None \<Rightarrow> None
                | Some d \<Rightarrow> prepend [d] (lex_string t)))
      else if byte c < 0x20 then None
      else (case decode_rune c s of
          (r, w) \<Rightarrow> prepend (encode_rune r) (lex_string (drop (w - 1) s))))"
  by pat_completeness auto
termination
  by (relation "measure length") (auto dest!: unicode_escape_length)

declare lex_string.simps(2) [simp del]

lemma lex_string_length: "lex_string s = Some (out, t) \<Longrightarrow> length t < length s"
proof (induction s arbitrary: out t rule: lex_string.induct)
  case 1
  then show ?case by simp
next
  case (2 c s)
  show ?case
  proof (cases "c = CHR 0x22")
    case True
    with "2.prems" show ?thesis by (simp add: lex_string.simps(2))
  next
    case q: False
    show ?thesis
    proof (cases "c = CHR 0x5C")
      case True
      with "2.prems" q obtain e u where s: "s = e # u" by (cases s) (simp_all add: lex_string.simps(2))
      show ?thesis
      proof (cases "e = CHR ''u''")
        case u: True
        with "2.prems" q True s obtain o1 t1 o2 where e: "unicode_escape u = Some (o1, t1)"
          and "lex_string t1 = Some (o2, t)"
          by (auto simp: lex_string.simps(2) prepend_def split: option.splits)
        then have "length t < length t1" using "2.IH"(1) [OF q True s u e refl] by blast
        with e s show ?thesis by (auto dest: unicode_escape_length)
      next
        case nu: False
        with "2.prems" q True s obtain d o2 where e: "simple_escape e = Some d"
          and "lex_string u = Some (o2, t)"
          by (auto simp: lex_string.simps(2) prepend_def split: option.splits)
        then have "length t < length u" using "2.IH"(2) [OF q True s nu e] by blast
        with s show ?thesis by simp
      qed
    next
      case False
      obtain r w where d: "decode_rune c s = (r, w)" by (cases "decode_rune c s")
      with "2.prems" q False obtain out' where "lex_string (drop (w - 1) s) = Some (out', t)"
        and "\<not> byte c < 0x20"
        by (auto simp: lex_string.simps(2) prepend_def split: if_splits)
      then have "length t < length (drop (w - 1) s)"
        using "2.IH"(3) [OF q False _ d [symmetric]] by blast
      then show ?thesis by simp
    qed
  qed
qed

text \<open>Numbers: an optional sign, an integer part without a leading zero, an optional
  fraction and exponent.  The literal text is kept.\<close>

definition split_while :: "('a \<Rightarrow> bool) \<Rightarrow> 'a list \<Rightarrow> 'a list \<times> 'a list" where
  "split_while P xs = (takeWhile P xs, dropWhile P xs)"

definition lex_digits :: "string \<Rightarrow> (string \<times> string) option" where
  "lex_digits s = (case split_while is_digit s of (ds, t) \<Rightarrow> if ds = [] then None else Some (ds, t))"

definition lex_int :: "string \<Rightarrow> (string \<times> string) option" where
  "lex_int s = (case s of
      [] \<Rightarrow> None
    | c # t \<Rightarrow> if c = CHR ''0'' then Some ([c], t) else lex_digits s)"

definition lex_frac :: "string \<Rightarrow> (string \<times> string) option" where
  "lex_frac s = (case s of
      [] \<Rightarrow> Some ([], [])
    | c # t \<Rightarrow> if c = CHR ''.'' then prepend [c] (lex_digits t) else Some ([], s))"

definition lex_exp :: "string \<Rightarrow> (string \<times> string) option" where
  "lex_exp s = (case s of
      [] \<Rightarrow> Some ([], [])
    | c # t \<Rightarrow>
        if c = CHR ''e'' \<or> c = CHR ''E'' then
          (case t of
             [] \<Rightarrow> None
           | d # u \<Rightarrow>
               if d = CHR ''+'' \<or> d = CHR ''-'' then prepend [c, d] (lex_digits u)
               else prepend [c] (lex_digits t))
        else Some ([], s))"

definition lex_number :: "string \<Rightarrow> (string \<times> string) option" where
  "lex_number s =
     (let (sign, u) = (if s \<noteq> [] \<and> hd s = CHR ''-'' then ([hd s], tl s) else ([], s)) in
      case lex_int u of
        None \<Rightarrow> None
      | Some (i, u1) \<Rightarrow>
          (case lex_frac u1 of
             None \<Rightarrow> None
           | Some (f, u2) \<Rightarrow>
               (case lex_exp u2 of
                  None \<Rightarrow> None
                | Some (e, u3) \<Rightarrow> Some (sign @ i @ f @ e, u3))))"

lemma lex_digits_split: "lex_digits s = Some (d, t) \<Longrightarrow> s = d @ t \<and> d \<noteq> []"
  by (auto simp: lex_digits_def split_while_def split: if_splits)

lemma lex_int_split: "lex_int s = Some (d, t) \<Longrightarrow> s = d @ t \<and> d \<noteq> []"
  by (auto simp: lex_int_def split: list.splits if_splits dest: lex_digits_split)

lemma lex_frac_split: "lex_frac s = Some (d, t) \<Longrightarrow> s = d @ t"
  by (auto simp: lex_frac_def prepend_def split: list.splits if_splits dest: lex_digits_split)

lemma lex_exp_split: "lex_exp s = Some (d, t) \<Longrightarrow> s = d @ t"
  by (auto simp: lex_exp_def prepend_def split: list.splits if_splits dest: lex_digits_split)

lemma lex_number_split:
  assumes "lex_number s = Some (d, t)"
  shows "s = d @ t" and "d \<noteq> []"
proof -
  define sign u where "sign = (if s \<noteq> [] \<and> hd s = CHR ''-'' then [hd s] else [])"
    and "u = (if s \<noteq> [] \<and> hd s = CHR ''-'' then tl s else s)"
  have s: "s = sign @ u" by (cases s) (simp_all add: sign_def u_def)
  obtain i u1 f u2 e where "lex_int u = Some (i, u1)" "lex_frac u1 = Some (f, u2)"
    "lex_exp u2 = Some (e, t)" and d: "d = sign @ i @ f @ e"
    using assms by (auto simp: lex_number_def sign_def u_def split: option.splits if_splits)
  then have "u = i @ u1 \<and> i \<noteq> []" "u1 = f @ u2" "u2 = e @ t"
    using lex_int_split lex_frac_split lex_exp_split by blast+
  with s d show "s = d @ t" "d \<noteq> []" by simp_all
qed

lemma lex_number_length: "lex_number s = Some (d, t) \<Longrightarrow> length t < length s"
  using lex_number_split [of s d t] by (cases d) auto

definition is_json_space :: "char \<Rightarrow> bool" where
  "is_json_space c \<longleftrightarrow> c = CHR '' '' \<or> byte c = 9 \<or> byte c = 10 \<or> byte c = 13"

definition punctuation :: "char \<Rightarrow> token option" where
  "punctuation c =
     (if c = CHR ''{'' then Some TLBrace else if c = CHR ''}'' then Some TRBrace
      else if c = CHR ''['' then Some TLBrack else if c = CHR '']'' then Some TRBrack
      else if c = CHR '','' then Some TComma else if c = CHR '':'' then Some TColon
      else None)"

definition lex_keyword :: "string \<Rightarrow> (token \<times> string) option" where
  "lex_keyword s =
     (if prefix ''true'' s then Some (TTrue, drop 4 s)
      else if prefix ''false'' s then Some (TFalse, drop 5 s)
      else if prefix ''null'' s then Some (TNull, drop 4 s)
      else None)"

lemma lex_keyword_length: "lex_keyword s = Some (k, t) \<Longrightarrow> length t < length s"
  by (auto simp: lex_keyword_def prefix_def split: if_splits)

text \<open>One token from a text that does not start with white space.\<close>

definition lex_token :: "string \<Rightarrow> (token \<times> string) option" where
  "lex_token s = (case s of
      [] \<Rightarrow> None
    | c # t \<Rightarrow>
        (case punctuation c of
           Some k \<Rightarrow> Some (k, t)
         | None \<Rightarrow>
             if c = CHR 0x22 then map_option (\<lambda>(v, u). (TStr v, u)) (lex_string t)
             else if is_digit c \<or> c = CHR ''-''
             then map_option (\<lambda>(v, u). (TNum v, u)) (lex_number s)
             else lex_keyword s))"

lemma lex_token_length: "lex_token s = Some (k, t) \<Longrightarrow> length t < length s"
  unfolding lex_token_def
  by (auto split: list.splits option.splits if_splits
      dest: lex_string_length lex_number_length lex_keyword_length)

function lex :: "string \<Rightarrow> token list option" where
  "lex [] = Some []"
| "lex (c # s) =
     (if is_json_space c then lex s
      else (case lex_token (c # s) of
          None \<Rightarrow> None
        | Some (k, t) \<Rightarrow> map_option (\<lambda>ks. k # ks) (lex t)))"
  by pat_completeness auto
termination
  by (relation "measure length") (auto dest!: lex_token_length)

declare lex.simps(2) [simp del]

section \<open>Values\<close>

datatype json =
    JNull | JBool bool | JNum string | JStr string
  | JArr "json list" | JObj "(string \<times> json) list"

text \<open>An enclosing array or object that is still open, with the members read so far.\<close>

datatype frame = FArr "json list" | FObj "(string \<times> json) list" string

text \<open>What the grammar allows next.\<close>

datatype expect = EValue | EValueOrEnd | EKey | EKeyOrEnd | EColon | ECommaOrEnd | EDone json

definition max_depth :: nat where
  "max_depth = 10000"

text \<open>A value is complete: it is the document, an element, or the value of the open key.\<close>

fun complete :: "json \<Rightarrow> frame list \<Rightarrow> frame list \<times> expect" where
  "complete v [] = ([], EDone v)"
| "complete v (FArr vs # st) = (FArr (vs @ [v]) # st, ECommaOrEnd)"
| "complete v (FObj ms k # st) = (FObj (ms @ [(k, v)]) k # st, ECommaOrEnd)"

definition scalar :: "token \<Rightarrow> json option" where
  "scalar k = (case k of
      TStr s \<Rightarrow> Some (JStr s) | TNum n \<Rightarrow> Some (JNum n) | TTrue \<Rightarrow> Some (JBool True)
    | TFalse \<Rightarrow> Some (JBool False) | TNull \<Rightarrow> Some JNull | _ \<Rightarrow> None)"

definition start_value :: "token \<Rightarrow> frame list \<Rightarrow> (frame list \<times> expect) option" where
  "start_value k st =
     (case k of
        TLBrack \<Rightarrow> if length st < max_depth then Some (FArr [] # st, EValueOrEnd) else None
      | TLBrace \<Rightarrow> if length st < max_depth then Some (FObj [] [] # st, EKeyOrEnd) else None
      | _ \<Rightarrow> map_option (\<lambda>v. complete v st) (scalar k))"

definition start_key :: "token \<Rightarrow> frame list \<Rightarrow> (frame list \<times> expect) option" where
  "start_key k st =
     (case (k, st) of
        (TStr s, FObj ms _ # st') \<Rightarrow> Some (FObj ms s # st', EColon)
      | _ \<Rightarrow> None)"

definition end_value :: "token \<Rightarrow> frame list \<Rightarrow> (frame list \<times> expect) option" where
  "end_value k st =
     (case (k, st) of
        (TRBrack, FArr vs # st') \<Rightarrow> Some (complete (JArr vs) st')
      | (TRBrace, FObj ms _ # st') \<Rightarrow> Some (complete (JObj ms) st')
      | _ \<Rightarrow> None)"

definition parse_step :: "frame list \<times> expect \<Rightarrow> token \<Rightarrow> (frame list \<times> expect) option" where
  "parse_step c k =
     (case c of (st, e) \<Rightarrow>
        (case e of
           EValue \<Rightarrow> start_value k st
         | EValueOrEnd \<Rightarrow> if k = TRBrack then end_value k st else start_value k st
         | EKey \<Rightarrow> start_key k st
         | EKeyOrEnd \<Rightarrow> if k = TRBrace then end_value k st else start_key k st
         | EColon \<Rightarrow> if k = TColon then Some (st, EValue) else None
         | ECommaOrEnd \<Rightarrow>
             if k = TComma then
               (case st of
                  FArr _ # _ \<Rightarrow> Some (st, EValue)
                | FObj _ _ # _ \<Rightarrow> Some (st, EKey)
                | [] \<Rightarrow> None)
             else end_value k st
         | EDone v \<Rightarrow> None))"

fun run_tokens :: "frame list \<times> expect \<Rightarrow> token list \<Rightarrow> (frame list \<times> expect) option" where
  "run_tokens c [] = Some c"
| "run_tokens c (k # ks) =
     (case parse_step c k of None \<Rightarrow> None | Some c' \<Rightarrow> run_tokens c' ks)"

definition parse_json :: "string \<Rightarrow> json option" where
  "parse_json s =
     (case lex s of
        None \<Rightarrow> None
      | Some ks \<Rightarrow>
          (case run_tokens ([], EValue) ks of
             Some (_, EDone v) \<Rightarrow> Some v
           | _ \<Rightarrow> None))"

section \<open>The tokens of a value parse back to it\<close>

fun tokens_of :: "json \<Rightarrow> token list" and array_tokens :: "json list \<Rightarrow> token list"
  and object_tokens :: "(string \<times> json) list \<Rightarrow> token list" where
  "tokens_of JNull = [TNull]"
| "tokens_of (JBool b) = [if b then TTrue else TFalse]"
| "tokens_of (JNum n) = [TNum n]"
| "tokens_of (JStr s) = [TStr s]"
| "tokens_of (JArr vs) = TLBrack # array_tokens vs @ [TRBrack]"
| "tokens_of (JObj ms) = TLBrace # object_tokens ms @ [TRBrace]"
| "array_tokens [] = []"
| "array_tokens (v # vs) = tokens_of v @ (if vs = [] then [] else TComma # array_tokens vs)"
| "object_tokens [] = []"
| "object_tokens ((k, v) # ms) =
     TStr k # TColon # tokens_of v @ (if ms = [] then [] else TComma # object_tokens ms)"

fun depth :: "json \<Rightarrow> nat" and list_depth :: "json list \<Rightarrow> nat"
  and object_depth :: "(string \<times> json) list \<Rightarrow> nat" where
  "depth (JArr vs) = Suc (list_depth vs)"
| "depth (JObj ms) = Suc (object_depth ms)"
| "depth _ = 0"
| "list_depth [] = 0"
| "list_depth (v # vs) = max (depth v) (list_depth vs)"
| "object_depth [] = 0"
| "object_depth ((k, v) # ms) = max (depth v) (object_depth ms)"

lemma run_tokens_append:
  "run_tokens c (ks @ ls) =
     (case run_tokens c ks of None \<Rightarrow> None | Some c' \<Rightarrow> run_tokens c' ls)"
  by (induction c ks rule: run_tokens.induct) (auto split: option.splits)

lemma tokens_of_not_Nil [simp]: "tokens_of v \<noteq> []"
  by (cases v) auto

lemmas parse_step_simps = parse_step_def start_value_def start_key_def end_value_def

lemma run_tokens_of:
  "length st + depth v \<le> max_depth \<Longrightarrow> e = EValue \<or> e = EValueOrEnd \<Longrightarrow>
     run_tokens (st, e) (tokens_of v) = Some (complete v st)"
  "length st + Suc (list_depth vs) \<le> max_depth \<Longrightarrow>
     e' = (if pre = [] then EValueOrEnd else EValue) \<Longrightarrow> vs \<noteq> [] \<Longrightarrow>
     run_tokens (FArr pre # st, e') (array_tokens vs) = Some (FArr (pre @ vs) # st, ECommaOrEnd)"
  "length st + Suc (object_depth ms) \<le> max_depth \<Longrightarrow>
     f = EKey \<or> f = EKeyOrEnd \<Longrightarrow> ms \<noteq> [] \<Longrightarrow>
     \<exists>k'. run_tokens (FObj pm k # st, f) (object_tokens ms) = Some (FObj (pm @ ms) k' # st, ECommaOrEnd)"
proof (induction v and vs and ms arbitrary: st e and st pre e' and st pm k f
    rule: tokens_of_array_tokens_object_tokens.induct)
  case (5 vs)
  show ?case
  proof (cases "vs = []")
    case True
    with 5 show ?thesis by (auto simp: parse_step_simps max_depth_def)
  next
    case False
    have "run_tokens (FArr [] # st, EValueOrEnd) (array_tokens vs)
        = Some (FArr vs # st, ECommaOrEnd)"
      using "5.IH" [of st EValueOrEnd "[]"] "5.prems" False by simp
    with "5.prems" show ?thesis
      by (auto simp: parse_step_simps run_tokens_append max_depth_def)
  qed
next
  case (6 ms)
  show ?case
  proof (cases ms)
    case Nil
    with 6 show ?thesis by (auto simp: parse_step_simps max_depth_def)
  next
    case (Cons m ms')
    obtain k' where "run_tokens (FObj [] [] # st, EKeyOrEnd) (object_tokens ms)
        = Some (FObj ms k' # st, ECommaOrEnd)"
      using "6.IH" [of st EKeyOrEnd "[]" "[]"] "6.prems" Cons by auto
    with "6.prems" show ?thesis
      by (auto simp: parse_step_simps run_tokens_append max_depth_def)
  qed
next
  case (8 v vs)
  have e': "e' = EValue \<or> e' = EValueOrEnd" using "8.prems"(2) by auto
  have v: "run_tokens (FArr pre # st, e') (tokens_of v) = Some (FArr (pre @ [v]) # st, ECommaOrEnd)"
    using "8.IH"(1) [of "FArr pre # st" e'] "8.prems"(1) e' by simp
  show ?case
  proof (cases "vs = []")
    case True
    with v show ?thesis by simp
  next
    case False
    have "run_tokens (FArr (pre @ [v]) # st, EValue) (array_tokens vs)
        = Some (FArr ((pre @ [v]) @ vs) # st, ECommaOrEnd)"
      using "8.IH"(2) [OF False, of st EValue "pre @ [v]"] "8.prems"(1) False by simp
    with v False show ?thesis by (simp add: run_tokens_append parse_step_def)
  qed
next
  case (10 key v ms)
  have v: "run_tokens (FObj pm key # st, EValue) (tokens_of v)
      = Some (FObj (pm @ [(key, v)]) key # st, ECommaOrEnd)"
    using "10.IH"(1) [of "FObj pm key # st" EValue] "10.prems"(1) by simp
  have start: "parse_step (FObj pm k # st, f) (TStr key) = Some (FObj pm key # st, EColon)"
    using "10.prems"(2) by (auto simp: parse_step_def start_key_def)
  show ?case
  proof (cases "ms = []")
    case True
    with v start show ?thesis by (simp add: parse_step_def [of "(_, EColon)"])
  next
    case False
    have "length st + Suc (object_depth ms) \<le> max_depth" using "10.prems"(1) by simp
    then obtain k' where "run_tokens (FObj (pm @ [(key, v)]) key # st, EKey) (object_tokens ms)
        = Some (FObj ((pm @ [(key, v)]) @ ms) k' # st, ECommaOrEnd)"
      using "10.IH"(2) [OF False, of st EKey "pm @ [(key, v)]" key] False by blast
    with v False start show ?thesis
      by (simp add: run_tokens_append parse_step_def [of "(_, EColon)"]
          parse_step_def [of "(_, ECommaOrEnd)"])
  qed
qed (auto simp: parse_step_def start_value_def scalar_def)

lemma parse_tokens_of:
  assumes "lex s = Some (tokens_of v)" and "depth v \<le> max_depth"
  shows "parse_json s = Some v"
  using run_tokens_of(1) [of "[]" v EValue] assms by (simp add: parse_json_def)

section \<open>Unmarshal into the structs of the code\<close>

text \<open>
  Field names match after case folding.  Against an ASCII name, folding maps lower-case
  letters to upper case and the two non-ASCII letters of the fold classes of \<open>s\<close> and
  \<open>k\<close> to theirs; any other rune stays outside ASCII.
\<close>

definition fold_rune :: "nat \<Rightarrow> nat" where
  "fold_rune r =
     (if 97 \<le> r \<and> r \<le> 122 then r - 32
      else if r = 0x17F then 83 else if r = 0x212A then 75 else r)"

definition field_matches :: "string \<Rightarrow> string \<Rightarrow> bool" where
  "field_matches name key \<longleftrightarrow>
     key = name \<or> map fold_rune (runes key) = map fold_rune (runes name)"

datatype json_error = SyntaxError | UnmarshalTypeError

text \<open>
  \<open>struct { F string `json:"name"` }\<close>: the last matching member wins, \<open>null\<close> leaves the
  field alone, another type is an error that is reported after the whole document was read.
\<close>

fun string_members :: "string \<Rightarrow> (string \<times> json) list \<Rightarrow> string \<Rightarrow> bool \<Rightarrow> string \<times> bool" where
  "string_members name [] cur bad = (cur, bad)"
| "string_members name ((k, v) # ms) cur bad =
     (if field_matches name k then
        (case v of
           JStr s \<Rightarrow> string_members name ms s bad
         | JNull \<Rightarrow> string_members name ms cur bad
         | _ \<Rightarrow> string_members name ms cur True)
      else string_members name ms cur bad)"

definition decode_string_field :: "string \<Rightarrow> string \<Rightarrow> (json_error, string) result" where
  "decode_string_field name data =
     (case parse_json data of
        None \<Rightarrow> Inl SyntaxError
      | Some JNull \<Rightarrow> Inr []
      | Some (JObj ms) \<Rightarrow>
          (case string_members name ms [] False of
             (cur, bad) \<Rightarrow> if bad then Inl UnmarshalTypeError else Inr cur)
      | Some _ \<Rightarrow> Inl UnmarshalTypeError)"

text \<open>\<open>struct { F []json.RawMessage `json:"name"` }\<close>: \<open>None\<close> is the nil slice.\<close>

fun raw_members ::
  "string \<Rightarrow> (string \<times> json) list \<Rightarrow> json list option \<Rightarrow> bool \<Rightarrow> json list option \<times> bool" where
  "raw_members name [] cur bad = (cur, bad)"
| "raw_members name ((k, v) # ms) cur bad =
     (if field_matches name k then
        (case v of
           JArr vs \<Rightarrow> raw_members name ms (Some vs) bad
         | JNull \<Rightarrow> raw_members name ms None bad
         | _ \<Rightarrow> raw_members name ms cur True)
      else raw_members name ms cur bad)"

definition decode_raw_list_field :: "string \<Rightarrow> string \<Rightarrow> (json_error, json list option) result" where
  "decode_raw_list_field name data =
     (case parse_json data of
        None \<Rightarrow> Inl SyntaxError
      | Some JNull \<Rightarrow> Inr None
      | Some (JObj ms) \<Rightarrow>
          (case raw_members name ms None False of
             (cur, bad) \<Rightarrow> if bad then Inl UnmarshalTypeError else Inr cur)
      | Some _ \<Rightarrow> Inl UnmarshalTypeError)"

section \<open>Marshal\<close>

text \<open>\<open>json.Marshal\<close> of a string whose bytes are printable ASCII other than the escaped
  ones, and of a \<open>map[string]string\<close> given in the order of its sorted keys.\<close>

definition hex2 :: "nat \<Rightarrow> string" where
  "hex2 n = [hex_digit (n div 16), hex_digit (n mod 16)]"

fun quote_bytes :: "string \<Rightarrow> string" where
  "quote_bytes [] = []"
| "quote_bytes (c # s) =
     (if c = CHR 0x22 \<or> c = CHR 0x5C then [CHR 0x5C, c]
      else if byte c = 8 then [CHR 0x5C, CHR ''b''] else if byte c = 12 then [CHR 0x5C, CHR ''f'']
      else if byte c = 10 then [CHR 0x5C, CHR ''n''] else if byte c = 13 then [CHR 0x5C, CHR ''r'']
      else if byte c = 9 then [CHR 0x5C, CHR ''t'']
      else if byte c < 0x20 \<or> c \<in> set ''<>&''
      then [CHR 0x5C, CHR ''u'', CHR ''0'', CHR ''0''] @ hex2 (byte c)
      else [c]) @ quote_bytes s"

definition quote_string :: "string \<Rightarrow> string" where
  "quote_string s = CHR 0x22 # quote_bytes s @ [CHR 0x22]"

fun marshal_members :: "(string \<times> string) list \<Rightarrow> string" where
  "marshal_members [] = []"
| "marshal_members [(k, v)] = quote_string k @ '':'' @ quote_string v"
| "marshal_members ((k, v) # m # ms) =
     quote_string k @ '':'' @ quote_string v @ '','' @ marshal_members (m # ms)"

definition marshal_map :: "(string \<times> string) list \<Rightarrow> string" where
  "marshal_map ms = ''{'' @ marshal_members ms @ ''}''"

text \<open>Text that is quoted without any escape, and that lexes back to itself.\<close>

definition plain_char :: "char \<Rightarrow> bool" where
  "plain_char c \<longleftrightarrow> 0x20 \<le> byte c \<and> byte c < 0x80 \<and> c \<noteq> CHR 0x22 \<and> c \<noteq> CHR 0x5C
     \<and> c \<notin> set ''<>&''"

lemma quote_bytes_plain: "\<forall>c \<in> set s. plain_char c \<Longrightarrow> quote_bytes s = s"
  by (induction s) (auto simp: plain_char_def)

lemma lex_string_plain:
  "\<forall>c \<in> set s. plain_char c \<Longrightarrow> lex_string (s @ CHR 0x22 # t) = Some (s, t)"
proof (induction s)
  case Nil
  then show ?case by (simp add: lex_string.simps(2))
next
  case (Cons c s)
  then have "encode_rune (byte c) = [c]" and "byte c < 0x80"
    by (auto simp: plain_char_def encode_rune_def chr_def)
  with Cons show ?case
    by (auto simp: lex_string.simps(2) plain_char_def decode_rune_ascii prepend_def)
qed

lemma lex_quote_plain:
  assumes "\<forall>c \<in> set s. plain_char c"
  shows "lex (quote_string s @ t) = map_option (\<lambda>ks. TStr s # ks) (lex t)"
  using lex_string_plain [OF assms, of t] quote_bytes_plain [OF assms]
  by (simp add: quote_string_def lex.simps(2) is_json_space_def lex_token_def punctuation_def)

lemma lex_punctuation:
  "punctuation c = Some k \<Longrightarrow> lex (c # t) = map_option (\<lambda>ks. k # ks) (lex t)"
  by (auto simp: lex.simps(2) lex_token_def is_json_space_def punctuation_def split: if_splits)

lemma lex_marshal_members:
  assumes "\<forall>(k, v) \<in> set ms. \<forall>c \<in> set k \<union> set v. plain_char c"
  shows "lex (marshal_members ms @ t) =
     map_option (\<lambda>ks. object_tokens (map (\<lambda>(k, v). (k, JStr v)) ms) @ ks) (lex t)"
  using assms
proof (induction ms rule: marshal_members.induct)
  case 1
  then show ?case by (simp add: option.map_ident)
next
  case (2 k v)
  then show ?case
    by (simp add: lex_quote_plain lex_punctuation [of "CHR '':''" TColon] punctuation_def
        option.map_comp comp_def)
next
  case (3 k v m ms)
  then show ?case
    by (simp add: lex_quote_plain lex_punctuation [of "CHR '':''" TColon]
        lex_punctuation [of "CHR '',''" TComma] punctuation_def option.map_comp comp_def
        split: prod.splits)
qed

lemma parse_marshal_map_then:
  assumes "\<forall>(k, v) \<in> set ms. \<forall>c \<in> set k \<union> set v. plain_char c" and "lex t = Some []"
  shows "parse_json (marshal_map ms @ t) = Some (JObj (map (\<lambda>(k, v). (k, JStr v)) ms))"
proof (rule parse_tokens_of)
  show "lex (marshal_map ms @ t) = Some (tokens_of (JObj (map (\<lambda>(k, v). (k, JStr v)) ms)))"
    using lex_marshal_members [OF assms(1), of "CHR ''}'' # t"] assms(2)
    by (simp add: marshal_map_def lex_punctuation [of "CHR ''{''" TLBrace]
        lex_punctuation [of "CHR ''}''" TRBrace] punctuation_def)
  have "object_depth (map (\<lambda>(k, v). (k, JStr v)) ms) = 0"
    by (induction ms) auto
  then show "depth (JObj (map (\<lambda>(k, v). (k, JStr v)) ms)) \<le> max_depth"
    by (simp add: max_depth_def)
qed

lemma parse_marshal_map:
  assumes "\<forall>(k, v) \<in> set ms. \<forall>c \<in> set k \<union> set v. plain_char c"
  shows "parse_json (marshal_map ms) = Some (JObj (map (\<lambda>(k, v). (k, JStr v)) ms))"
  using parse_marshal_map_then [OF assms, of "[]"] by simp

section \<open>base64.RawURLEncoding\<close>

definition base64_value :: "char \<Rightarrow> nat option" where
  "base64_value c =
     (if is_upper c then Some (byte c - 65) else if is_lower c then Some (byte c - 97 + 26)
      else if is_digit c then Some (byte c - 48 + 52)
      else if c = CHR ''-'' then Some 62 else if c = CHR ''_'' then Some 63 else None)"

fun base64_groups :: "nat list \<Rightarrow> string option" where
  "base64_groups [] = Some []"
| "base64_groups [a] = None"
| "base64_groups [a, b] = Some [chr (a * 4 + b div 16)]"
| "base64_groups [a, b, c] = Some [chr (a * 4 + b div 16), chr (b mod 16 * 16 + c div 4)]"
| "base64_groups (a # b # c # d # s) =
     map_option (\<lambda>out. chr (a * 4 + b div 16) # chr (b mod 16 * 16 + c div 4)
        # chr (c mod 4 * 64 + d) # out) (base64_groups s)"

text \<open>Line breaks are skipped, as the decoder skips them; trailing bits are not checked.\<close>

definition DecodeString :: "string \<Rightarrow> string option" where
  "DecodeString s =
     (let vs = map base64_value (filter (\<lambda>c. byte c \<noteq> 10 \<and> byte c \<noteq> 13) s) in
      if None \<in> set vs then None else base64_groups (map the vs))"

end
