(* ===== verification/GoIO.thy ===== *)
theory GoIO
  imports GoText
begin

text \<open>
  \<open>io.ReadAll(io.LimitReader(r, n))\<close> on an HTTP body.  A body is the bytes it delivers and
  what ends it: the end of the stream, or a read error after those bytes.
\<close>

record body_source =
  src_bytes :: string
  src_error :: "string option"

text \<open>
  \<open>ReadAll\<close> returns what was read up to the error together with the error; a limited reader
  reports the end of the stream once \<open>n\<close> bytes were read.
\<close>

definition read_limited :: "nat \<Rightarrow> body_source \<Rightarrow> string \<times> string option" where
  "read_limited n b =
     (take n (src_bytes b), if length (src_bytes b) < n then src_error b else None)"

end
