(* ===== verification/Matching.thy ===== *)
theory Matching
  imports PolicyModel GoValue
begin

text \<open>
  \<open>internal/policy/match.go\<close>: a verified identity is matched against the enabled rules,
  and exactly one rule must match.  \<open>ExplainRule\<close> is the diagnostic twin of
  \<open>ruleMatches\<close> that the command \<open>explain\<close> prints.
\<close>

section \<open>Identities and decisions\<close>

record Identity =
  id_Issuer :: string
  id_Audiences :: "string list"
  id_Claims :: claims

datatype reason = ReasonPolicyDisabled | ReasonNoRuleMatched | ReasonMultipleRules

text \<open>\<open>Reason\<close> is the empty string when the decision allows: here \<open>None\<close>.\<close>

record Decision =
  dec_Allowed :: bool
  dec_Rule :: "Rule option"
  dec_Reason :: "reason option"
  dec_MatchedRules :: "string list"

fun contains :: "string list \<Rightarrow> string \<Rightarrow> bool" where
  "contains [] s = False"
| "contains (v # vs) s = (if v = s then True else contains vs s)"

lemma contains_iff [simp]: "contains xs s \<longleftrightarrow> s \<in> set xs"
  by (induction xs) auto

section \<open>ruleMatches\<close>

definition repository_matches :: "JWTMatch \<Rightarrow> Identity \<Rightarrow> bool" where
  "repository_matches m i =
     (if jwt_Owner m \<noteq> [] \<or> jwt_RepoName m \<noteq> [] then
        (case string_claim (id_Claims i) ''repository'' of
           None \<Rightarrow> False
         | Some repo \<Rightarrow>
             (case Cut (CHR ''/'') repo of
                None \<Rightarrow> False
              | Some (owner, name) \<Rightarrow>
                  if jwt_Owner m \<noteq> [] \<and> jwt_Owner m \<noteq> owner then False
                  else if jwt_RepoName m \<noteq> [] \<and> jwt_RepoName m \<noteq> name then False
                  else True))
      else True)"

fun claims_match :: "(string \<times> string) list \<Rightarrow> claims \<Rightarrow> bool" where
  "claims_match [] cs = True"
| "claims_match ((claim, want) # ms) cs =
     (case string_claim cs claim of
        None \<Rightarrow> False
      | Some got \<Rightarrow> if got \<noteq> want then False else claims_match ms cs)"

definition ruleMatches :: "Rule \<Rightarrow> Identity \<Rightarrow> bool" where
  "ruleMatches r i =
     (case match_JWT (rule_Match r) of
        None \<Rightarrow> False
      | Some m \<Rightarrow>
          if jwt_Issuer m \<noteq> id_Issuer i then False
          else if \<not> contains (id_Audiences i) (jwt_Audience m) then False
          else if \<not> repository_matches m i then False
          else claims_match (jwt_ClaimsExact m) (id_Claims i))"

lemma claims_match_iff:
  "claims_match ms cs \<longleftrightarrow> (\<forall>(claim, want) \<in> set ms. cs claim = Some (AString want))"
  by (induction ms cs rule: claims_match.induct) (auto split: option.splits simp: string_claim_None_iff)

lemma repository_matches_iff:
  "repository_matches m i \<longleftrightarrow>
     (jwt_Owner m = [] \<and> jwt_RepoName m = []) \<or>
     (\<exists>owner name. id_Claims i ''repository'' = Some (AString (owner @ CHR ''/'' # name))
        \<and> CHR ''/'' \<notin> set owner
        \<and> (jwt_Owner m = [] \<or> jwt_Owner m = owner)
        \<and> (jwt_RepoName m = [] \<or> jwt_RepoName m = name))"
proof (cases "string_claim (id_Claims i) ''repository''")
  case None
  then have "\<forall>s. id_Claims i ''repository'' \<noteq> Some (AString s)"
    by (simp add: string_claim_None_iff)
  with None show ?thesis by (simp add: repository_matches_def)
next
  case (Some repo)
  then have repo: "id_Claims i ''repository'' = Some (AString repo)" by simp
  show ?thesis
  proof (cases "Cut (CHR ''/'') repo")
    case None
    then have "CHR ''/'' \<notin> set repo" by (simp add: Cut_None_iff)
    with None repo show ?thesis by (auto simp: repository_matches_def string_claim_def)
  next
    case (Some on)
    then obtain owner name where on: "on = (owner, name)" "Cut (CHR ''/'') repo = Some (owner, name)"
      by (cases on) auto
    then have "repo = owner @ CHR ''/'' # name" "CHR ''/'' \<notin> set owner"
      by (simp_all add: Cut_Some_iff)
    then have uniq: "repo = o' @ CHR ''/'' # n' \<and> CHR ''/'' \<notin> set o' \<longleftrightarrow> o' = owner \<and> n' = name"
      for o' n' using Cut_unique by blast
    have "repository_matches m i \<longleftrightarrow> (jwt_Owner m = [] \<and> jwt_RepoName m = []) \<or>
        (jwt_Owner m = [] \<or> jwt_Owner m = owner) \<and> (jwt_RepoName m = [] \<or> jwt_RepoName m = name)"
      using on repo by (auto simp: repository_matches_def string_claim_def)
    with repo uniq show ?thesis by auto
  qed
qed

text \<open>All conditions of a rule are conjoined.\<close>

definition satisfies :: "JWTMatch \<Rightarrow> Identity \<Rightarrow> bool" where
  "satisfies m i \<longleftrightarrow> jwt_Issuer m = id_Issuer i \<and> jwt_Audience m \<in> set (id_Audiences i)
     \<and> repository_matches m i
     \<and> (\<forall>(claim, want) \<in> set (jwt_ClaimsExact m). id_Claims i claim = Some (AString want))"

lemma ruleMatches_iff:
  "ruleMatches r i \<longleftrightarrow> (\<exists>m. match_JWT (rule_Match r) = Some m \<and> satisfies m i)"
  by (auto simp: ruleMatches_def satisfies_def claims_match_iff split: option.splits)

section \<open>Evaluate\<close>

definition candidate :: "Identity \<Rightarrow> Rule \<Rightarrow> bool" where
  "candidate i r \<longleftrightarrow> IsEnabled r \<and> ruleMatches r i"

text \<open>The loop that collects the matching rules.\<close>

fun collect_matches :: "Rule list \<Rightarrow> Identity \<Rightarrow> Rule list" where
  "collect_matches [] i = []"
| "collect_matches (r # rs) i =
     (if \<not> IsEnabled r then collect_matches rs i
      else if ruleMatches r i then r # collect_matches rs i
      else collect_matches rs i)"

definition Evaluate :: "Policy \<Rightarrow> Identity \<Rightarrow> Decision" where
  "Evaluate p i =
     (if pol_Disabled p
      then \<lparr>dec_Allowed = False, dec_Rule = None, dec_Reason = Some ReasonPolicyDisabled,
            dec_MatchedRules = []\<rparr>
      else let matched = collect_matches (pol_Rules p) i; names = map rule_Name matched in
        case matched of
          [] \<Rightarrow> \<lparr>dec_Allowed = False, dec_Rule = None, dec_Reason = Some ReasonNoRuleMatched,
                 dec_MatchedRules = []\<rparr>
        | [r] \<Rightarrow> \<lparr>dec_Allowed = True, dec_Rule = Some r, dec_Reason = None,
                 dec_MatchedRules = names\<rparr>
        | _ \<Rightarrow> \<lparr>dec_Allowed = False, dec_Rule = None, dec_Reason = Some ReasonMultipleRules,
                 dec_MatchedRules = names\<rparr>)"

lemma collect_matches_filter: "collect_matches rs i = filter (candidate i) rs"
  by (induction rs i rule: collect_matches.induct) (auto simp: candidate_def)

lemma Evaluate_allowed_filter:
  "dec_Allowed (Evaluate p i) \<and> dec_Rule (Evaluate p i) = Some r \<longleftrightarrow>
     \<not> pol_Disabled p \<and> filter (candidate i) (pol_Rules p) = [r]"
  by (auto simp: Evaluate_def collect_matches_filter Let_def split: list.splits)

lemma Evaluate_rule_iff:
  "dec_Rule (Evaluate p i) = Some r \<longleftrightarrow> \<not> pol_Disabled p \<and> filter (candidate i) (pol_Rules p) = [r]"
  by (auto simp: Evaluate_def collect_matches_filter Let_def split: list.splits)

lemma Evaluate_allowed_rule:
  "dec_Allowed (Evaluate p i) \<Longrightarrow> \<exists>r. dec_Rule (Evaluate p i) = Some r"
  by (auto simp: Evaluate_def Let_def split: list.splits if_splits)

lemma Evaluate_reason:
  "dec_Reason (Evaluate p i) =
     (if pol_Disabled p then Some ReasonPolicyDisabled
      else if length (filter (candidate i) (pol_Rules p)) = 0 then Some ReasonNoRuleMatched
      else if length (filter (candidate i) (pol_Rules p)) = 1 then None
      else Some ReasonMultipleRules)"
  by (auto simp: Evaluate_def collect_matches_filter Let_def split: list.splits)

lemma Evaluate_allowed_iff_reason: "dec_Allowed (Evaluate p i) \<longleftrightarrow> dec_Reason (Evaluate p i) = None"
  by (auto simp: Evaluate_def Let_def split: list.splits)

section \<open>ExplainRule\<close>

datatype explanation =
    NoMatchJWT
  | RuleDisabled
  | IssuerMismatch string string
  | AudienceMismatch string "string list"
  | RepositoryAbsent
  | RepositoryNotString
  | RepositoryNoSlash string
  | OwnerMismatch string string
  | RepoNameMismatch string string
  | ClaimAbsent string
  | ClaimNonString string
  | ClaimMismatch string string string

text \<open>\<open>(true, "")\<close> is \<open>None\<close>; \<open>(false, why)\<close> is \<open>Some why\<close>.\<close>

definition explain_repository :: "JWTMatch \<Rightarrow> Identity \<Rightarrow> explanation option" where
  "explain_repository m i =
     (if jwt_Owner m \<noteq> [] \<or> jwt_RepoName m \<noteq> [] then
        (case id_Claims i ''repository'' of
           None \<Rightarrow> Some RepositoryAbsent
         | Some (AString repo) \<Rightarrow>
             (case Cut (CHR ''/'') repo of
                None \<Rightarrow> Some (RepositoryNoSlash repo)
              | Some (owner, name) \<Rightarrow>
                  if jwt_Owner m \<noteq> [] \<and> jwt_Owner m \<noteq> owner
                  then Some (OwnerMismatch (jwt_Owner m) owner)
                  else if jwt_RepoName m \<noteq> [] \<and> jwt_RepoName m \<noteq> name
                  then Some (RepoNameMismatch (jwt_RepoName m) name)
                  else None)
         | Some _ \<Rightarrow> Some RepositoryNotString)
      else None)"

fun explain_claims :: "(string \<times> string) list \<Rightarrow> claims \<Rightarrow> explanation option" where
  "explain_claims [] cs = None"
| "explain_claims ((claim, want) # ms) cs =
     (case cs claim of
        None \<Rightarrow> Some (ClaimAbsent claim)
      | Some (AString got) \<Rightarrow>
          if got \<noteq> want then Some (ClaimMismatch claim want got) else explain_claims ms cs
      | Some _ \<Rightarrow> Some (ClaimNonString claim))"

definition ExplainRule :: "Rule \<Rightarrow> Identity \<Rightarrow> explanation option" where
  "ExplainRule r i =
     (case match_JWT (rule_Match r) of
        None \<Rightarrow> Some NoMatchJWT
      | Some m \<Rightarrow>
          if \<not> IsEnabled r then Some RuleDisabled
          else if jwt_Issuer m \<noteq> id_Issuer i
          then Some (IssuerMismatch (jwt_Issuer m) (id_Issuer i))
          else if \<not> contains (id_Audiences i) (jwt_Audience m)
          then Some (AudienceMismatch (jwt_Audience m) (id_Audiences i))
          else (case explain_repository m i of
             Some why \<Rightarrow> Some why
           | None \<Rightarrow> explain_claims (jwt_ClaimsExact m) (id_Claims i)))"

lemma explain_repository_None: "explain_repository m i = None \<longleftrightarrow> repository_matches m i"
  by (auto simp: explain_repository_def repository_matches_def string_claim_def
      split: option.splits go_any.splits)

lemma explain_claims_None: "explain_claims ms cs = None \<longleftrightarrow> claims_match ms cs"
  by (induction ms cs rule: explain_claims.induct)
    (auto simp: string_claim_def split: option.splits go_any.splits)

lemma ExplainRule_None_iff: "ExplainRule r i = None \<longleftrightarrow> candidate i r"
  by (auto simp: ExplainRule_def candidate_def ruleMatches_def explain_repository_None [symmetric]
      explain_claims_None split: option.splits)

end
