(* ===== verification/Verifier.thy ===== *)
theory Verifier
  imports TokenTime GoJson GoIO Matching
begin

text \<open>
  \<open>internal/oidc/verifier.go\<close>: the \<open>RemoteVerifier\<close> with its cache of discovered
  providers.  The state is the map of provider entries, with a counter of clock readings and
  a counter of outside interactions; the environment is a record of oracles indexed by those
  counters, so that each reading and each request may give something else.  The library
  \<open>go-oidc\<close> is part of that record; \<open>'p\<close> stands for \<open>*oidc.Provider\<close>.  The interface
  \<open>oidc.Verifier\<close> is the locale \<open>token_verifier\<close>.
\<close>

section \<open>The outside world\<close>

record http_response =
  resp_status :: nat
  resp_body :: body_source

text \<open>\<open>*oidc.IDToken\<close>: the verified issuer and audience, and what \<open>Claims\<close> decodes.\<close>

record id_token =
  tok_Issuer :: string
  tok_Audience :: "string list"
  tok_Claims :: "(string, claims) result"

record verifier_config =
  cfg_SkipClientIDCheck :: bool
  cfg_SkipExpiryCheck :: bool
  cfg_SupportedSigningAlgs :: "string list"

record 'p oidc_env =
  env_clock :: "nat \<Rightarrow> gotime"
  env_new_provider :: "nat \<Rightarrow> string \<Rightarrow> (string, 'p) result"
  env_jwks_uri :: "'p \<Rightarrow> (string, string) result"
  env_bad_url :: "string \<Rightarrow> string option"
  env_http_do :: "nat \<Rightarrow> string \<Rightarrow> (string, http_response) result"
  env_ctx_err :: "nat \<Rightarrow> bool"
  env_verify :: "nat \<Rightarrow> verifier_config \<Rightarrow> 'p \<Rightarrow> string \<Rightarrow> (string, id_token) result"
  env_float_oob :: "float64 \<Rightarrow> 64 word"

section \<open>State\<close>

datatype jwks_error =
    BadRequestURL string | RequestFailed string | BodyReadFailed string
  | UnexpectedStatus nat | NotAJWKS json_error | NoKeysMember

datatype provider_error =
    NewProviderFailed string | DiscoveryDocument string | NoJWKSURI
  | JWKSPreflight string jwks_error

record 'p providerEntry =
  ent_provider :: "'p option"
  ent_fetchedAt :: gotime
  ent_err :: "provider_error option"
  ent_failedAt :: gotime

record 'p verifier_state =
  vs_tick :: nat
  vs_net :: nat
  vs_providers :: "string \<Rightarrow> 'p providerEntry option"

definition zero_time :: gotime where
  "zero_time = \<lparr>t_sec = 0, t_nsec = 0, t_mono = None\<rparr>"

definition empty_entry :: "'p providerEntry" where
  "empty_entry = \<lparr>ent_provider = None, ent_fetchedAt = zero_time, ent_err = None,
     ent_failedAt = zero_time\<rparr>"

definition NewRemoteVerifier :: "'p verifier_state" where
  "NewRemoteVerifier = \<lparr>vs_tick = 0, vs_net = 0, vs_providers = (\<lambda>_. None)\<rparr>"

definition jwksTTL :: duration where
  "jwksTTL = 600000000000"

definition discoveryRetryDelay :: duration where
  "discoveryRetryDelay = 5000000000"

text \<open>The entry of an issuer; an absent one is created empty before it is used.\<close>

definition entry :: "'p verifier_state \<Rightarrow> string \<Rightarrow> 'p providerEntry" where
  "entry s iss = (case vs_providers s iss of Some e \<Rightarrow> e | None \<Rightarrow> empty_entry)"

definition put_entry ::
  "'p verifier_state \<Rightarrow> string \<Rightarrow> 'p providerEntry \<Rightarrow> 'p verifier_state" where
  "put_entry s iss e = s\<lparr>vs_providers := (vs_providers s)(iss \<mapsto> e)\<rparr>"

text \<open>\<open>v.now()\<close>\<close>

definition read_clock :: "'p oidc_env \<Rightarrow> 'p verifier_state \<Rightarrow> gotime \<times> 'p verifier_state" where
  "read_clock env s = (env_clock env (vs_tick s), s\<lparr>vs_tick := vs_tick s + 1\<rparr>)"

text \<open>One interaction with the outside: its number, and the state with the counter moved.\<close>

definition use_net :: "'p verifier_state \<Rightarrow> nat \<times> 'p verifier_state" where
  "use_net s = (vs_net s, s\<lparr>vs_net := vs_net s + 1\<rparr>)"

section \<open>Discovery\<close>

definition jwksMaxResponseBytes :: nat where
  "jwksMaxResponseBytes = 1048576"

definition checkJWKS ::
  "'p oidc_env \<Rightarrow> string \<Rightarrow> 'p verifier_state \<Rightarrow> (jwks_error, unit) result \<times> 'p verifier_state" where
  "checkJWKS env jwksURI s =
     (case env_bad_url env jwksURI of
        Some e \<Rightarrow> (Inl (BadRequestURL e), s)
      | None \<Rightarrow>
          (let (n, s1) = use_net s in
           case env_http_do env n jwksURI of
             Inl e \<Rightarrow> (Inl (RequestFailed e), s1)
           | Inr resp \<Rightarrow>
               (case read_limited jwksMaxResponseBytes (resp_body resp) of
                  (body, Some e) \<Rightarrow> (Inl (BodyReadFailed e), s1)
                | (body, None) \<Rightarrow>
                    if resp_status resp \<noteq> 200 then (Inl (UnexpectedStatus (resp_status resp)), s1)
                    else (case decode_raw_list_field ''keys'' body of
                        Inl e \<Rightarrow> (Inl (NotAJWKS e), s1)
                      | Inr None \<Rightarrow> (Inl NoKeysMember, s1)
                      | Inr (Some ks) \<Rightarrow> (Inr (), s1)))))"

definition discoverProvider ::
  "'p oidc_env \<Rightarrow> string \<Rightarrow> 'p verifier_state \<Rightarrow> (provider_error, 'p) result \<times> 'p verifier_state" where
  "discoverProvider env iss s =
     (let (n, s1) = use_net s in
      case env_new_provider env n iss of
        Inl e \<Rightarrow> (Inl (NewProviderFailed e), s1)
      | Inr p \<Rightarrow>
          (case env_jwks_uri env p of
             Inl e \<Rightarrow> (Inl (DiscoveryDocument e), s1)
           | Inr uri \<Rightarrow>
               if uri = [] then (Inl NoJWKSURI, s1)
               else (case checkJWKS env uri s1 of
                   (Inl e, s2) \<Rightarrow> (Inl (JWKSPreflight uri e), s2)
                 | (Inr u, s2) \<Rightarrow> (Inr p, s2))))"

section \<open>provider\<close>

text \<open>The two conditions, each with the clock reading that Go's \<open>&&\<close> evaluates last.\<close>

definition cache_fresh ::
  "'p oidc_env \<Rightarrow> 'p providerEntry \<Rightarrow> 'p verifier_state \<Rightarrow> bool \<times> 'p verifier_state" where
  "cache_fresh env e s =
     (if ent_provider e = None then (False, s)
      else let (t, s') = read_clock env s in
        (sint (Sub t (ent_fetchedAt e)) < sint jwksTTL, s'))"

definition backing_off ::
  "'p oidc_env \<Rightarrow> 'p providerEntry \<Rightarrow> 'p verifier_state \<Rightarrow> bool \<times> 'p verifier_state" where
  "backing_off env e s =
     (if ent_err e = None then (False, s)
      else let (t, s') = read_clock env s in
        (sint (Sub t (ent_failedAt e)) < sint discoveryRetryDelay, s'))"

text \<open>The refresh at the end of \<open>provider\<close>.\<close>

definition refresh ::
  "'p oidc_env \<Rightarrow> string \<Rightarrow> 'p providerEntry \<Rightarrow> 'p verifier_state
   \<Rightarrow> (provider_error, 'p) result \<times> 'p verifier_state" where
  "refresh env iss e s =
     (case discoverProvider env iss s of
        (Inl err, s1) \<Rightarrow>
          (let (e', s2) =
             (if \<not> env_ctx_err env (vs_net s1)
              then (let (t, s2) = read_clock env s1 in
                     (e\<lparr>ent_err := Some err, ent_failedAt := t\<rparr>, s2))
              else (e, s1));
               s3 = put_entry s2 iss e' in
           case ent_provider e' of
             Some q \<Rightarrow> (Inr q, s3)
           | None \<Rightarrow> (Inl err, s3))
      | (Inr p, s1) \<Rightarrow>
          (let (t, s2) = read_clock env s1 in
           (Inr p, put_entry s2 iss
              (e\<lparr>ent_provider := Some p, ent_fetchedAt := t, ent_err := None\<rparr>))))"

definition provider ::
  "'p oidc_env \<Rightarrow> string \<Rightarrow> 'p verifier_state
   \<Rightarrow> (provider_error, 'p) result \<times> 'p verifier_state" where
  "provider env iss s =
     (let e = entry s iss; s0 = put_entry s iss e; (fresh, s1) = cache_fresh env e s0 in
      if fresh then (Inr (the (ent_provider e)), s1)
      else let (wait, s2) = backing_off env e s1 in
        if wait then
          (case ent_provider e of
             Some q \<Rightarrow> (Inr q, s2)
           | None \<Rightarrow> (Inl (the (ent_err e)), s2))
        else refresh env iss e s2)"

section \<open>Verify\<close>

datatype verify_error =
    NotAJWT | PayloadNotDecodable | NoIssClaim | IssuerNotReferenced string
  | DiscoveryFailed string provider_error | TokenVerification string | DecodeClaims string
  | TimeClaims time_error

definition unverifiedIssuer :: "string \<Rightarrow> (verify_error, string) result" where
  "unverifiedIssuer rawToken =
     (let parts = Split (CHR ''.'') rawToken in
      if length parts \<noteq> 3 then Inl NotAJWT
      else case DecodeString (parts ! 1) of
        None \<Rightarrow> Inl PayloadNotDecodable
      | Some payload \<Rightarrow>
          (case decode_string_field ''iss'' payload of
             Inl e \<Rightarrow> Inl NoIssClaim
           | Inr iss \<Rightarrow> if iss = [] then Inl NoIssClaim else Inr iss))"

fun containsString :: "string list \<Rightarrow> string \<Rightarrow> bool" where
  "containsString [] s = False"
| "containsString (v # vs) s = (if v = s then True else containsString vs s)"

lemma containsString_iff [simp]: "containsString xs s \<longleftrightarrow> s \<in> set xs"
  by (induction xs) auto

definition rs256_config :: verifier_config where
  "rs256_config = \<lparr>cfg_SkipClientIDCheck = True, cfg_SkipExpiryCheck = True,
     cfg_SupportedSigningAlgs = [''RS256'']\<rparr>"

definition Verify ::
  "'p oidc_env \<Rightarrow> 'p verifier_state \<Rightarrow> string \<Rightarrow> string list
   \<Rightarrow> (verify_error, Identity) result \<times> 'p verifier_state" where
  "Verify env s rawToken allowedIssuers =
     (case unverifiedIssuer rawToken of
        Inl e \<Rightarrow> (Inl e, s)
      | Inr iss \<Rightarrow>
          if \<not> containsString allowedIssuers iss then (Inl (IssuerNotReferenced iss), s)
          else (case provider env iss s of
              (Inl e, s1) \<Rightarrow> (Inl (DiscoveryFailed iss e), s1)
            | (Inr p, s1) \<Rightarrow>
                (let (n, s2) = use_net s1 in
                 case env_verify env n rs256_config p rawToken of
                   Inl e \<Rightarrow> (Inl (TokenVerification e), s2)
                 | Inr tok \<Rightarrow>
                     (case tok_Claims tok of
                        Inl e \<Rightarrow> (Inl (DecodeClaims e), s2)
                      | Inr cs \<Rightarrow>
                          (let (t, s3) = read_clock env s2 in
                           case checkTimeClaims (env_float_oob env) cs t of
                             Inl e \<Rightarrow> (Inl (TimeClaims e), s3)
                           | Inr u \<Rightarrow> (Inr \<lparr>id_Issuer = tok_Issuer tok,
                               id_Audiences = tok_Audience tok, id_Claims = cs\<rparr>, s3))))))"

section \<open>What discovery and the cache guarantee\<close>

text \<open>A provider that some discovery for this issuer gave, with a usable JWKS address.\<close>

definition obtained :: "'p oidc_env \<Rightarrow> string \<Rightarrow> 'p \<Rightarrow> bool" where
  "obtained env iss p \<longleftrightarrow>
     (\<exists>n uri. env_new_provider env n iss = Inr p \<and> env_jwks_uri env p = Inr uri \<and> uri \<noteq> [])"

definition cache_inv :: "'p oidc_env \<Rightarrow> 'p verifier_state \<Rightarrow> bool" where
  "cache_inv env s \<longleftrightarrow>
     (\<forall>iss e p. vs_providers s iss = Some e \<longrightarrow> ent_provider e = Some p \<longrightarrow> obtained env iss p)"

lemma entry_put [simp]:
  "entry (put_entry s iss e) iss = e"
  "iss' \<noteq> iss \<Longrightarrow> entry (put_entry s iss e) iss' = entry s iss'"
  "iss' \<noteq> iss \<Longrightarrow> vs_providers (put_entry s iss e) iss' = vs_providers s iss'"
  "vs_net (put_entry s iss e) = vs_net s" "vs_tick (put_entry s iss e) = vs_tick s"
  by (simp_all add: entry_def put_entry_def)

lemma put_entry_twice [simp]: "put_entry (put_entry s iss e) iss e' = put_entry s iss e'"
  by (simp add: put_entry_def)

lemma read_clock_simps [simp]:
  "read_clock env s = (t, s') \<longleftrightarrow> t = env_clock env (vs_tick s) \<and> s' = s\<lparr>vs_tick := vs_tick s + 1\<rparr>"
  by (auto simp: read_clock_def)

lemma use_net_simps [simp]:
  "use_net s = (n, s') \<longleftrightarrow> n = vs_net s \<and> s' = s\<lparr>vs_net := vs_net s + 1\<rparr>"
  by (auto simp: use_net_def)

lemma entry_update [simp]:
  "entry (s\<lparr>vs_tick := a\<rparr>) iss = entry s iss" "entry (s\<lparr>vs_net := a\<rparr>) iss = entry s iss"
  by (simp_all add: entry_def)

lemma cache_inv_update [simp]:
  "cache_inv env (s\<lparr>vs_tick := a\<rparr>) = cache_inv env s"
  "cache_inv env (s\<lparr>vs_net := a\<rparr>) = cache_inv env s"
  by (simp_all add: cache_inv_def)

lemma cache_inv_entry: "cache_inv env s \<Longrightarrow> ent_provider (entry s iss) = Some p \<Longrightarrow> obtained env iss p"
  by (auto simp: cache_inv_def entry_def empty_entry_def split: option.splits)

lemma cache_inv_init: "cache_inv env NewRemoteVerifier"
  by (simp add: cache_inv_def NewRemoteVerifier_def)

lemma checkJWKS_state:
  "checkJWKS env uri s = (r, s') \<Longrightarrow>
     vs_providers s' = vs_providers s \<and> vs_tick s' = vs_tick s
     \<and> vs_net s \<le> vs_net s' \<and> vs_net s' \<le> vs_net s + 1"
  by (auto simp: checkJWKS_def use_net_def split: option.splits sum.splits prod.splits if_splits)

lemma discoverProvider_state:
  "discoverProvider env iss s = (r, s') \<Longrightarrow>
     vs_providers s' = vs_providers s \<and> vs_tick s' = vs_tick s
     \<and> vs_net s < vs_net s' \<and> vs_net s' \<le> vs_net s + 2"
  by (auto simp: discoverProvider_def use_net_def dest!: checkJWKS_state
      split: sum.splits prod.splits if_splits)

lemma discoverProvider_obtained:
  "discoverProvider env iss s = (Inr p, s') \<Longrightarrow> obtained env iss p"
  unfolding obtained_def
  by (auto simp: discoverProvider_def use_net_def split: sum.splits prod.splits if_splits)

lemma cache_fresh_state:
  "cache_fresh env e s = (b, s') \<Longrightarrow> s' = s \<or> s' = s\<lparr>vs_tick := vs_tick s + 1\<rparr>"
  by (auto simp: cache_fresh_def read_clock_def split: if_splits)

lemma backing_off_state:
  "backing_off env e s = (b, s') \<Longrightarrow> s' = s \<or> s' = s\<lparr>vs_tick := vs_tick s + 1\<rparr>"
  by (auto simp: backing_off_def read_clock_def split: if_splits)

text \<open>The three ways \<open>provider\<close> ends, with what each leaves behind.\<close>

definition same_cache :: "string \<Rightarrow> 'p verifier_state \<Rightarrow> 'p verifier_state \<Rightarrow> bool" where
  "same_cache iss s s' \<longleftrightarrow> vs_net s' = vs_net s
     \<and> vs_providers s' = (vs_providers s)(iss \<mapsto> entry s iss)"

lemma provider_cases [consumes 1, case_names fresh backoff refresh]:
  assumes "provider env iss s = (r, s')"
  obtains
    p where "ent_provider (entry s iss) = Some p" and "r = Inr p" and "same_cache iss s s'"
      and "sint (Sub (env_clock env (vs_tick s)) (ent_fetchedAt (entry s iss))) < sint jwksTTL"
  | err k where "ent_err (entry s iss) = Some err" and "same_cache iss s s'"
      and "vs_tick s \<le> k"
      and "sint (Sub (env_clock env k) (ent_failedAt (entry s iss))) < sint discoveryRetryDelay"
      and "r = (case ent_provider (entry s iss) of Some q \<Rightarrow> Inr q | None \<Rightarrow> Inl err)"
  | s2 where "same_cache iss s s2" and "refresh env iss (entry s iss) s2 = (r, s')"
      and "ent_provider (entry s iss) = None
        \<or> \<not> sint (Sub (env_clock env (vs_tick s)) (ent_fetchedAt (entry s iss))) < sint jwksTTL"
proof -
  define e s0 where "e = entry s iss" and "s0 = put_entry s iss e"
  obtain b s1 where c: "cache_fresh env e s0 = (b, s1)" by (cases "cache_fresh env e s0")
  obtain w s2 where d: "backing_off env e s1 = (w, s2)" by (cases "backing_off env e s1")
  have s1: "same_cache iss s s1" "vs_tick s \<le> vs_tick s1"
    using cache_fresh_state [OF c] by (auto simp: same_cache_def s0_def e_def put_entry_def)
  have s2: "same_cache iss s s2"
    using backing_off_state [OF d] s1 by (auto simp: same_cache_def)
  have not_fresh: "\<not> b \<Longrightarrow> ent_provider (entry s iss) = None
        \<or> \<not> sint (Sub (env_clock env (vs_tick s)) (ent_fetchedAt (entry s iss))) < sint jwksTTL"
    using c by (auto simp: cache_fresh_def read_clock_def e_def s0_def split: if_splits)
  show thesis
  proof (cases b)
    case True
    with c obtain p where "ent_provider e = Some p"
      "sint (Sub (env_clock env (vs_tick s)) (ent_fetchedAt e)) < sint jwksTTL"
      by (auto simp: cache_fresh_def read_clock_def s0_def split: if_splits)
    with True assms s1 c that(1) show ?thesis
      by (auto simp: provider_def Let_def e_def s0_def)
  next
    case nb: False
    show ?thesis
    proof (cases w)
      case True
      with d obtain err where "ent_err e = Some err"
        "sint (Sub (env_clock env (vs_tick s1)) (ent_failedAt e)) < sint discoveryRetryDelay"
        by (auto simp: backing_off_def read_clock_def split: if_splits)
      with True nb assms s1 s2 c d that(2) [of err "vs_tick s1"] show ?thesis
        by (auto simp: provider_def Let_def e_def s0_def split: option.splits)
    next
      case False
      with nb assms c d that(3) [OF s2 _ not_fresh] show ?thesis
        by (auto simp: provider_def Let_def e_def s0_def)
    qed
  qed
qed

lemma same_cache_entry: "same_cache iss s s' \<Longrightarrow> entry s' i = entry s i"
  by (auto simp: same_cache_def entry_def split: option.splits)

lemma same_cache_inv: "same_cache iss s s' \<Longrightarrow> cache_inv env s \<Longrightarrow> cache_inv env s'"
  using cache_inv_entry [of env s iss] by (auto simp: same_cache_def cache_inv_def)

lemma refresh_cases [consumes 1, case_names fail success]:
  assumes "refresh env iss e s = (r, s')"
  obtains
    err e' where "fst (discoverProvider env iss s) = Inl err"
      and "entry s' iss = e'" and "ent_provider e' = ent_provider e"
      and "ent_fetchedAt e' = ent_fetchedAt e"
      and "e' = e \<or> ent_err e' = Some err"
      and "r = (case ent_provider e of Some q \<Rightarrow> Inr q | None \<Rightarrow> Inl err)"
  | p where "fst (discoverProvider env iss s) = Inr p" and "obtained env iss p" and "r = Inr p"
      and "ent_provider (entry s' iss) = Some p" and "ent_err (entry s' iss) = None"
      and "ent_fetchedAt (entry s' iss) = env_clock env (vs_tick s)"
proof -
  obtain d s1 where d: "discoverProvider env iss s = (d, s1)" by (cases "discoverProvider env iss s")
  show thesis
  proof (cases d)
    case (Inl err)
    define t where "t = env_clock env (vs_tick s1)"
    define e' where "e' = (if env_ctx_err env (vs_net s1) then e
      else e\<lparr>ent_err := Some err, ent_failedAt := t\<rparr>)"
    have e': "ent_provider e' = ent_provider e" "ent_fetchedAt e' = ent_fetchedAt e"
      "e' = e \<or> ent_err e' = Some err"
      by (simp_all add: e'_def)
    have "entry s' iss = e' \<and> r = (case ent_provider e of Some q \<Rightarrow> Inr q | None \<Rightarrow> Inl err)"
      using assms d Inl
      by (cases "ent_provider e"; cases "env_ctx_err env (vs_net s1)")
        (auto simp: refresh_def read_clock_def e'_def t_def)
    with that(1) [of err e'] e' d Inl show ?thesis by simp
  next
    case (Inr p)
    have "obtained env iss p"
      by (rule discoverProvider_obtained [OF d [unfolded Inr]])
    moreover have "vs_tick s1 = vs_tick s"
      using discoverProvider_state [OF d] by simp
    moreover have "r = Inr p \<and> entry s' iss
        = e\<lparr>ent_provider := Some p, ent_fetchedAt := env_clock env (vs_tick s1), ent_err := None\<rparr>"
      using assms d Inr by (auto simp: refresh_def read_clock_def)
    ultimately show ?thesis using that(2) [of p] d Inr by simp
  qed
qed

lemma refresh_other:
  assumes "refresh env iss e s = (r, s')" and "i \<noteq> iss"
  shows "vs_providers s' i = vs_providers s i"
proof -
  obtain d s1 where d: "discoverProvider env iss s = (d, s1)" by (cases "discoverProvider env iss s")
  with discoverProvider_state have "vs_providers s1 = vs_providers s" by blast
  with assms d show ?thesis
    by (cases d) (auto simp: refresh_def read_clock_def Let_def put_entry_def
        split: if_splits option.splits)
qed

lemma refresh_inv:
  assumes "refresh env iss e s = (r, s')" and "cache_inv env s"
    and "\<And>p. ent_provider e = Some p \<Longrightarrow> obtained env iss p"
  shows "cache_inv env s'"
proof -
  have "obtained env i p" if "vs_providers s' i = Some f" "ent_provider f = Some p" for i f p
  proof (cases "i = iss")
    case False
    with that refresh_other [OF assms(1)] assms(2) show ?thesis by (auto simp: cache_inv_def)
  next
    case True
    with that have "ent_provider (entry s' iss) = Some p" by (simp add: entry_def)
    with assms(1,3) True show ?thesis by (cases rule: refresh_cases) auto
  qed
  then show ?thesis by (auto simp: cache_inv_def)
qed

lemma refresh_obtained:
  assumes "refresh env iss e s = (Inr p, s')" and "\<And>q. ent_provider e = Some q \<Longrightarrow> obtained env iss q"
  shows "obtained env iss p"
  using assms by (cases rule: refresh_cases) (auto split: option.splits)

lemma provider_inv:
  assumes "provider env iss s = (r, s')" and "cache_inv env s"
  shows "cache_inv env s'"
  using assms(1)
proof (cases rule: provider_cases)
  case (refresh s2)
  then show ?thesis
    using refresh_inv [OF refresh(2)] same_cache_inv [OF refresh(1) assms(2)]
      cache_inv_entry [OF assms(2)] by blast
qed (use assms(2) same_cache_inv in blast)+

lemma provider_obtained:
  assumes "provider env iss s = (Inr p, s')" and "cache_inv env s"
  shows "obtained env iss p"
  using assms(1)
proof (cases rule: provider_cases)
  case (refresh s2)
  show ?thesis
    by (rule refresh_obtained [OF refresh(2)]) (rule cache_inv_entry [OF assms(2)])
qed (use cache_inv_entry [OF assms(2)] in \<open>auto split: option.splits\<close>)

lemma provider_other:
  assumes "provider env iss s = (r, s')" and "i \<noteq> iss"
  shows "vs_providers s' i = vs_providers s i"
  using assms(1)
proof (cases rule: provider_cases)
  case (refresh s2)
  then show ?thesis using refresh_other [OF refresh(2) assms(2)] assms(2)
    by (simp add: same_cache_def)
qed (use assms(2) in \<open>auto simp: same_cache_def\<close>)

text \<open>A provider once fetched keeps serving: the call succeeds and the entry keeps one.\<close>

lemma provider_keeps:
  assumes "provider env iss s = (r, s')" and "ent_provider (entry s iss) = Some q"
  shows "(\<exists>p. r = Inr p) \<and> (\<exists>p. ent_provider (entry s' iss) = Some p)"
  using assms(1)
proof (cases rule: provider_cases)
  case (refresh s2)
  from refresh(2) assms(2) show ?thesis by (cases rule: refresh_cases) auto
qed (use assms(2) in \<open>auto simp: same_cache_entry\<close>)

section \<open>The contract of a verifier\<close>

definition authentic :: "'p oidc_env \<Rightarrow> string \<Rightarrow> Identity \<Rightarrow> bool" where
  "authentic env raw i \<longleftrightarrow>
     (\<exists>iss p n m tok. unverifiedIssuer raw = Inr iss \<and> obtained env iss p
        \<and> env_verify env n rs256_config p raw = Inr tok
        \<and> tok_Claims tok = Inr (id_Claims i) \<and> id_Issuer i = tok_Issuer tok
        \<and> id_Audiences i = tok_Audience tok
        \<and> checkTimeClaims (env_float_oob env) (id_Claims i) (env_clock env m) = Inr ())"

locale token_verifier =
  fixes verify :: "'vs \<Rightarrow> string \<Rightarrow> string list \<Rightarrow> (verify_error, Identity) result \<times> 'vs"
    and inv :: "'vs \<Rightarrow> bool"
    and auth :: "string \<Rightarrow> Identity \<Rightarrow> bool"
  assumes verify_inv: "inv s \<Longrightarrow> verify s raw allowed = (r, s') \<Longrightarrow> inv s'"
    and verify_auth: "inv s \<Longrightarrow> verify s raw allowed = (Inr i, s') \<Longrightarrow> auth raw i"
    and verify_gate: "verify s raw allowed = (Inr i, s') \<Longrightarrow>
      \<exists>iss \<in> set allowed. unverifiedIssuer raw = Inr iss"

lemma Verify_inv:
  "Verify env s raw allowed = (r, s') \<Longrightarrow> cache_inv env s \<Longrightarrow> cache_inv env s'"
  by (auto simp: Verify_def Let_def use_net_def read_clock_def dest!: provider_inv
      split: sum.splits prod.splits if_splits)

lemma Verify_auth:
  assumes "Verify env s raw allowed = (Inr i, s')" and "cache_inv env s"
  shows "authentic env raw i"
proof -
  obtain iss p s1 tok m where iss: "unverifiedIssuer raw = Inr iss"
    and p: "provider env iss s = (Inr p, s1)"
    and tok: "env_verify env (vs_net s1) rs256_config p raw = Inr tok"
    and cs: "tok_Claims tok = Inr (id_Claims i)"
    and tm: "checkTimeClaims (env_float_oob env) (id_Claims i) (env_clock env m) = Inr ()"
    and i: "id_Issuer i = tok_Issuer tok" "id_Audiences i = tok_Audience tok"
    using assms(1)
    by (auto simp: Verify_def Let_def use_net_def read_clock_def
        split: sum.splits prod.splits if_splits)
  from provider_obtained [OF p assms(2)] iss tok cs tm i show ?thesis
    unfolding authentic_def by blast
qed

lemma Verify_gate:
  "Verify env s raw allowed = (Inr i, s') \<Longrightarrow> \<exists>iss \<in> set allowed. unverifiedIssuer raw = Inr iss"
  by (auto simp: Verify_def split: sum.splits if_splits)

interpretation remote: token_verifier "Verify env" "cache_inv env" "authentic env" for env
  by unfold_locales (auto intro: Verify_inv Verify_auth Verify_gate)

end
