(* ===== verification/AuditLog.thy ===== *)
theory AuditLog
  imports PolicyModel
begin

text \<open>
  \<open>internal/audit/audit.go\<close>: the structured log.  \<open>slog\<close> reads the argument list as
  alternating keys and values, so an event carries a list of pairs; the log is the list of
  events written so far.  \<open>'d\<close> is the type of the operator-only details (the errors).
\<close>

datatype 'd attr_value = AttrString string | AttrStrings "string list" | AttrInt go_int | AttrBool bool
  | AttrDetail 'd

type_synonym 'd attrs = "(string \<times> 'd attr_value) list"

datatype level = LevelInfo | LevelWarn | LevelError

text \<open>\<open>slog\<close> orders the levels by their numbers.\<close>

fun severity :: "level \<Rightarrow> int" where
  "severity LevelInfo = 0" | "severity LevelWarn = 4" | "severity LevelError = 8"

lemma severity_inject: "severity a = severity b \<Longrightarrow> a = b"
  by (cases a; cases b) simp_all

instantiation level :: linorder
begin

definition less_eq_level :: "level \<Rightarrow> level \<Rightarrow> bool" where
  "less_eq_level a b \<longleftrightarrow> severity a \<le> severity b"

definition less_level :: "level \<Rightarrow> level \<Rightarrow> bool" where
  "less_level a b \<longleftrightarrow> severity a < severity b"

instance
  by standard (auto simp: less_eq_level_def less_level_def intro: severity_inject)

end

record 'd event =
  ev_level :: level
  ev_msg :: string
  ev_attrs :: "'d attrs"

type_synonym 'd log = "'d event list"

definition EventIssued :: string where
  "EventIssued = ''certificate_issued''"

definition EventDenied :: string where
  "EventDenied = ''certificate_denied''"

text \<open>\<open>audit.New\<close>: nothing is written yet.\<close>

definition NewLogger :: "'d log" where
  "NewLogger = []"

definition log_event :: "level \<Rightarrow> string \<Rightarrow> 'd attrs \<Rightarrow> 'd log \<Rightarrow> 'd log" where
  "log_event l msg attrs log = log @ [\<lparr>ev_level = l, ev_msg = msg, ev_attrs = attrs\<rparr>]"

definition Issued :: "string \<Rightarrow> 'd attrs \<Rightarrow> 'd log \<Rightarrow> 'd log" where
  "Issued requestID attrs =
     log_event LevelInfo EventIssued
       ([(''event'', AttrString EventIssued), (''request_id'', AttrString requestID)] @ attrs)"

definition Denied :: "string \<Rightarrow> string \<Rightarrow> 'd \<Rightarrow> 'd attrs \<Rightarrow> 'd log \<Rightarrow> 'd log" where
  "Denied requestID reason detail attrs =
     log_event LevelWarn EventDenied
       ([(''event'', AttrString EventDenied), (''request_id'', AttrString requestID),
         (''reason'', AttrString reason), (''detail'', AttrDetail detail)] @ attrs)"

definition log_error :: "string \<Rightarrow> 'd attrs \<Rightarrow> 'd log \<Rightarrow> 'd log" where
  "log_error = log_event LevelError"

definition log_info :: "string \<Rightarrow> 'd attrs \<Rightarrow> 'd log \<Rightarrow> 'd log" where
  "log_info = log_event LevelInfo"

definition log_warn :: "string \<Rightarrow> 'd attrs \<Rightarrow> 'd log \<Rightarrow> 'd log" where
  "log_warn = log_event LevelWarn"

text \<open>The first value under a key.\<close>

definition attr :: "'d event \<Rightarrow> string \<Rightarrow> 'd attr_value option" where
  "attr e k = map_of (ev_attrs e) k"

lemma Issued_event:
  "\<exists>e. Issued rid attrs log = log @ [e] \<and> ev_msg e = EventIssued
     \<and> attr e ''request_id'' = Some (AttrString rid)
     \<and> (\<forall>k v. k \<noteq> ''event'' \<longrightarrow> k \<noteq> ''request_id'' \<longrightarrow> map_of attrs k = Some v \<longrightarrow> attr e k = Some v)"
  by (simp add: Issued_def log_event_def attr_def)

lemma Denied_event:
  "\<exists>e. Denied rid reason d attrs log = log @ [e] \<and> ev_msg e = EventDenied \<and> LevelInfo < ev_level e
     \<and> attr e ''request_id'' = Some (AttrString rid)
     \<and> attr e ''reason'' = Some (AttrString reason) \<and> attr e ''detail'' = Some (AttrDetail d)"
  by (simp add: Denied_def log_event_def attr_def less_level_def)

end
