(* ===== verification/Server.thy ===== *)
theory Server
  imports Issuer Verifier AuditLog
begin

text \<open>
  \<open>internal/server/server.go\<close>: the signing pipeline behind \<open>POST /sign\<close> and the HTTP
  handlers.  A server is a record of its collaborators (signer, verifier, clock, randomness)
  and a state (active policy, verifier cache, audit log, positions in the two oracles).  The
  early returns of \<open>Sign\<close> are denials, which \<open>deny\<close> logs and answers.  What the pipeline
  guarantees is proved in the locale \<open>signing_server\<close> from the contracts of the two
  interfaces alone, and instantiated with \<open>memorySigner\<close> and \<open>RemoteVerifier\<close>.
\<close>

section \<open>Constants\<close>

definition MaxRequestBody :: nat where
  "MaxRequestBody = 16 * 1024"

definition reasonBadRequest :: string where "reasonBadRequest = ''bad_request''"
definition reasonInvalidPublicKey :: string where "reasonInvalidPublicKey = ''invalid_public_key''"
definition reasonMissingToken :: string where "reasonMissingToken = ''missing_token''"
definition reasonTokenInvalid :: string where "reasonTokenInvalid = ''token_invalid''"
definition reasonKeyIDInvalid :: string where "reasonKeyIDInvalid = ''key_id_invalid''"
definition reasonSigningError :: string where "reasonSigningError = ''signing_error''"

fun reason_code :: "reason \<Rightarrow> string" where
  "reason_code ReasonPolicyDisabled = ''policy_disabled''"
| "reason_code ReasonNoRuleMatched = ''no_rule_matched''"
| "reason_code ReasonMultipleRules = ''multiple_rules_matched''"

definition auditedClaims :: "string list" where
  "auditedClaims = [''sub'', ''repository'', ''ref'', ''environment'', ''event_name'',
     ''job_workflow_ref'', ''workflow'', ''actor'', ''run_id'', ''run_attempt'']"

section \<open>Data\<close>

text \<open>The operator-only detail of a denial: the error that caused it.\<close>

datatype detail =
    MethodNotAllowed string | PolicyIsDisabled | BodyTooLarge | BodyNotJSON json_error
  | PublicKeyRejected pubkey_error | NoBearerToken | VerifierRejected verify_error
  | NotAuthorized reason | RulesAllMatched "string list" | KeyIDRejected key_id_error
  | IssueFailed issue_error | ReloadFailed load_error

record Response =
  rsp_Status :: nat
  rsp_ContentType :: string
  rsp_Body :: string
  rsp_RequestID :: string

record ('pk, 'sk, 'vs) server_env =
  sv_lib :: "('pk, 'sk) ssh_lib"
  sv_sign :: "nat \<Rightarrow> 'pk ssh_cert \<Rightarrow> (string, 'pk ssh_cert) result"
  sv_ca_key :: 'pk
  sv_verify :: "'vs \<Rightarrow> string \<Rightarrow> string list \<Rightarrow> (verify_error, Identity) result \<times> 'vs"
  sv_rand :: rand
  sv_clock :: "nat \<Rightarrow> gotime"

record 'vs server_state =
  st_policy :: Policy
  st_verifier :: 'vs
  st_audit :: "detail log"
  st_rand :: nat
  st_tick :: nat

definition SetPolicy :: "Policy \<Rightarrow> 'vs server_state \<Rightarrow> 'vs server_state" where
  "SetPolicy p s = s\<lparr>st_policy := p\<rparr>"

definition ActivePolicy :: "'vs server_state \<Rightarrow> Policy" where
  "ActivePolicy s = st_policy s"

definition New :: "Policy \<Rightarrow> 'vs \<Rightarrow> detail log \<Rightarrow> 'vs server_state" where
  "New p v a =
     \<lparr>st_policy = p, st_verifier = v, st_audit = a, st_rand = 0, st_tick = 0\<rparr>"

text \<open>The arguments of a call of \<open>deny\<close> after the request id.\<close>

datatype denial = Denial (den_status: nat) (den_reason: string) (den_detail: detail)
    (den_attrs: "detail attrs")

section \<open>Helpers\<close>

definition bearerToken :: "string \<Rightarrow> string option" where
  "bearerToken authHeader =
     (if \<not> HasPrefix authHeader ''Bearer '' \<or> length authHeader = length ''Bearer '' then None
      else Some (drop (length ''Bearer '') authHeader))"

definition identityAttrs :: "Identity \<Rightarrow> detail attrs" where
  "identityAttrs i = (''issuer'', AttrString (id_Issuer i)) #
     concat (map (\<lambda>name. case string_claim (id_Claims i) name of
        Some v \<Rightarrow> [(name, AttrString v)] | None \<Rightarrow> []) auditedClaims)"

definition newRequestID ::
  "('pk, 'sk, 'v) server_env \<Rightarrow> 'vs server_state \<Rightarrow> string \<times> 'vs server_state" where
  "newRequestID env s =
     ((case sv_rand env (st_rand s) of
         None \<Rightarrow> ''unknown''
       | Some b \<Rightarrow> EncodeToString (eight_bytes b)),
      s\<lparr>st_rand := st_rand s + 1\<rparr>)"

definition denied_body :: "string \<Rightarrow> string" where
  "denied_body requestID =
     marshal_map
       [(''error'', ''certificate request denied; contact your administrator with the request_id''),
        (''request_id'', requestID)] @ [CHR 0x0A]"

definition deny ::
  "'vs server_state \<Rightarrow> string \<Rightarrow> denial \<Rightarrow> Response \<times> 'vs server_state" where
  "deny s requestID d =
     (\<lparr>rsp_Status = den_status d, rsp_ContentType = ''application/json'',
       rsp_Body = denied_body requestID, rsp_RequestID = requestID\<rparr>,
      s\<lparr>st_audit := Denied requestID (den_reason d) (den_detail d) (den_attrs d) (st_audit s)\<rparr>)"

section \<open>Sign\<close>

text \<open>Up to the public key: no token has been looked at.\<close>

definition check_request ::
  "('pk, 'sk) ssh_lib \<Rightarrow> Policy \<Rightarrow> string \<Rightarrow> string \<Rightarrow> (denial, 'pk) result" where
  "check_request lib pol meth body =
     (if meth \<noteq> ''POST''
      then Inl (Denial 405 reasonBadRequest (MethodNotAllowed meth) [])
      else if pol_Disabled pol
      then Inl (Denial 503 (reason_code ReasonPolicyDisabled) PolicyIsDisabled [])
      else if length body > MaxRequestBody
      then Inl (Denial 400 reasonBadRequest BodyTooLarge [])
      else case decode_string_field ''public_key'' body of
        Inl e \<Rightarrow> Inl (Denial 400 reasonBadRequest (BodyNotJSON e) [])
      | Inr raw \<Rightarrow>
          (case ValidatePublicKey lib raw (AllowedPublicKeyTypes pol) of
             Inl e \<Rightarrow> Inl (Denial 400 reasonInvalidPublicKey (PublicKeyRejected e) [])
           | Inr pub \<Rightarrow> Inr pub))"

definition key_attrs :: "('pk, 'sk) ssh_lib \<Rightarrow> 'pk \<Rightarrow> detail attrs" where
  "key_attrs lib pub =
     [(''public_key_fingerprint'', AttrString (lib_FingerprintSHA256 lib pub)),
      (''key_type'', AttrString (lib_Type lib pub))]"

text \<open>The bearer token and its verification.\<close>

definition authenticate ::
  "('pk, 'sk, 'vs) server_env \<Rightarrow> Policy \<Rightarrow> string \<Rightarrow> detail attrs \<Rightarrow> 'vs server_state
   \<Rightarrow> (denial, Identity) result \<times> 'vs server_state" where
  "authenticate env pol authHeader keyAttrs s =
     (case bearerToken authHeader of
        None \<Rightarrow> (Inl (Denial 401 reasonMissingToken NoBearerToken keyAttrs), s)
      | Some rawToken \<Rightarrow>
          (case sv_verify env (st_verifier s) rawToken (Issuers pol) of
             (r, v) \<Rightarrow>
               ((case r of
                   Inl e \<Rightarrow> Inl (Denial 401 reasonTokenInvalid (VerifierRejected e) keyAttrs)
                 | Inr i \<Rightarrow> Inr i),
                s\<lparr>st_verifier := v\<rparr>)))"

text \<open>Exactly one matching rule, and a Key ID from its template.\<close>

definition authorize ::
  "Policy \<Rightarrow> Identity \<Rightarrow> detail attrs \<Rightarrow> (denial, Rule \<times> string) result" where
  "authorize pol i claimAttrs =
     (let decision = Evaluate pol i in
      if \<not> dec_Allowed decision then
        (let reason = the (dec_Reason decision);
             status = (if reason = ReasonPolicyDisabled then 503 else 403);
             det = (if length (dec_MatchedRules decision) > 1
                    then RulesAllMatched (dec_MatchedRules decision) else NotAuthorized reason)
         in Inl (Denial status (reason_code reason) det claimAttrs))
      else
        (let rule = the (dec_Rule decision) in
         case ExpandKeyID (KeyIDTemplateFor pol rule) (id_Claims i) of
           Inl e \<Rightarrow> Inl (Denial 403 reasonKeyIDInvalid (KeyIDRejected e) claimAttrs)
         | Inr keyID \<Rightarrow> Inr (rule, keyID)))"

definition cert_request :: "Policy \<Rightarrow> Rule \<Rightarrow> 'pk \<Rightarrow> string \<Rightarrow> gotime \<Rightarrow> 'pk Request" where
  "cert_request pol rule pub keyID now =
     \<lparr>req_PublicKey = pub, req_KeyID = keyID,
      req_Principals = cert_Principals (rule_Certificate rule),
      req_ValidAfter = Add now (seconds (ValidAfterOffsetSeconds pol)),
      req_ValidBefore = Add now (seconds (ValidForSecondsFor pol rule)),
      req_Extensions = ExtensionsFor pol rule,
      req_ForceCommand = cert_ForceCommand (rule_Certificate rule),
      req_SourceAddress = SourceAddressFor pol rule\<rparr>"

definition issued_attrs :: "Policy \<Rightarrow> Rule \<Rightarrow> string \<Rightarrow> detail attrs" where
  "issued_attrs pol rule keyID =
     [(''rule'', AttrString (rule_Name rule)),
      (''principals'', AttrStrings (cert_Principals (rule_Certificate rule))),
      (''key_id'', AttrString keyID),
      (''valid_for_seconds'', AttrInt (ValidForSecondsFor pol rule))]
     @ (if cert_ForceCommand (rule_Certificate rule) \<noteq> []
        then [(''force_command'', AttrString (cert_ForceCommand (rule_Certificate rule)))] else [])
     @ (if 0 < length (cert_SourceAddress (rule_Certificate rule))
        then [(''source_address'', AttrStrings (cert_SourceAddress (rule_Certificate rule)))] else [])"

text \<open>Reading the clock, signing, and the attributes of the audit event.\<close>

definition issue_cert ::
  "('pk, 'sk, 'v) server_env \<Rightarrow> Policy \<Rightarrow> Rule \<Rightarrow> string \<Rightarrow> 'pk \<Rightarrow> detail attrs \<Rightarrow> 'vs server_state
   \<Rightarrow> (denial, string) result \<times> 'vs server_state" where
  "issue_cert env pol rule keyID pub claimAttrs s =
     (let now = sv_clock env (st_tick s);
          s1 = s\<lparr>st_tick := st_tick s + 1, st_rand := st_rand s + 2\<rparr> in
      case Issue (sv_sign env) (lib_MarshalCert (sv_lib env)) (sv_rand env) (st_rand s)
             (cert_request pol rule pub keyID now) of
        Inl e \<Rightarrow> (Inl (Denial 500 reasonSigningError (IssueFailed e) claimAttrs), s1)
      | Inr (certBytes, cert) \<Rightarrow> (Inr certBytes, s1))"

definition sign_pipeline ::
  "('pk, 'sk, 'vs) server_env \<Rightarrow> Policy \<Rightarrow> string \<Rightarrow> string \<Rightarrow> string \<Rightarrow> 'vs server_state
   \<Rightarrow> (denial, string \<times> detail attrs) result \<times> 'vs server_state" where
  "sign_pipeline env pol meth authHeader body s =
     (case check_request (sv_lib env) pol meth body of
        Inl d \<Rightarrow> (Inl d, s)
      | Inr pub \<Rightarrow>
          (let keyAttrs = key_attrs (sv_lib env) pub in
           case authenticate env pol authHeader keyAttrs s of
             (Inl d, s1) \<Rightarrow> (Inl d, s1)
           | (Inr i, s1) \<Rightarrow>
               (let claimAttrs = keyAttrs @ identityAttrs i in
                case authorize pol i claimAttrs of
                  Inl d \<Rightarrow> (Inl d, s1)
                | Inr (rule, keyID) \<Rightarrow>
                    (case issue_cert env pol rule keyID pub claimAttrs s1 of
                       (Inl d, s2) \<Rightarrow> (Inl d, s2)
                     | (Inr certBytes, s2) \<Rightarrow>
                         (Inr (certBytes, issued_attrs pol rule keyID @ claimAttrs), s2)))))"

text \<open>One request against the policy it loaded; \<open>Sign\<close> loads the active one.\<close>

definition sign_with ::
  "('pk, 'sk, 'vs) server_env \<Rightarrow> Policy \<Rightarrow> string \<Rightarrow> string \<Rightarrow> string \<Rightarrow> 'vs server_state
   \<Rightarrow> Response \<times> 'vs server_state" where
  "sign_with env pol meth authHeader body s =
     (let (requestID, s0) = newRequestID env s in
      case sign_pipeline env pol meth authHeader body s0 of
        (Inl d, s1) \<Rightarrow> deny s1 requestID d
      | (Inr (certBytes, attrs), s1) \<Rightarrow>
          (\<lparr>rsp_Status = 200, rsp_ContentType = ''text/plain; charset=utf-8'',
            rsp_Body = certBytes, rsp_RequestID = requestID\<rparr>,
           s1\<lparr>st_audit := Issued requestID attrs (st_audit s1)\<rparr>))"

definition Sign ::
  "('pk, 'sk, 'vs) server_env \<Rightarrow> 'vs server_state \<Rightarrow> string \<Rightarrow> string \<Rightarrow> string
   \<Rightarrow> Response \<times> 'vs server_state" where
  "Sign env s meth authHeader body = sign_with env (st_policy s) meth authHeader body s"

section \<open>HTTP handlers\<close>

record http_request =
  hrq_Method :: string
  hrq_Path :: string
  hrq_Authorization :: string
  hrq_Body :: body_source

record http_reply =
  hrp_Status :: nat
  hrp_Headers :: "(string \<times> string) list"
  hrp_Body :: string

definition handleCAPub :: "('pk, 'sk, 'vs) server_env \<Rightarrow> http_request \<Rightarrow> http_reply" where
  "handleCAPub env rq =
     (if hrq_Method rq \<noteq> ''GET'' \<and> hrq_Method rq \<noteq> ''HEAD''
      then \<lparr>hrp_Status = 405,
             hrp_Headers = [(''Content-Type'', ''text/plain; charset=utf-8''),
                            (''X-Content-Type-Options'', ''nosniff'')],
             hrp_Body = ''method not allowed'' @ [CHR 0x0A]\<rparr>
      else \<lparr>hrp_Status = 200, hrp_Headers = [(''Content-Type'', ''text/plain; charset=utf-8'')],
             hrp_Body = lib_MarshalKey (sv_lib env) (sv_ca_key env)\<rparr>)"

text \<open>The read error of the body is discarded; what was read before it is used.\<close>

definition handleSign ::
  "('pk, 'sk, 'vs) server_env \<Rightarrow> 'vs server_state \<Rightarrow> http_request \<Rightarrow> http_reply \<times> 'vs server_state" where
  "handleSign env s rq =
     (let body = fst (read_limited (MaxRequestBody + 1) (hrq_Body rq));
          (resp, s') = Sign env s (hrq_Method rq) (hrq_Authorization rq) body in
      (\<lparr>hrp_Status = rsp_Status resp,
        hrp_Headers = [(''Content-Type'', rsp_ContentType resp), (''X-Request-Id'', rsp_RequestID resp)],
        hrp_Body = rsp_Body resp\<rparr>, s'))"

text \<open>The two routes; \<open>None\<close> is a request that \<open>ServeMux\<close> answers itself.\<close>

definition Handler ::
  "('pk, 'sk, 'vs) server_env \<Rightarrow> 'vs server_state \<Rightarrow> http_request
   \<Rightarrow> (http_reply \<times> 'vs server_state) option" where
  "Handler env s rq =
     (if hrq_Path rq = ''/sign'' then Some (handleSign env s rq)
      else if hrq_Path rq = ''/ca-public-key'' then Some (handleCAPub env rq, s)
      else None)"

section \<open>Denials\<close>

text \<open>The table of the API reference: which status goes with which audited reason.\<close>

definition status_table :: "(nat \<times> string) set" where
  "status_table =
     {(405, reasonBadRequest), (400, reasonBadRequest), (400, reasonInvalidPublicKey),
      (401, reasonMissingToken), (401, reasonTokenInvalid),
      (403, reason_code ReasonNoRuleMatched), (403, reason_code ReasonMultipleRules),
      (403, reasonKeyIDInvalid), (500, reasonSigningError),
      (503, reason_code ReasonPolicyDisabled)}"

lemma status_table_mem [intro, simp]:
  "(405, reasonBadRequest) \<in> status_table"
  "(400, reasonBadRequest) \<in> status_table"
  "(400, reasonInvalidPublicKey) \<in> status_table"
  "(401, reasonMissingToken) \<in> status_table"
  "(401, reasonTokenInvalid) \<in> status_table"
  "(403, reason_code ReasonNoRuleMatched) \<in> status_table"
  "(403, reason_code ReasonMultipleRules) \<in> status_table"
  "(403, reasonKeyIDInvalid) \<in> status_table"
  "(500, reasonSigningError) \<in> status_table"
  "(503, reason_code ReasonPolicyDisabled) \<in> status_table"
  by (simp_all only: status_table_def insert_iff simp_thms)

lemma decision_in_table:
  "(if r = ReasonPolicyDisabled then 503 else 403, reason_code r) \<in> status_table"
  by (cases r) (simp_all del: reason_code.simps)

lemma check_request_status:
  "check_request lib pol m b = Inl d \<Longrightarrow> (den_status d, den_reason d) \<in> status_table"
  by (auto simp: check_request_def simp del: reason_code.simps split: if_split_asm sum.split_asm)

lemma authenticate_status:
  "authenticate env pol a ka s = (Inl d, s') \<Longrightarrow> (den_status d, den_reason d) \<in> status_table"
  by (auto simp: authenticate_def split: option.split_asm sum.split_asm prod.split_asm)

lemma authorize_status:
  assumes "authorize pol i ca = Inl d"
  shows "(den_status d, den_reason d) \<in> status_table"
proof (cases "dec_Allowed (Evaluate pol i)")
  case True
  with assms show ?thesis by (auto simp: authorize_def Let_def split: sum.split_asm)
next
  case False
  with assms show ?thesis using decision_in_table by (auto simp: authorize_def Let_def)
qed

lemma issue_cert_status:
  "issue_cert env pol r k pub ca s = (Inl d, s') \<Longrightarrow> (den_status d, den_reason d) \<in> status_table"
  by (auto simp: issue_cert_def Let_def split: sum.split_asm prod.split_asm)

lemma sign_pipeline_status:
  "sign_pipeline env pol m a b s = (Inl d, s') \<Longrightarrow> (den_status d, den_reason d) \<in> status_table"
  by (auto simp: sign_pipeline_def Let_def split: sum.split_asm prod.split_asm
      dest: check_request_status authenticate_status authorize_status issue_cert_status)

lemma status_table_not_200: "(st, rs) \<in> status_table \<Longrightarrow> st \<noteq> 200"
  by (auto simp: status_table_def simp del: reason_code.simps)

section \<open>The state a request leaves\<close>

lemma newRequestID_simps [simp]:
  "st_audit (snd (newRequestID env s)) = st_audit s"
  "st_policy (snd (newRequestID env s)) = st_policy s"
  "st_verifier (snd (newRequestID env s)) = st_verifier s"
  by (simp_all add: newRequestID_def)

lemma newRequestID_chars:
  "\<forall>c \<in> set (fst (newRequestID env s)). plain_char c"
proof (cases "sv_rand env (st_rand s)")
  case None
  then show ?thesis by (simp add: newRequestID_def plain_char_def)
next
  case (Some b)
  have "\<forall>c \<in> set ''0123456789abcdef''. plain_char c" by (simp add: plain_char_def)
  with EncodeToString_chars [of "eight_bytes b"] Some show ?thesis
    by (auto simp: newRequestID_def simp del: list.set)
qed

lemma authenticate_frame:
  "authenticate env pol a ka s = (r, s') \<Longrightarrow>
     st_audit s' = st_audit s \<and> st_policy s' = st_policy s \<and> st_rand s' = st_rand s
     \<and> st_tick s' = st_tick s"
  by (auto simp: authenticate_def split: option.splits prod.splits)

lemma issue_cert_frame:
  "issue_cert env pol r k pub ca s = (x, s') \<Longrightarrow>
     st_audit s' = st_audit s \<and> st_policy s' = st_policy s \<and> st_verifier s' = st_verifier s"
  by (auto simp: issue_cert_def Let_def split: sum.splits prod.splits)

lemma sign_pipeline_frame:
  "sign_pipeline env pol m a b s = (x, s') \<Longrightarrow> st_audit s' = st_audit s \<and> st_policy s' = st_policy s"
  by (auto simp: sign_pipeline_def Let_def dest!: authenticate_frame issue_cert_frame
      split: sum.splits prod.splits)

text \<open>One audit event per request, carrying the response's request id.\<close>

lemma sign_with_audit:
  assumes "sign_with env pol m a b s = (resp, s')"
  obtains e where "st_audit s' = st_audit s @ [e]"
    and "attr e ''request_id'' = Some (AttrString (rsp_RequestID resp))"
    and "rsp_Status resp = 200 \<and> ev_msg e = EventIssued
      \<or> rsp_Status resp \<noteq> 200 \<and> ev_msg e = EventDenied \<and> LevelInfo < ev_level e
        \<and> (\<exists>rs. attr e ''reason'' = Some (AttrString rs) \<and> (rsp_Status resp, rs) \<in> status_table)"
proof -
  obtain rid s0 where n: "newRequestID env s = (rid, s0)" by (cases "newRequestID env s")
  then have s0: "st_audit s0 = st_audit s" using newRequestID_simps(1) [of env s] by simp
  obtain x s1 where p: "sign_pipeline env pol m a b s0 = (x, s1)"
    by (cases "sign_pipeline env pol m a b s0")
  have s1: "st_audit s1 = st_audit s" using sign_pipeline_frame [OF p] s0 by simp
  show thesis
  proof (cases x)
    case (Inl d)
    obtain e where e: "Denied rid (den_reason d) (den_detail d) (den_attrs d) (st_audit s1) = st_audit s1 @ [e]"
      "ev_msg e = EventDenied" "LevelInfo < ev_level e" "attr e ''request_id'' = Some (AttrString rid)"
      "attr e ''reason'' = Some (AttrString (den_reason d))"
      using Denied_event [of rid "den_reason d" "den_detail d" "den_attrs d" "st_audit s1"] by metis
    moreover have "(den_status d, den_reason d) \<in> status_table" and "den_status d \<noteq> 200"
      using sign_pipeline_status [OF p [unfolded Inl]] status_table_not_200 by blast+
    ultimately show thesis
      using assms n p Inl s1 that [of e] by (auto simp: sign_with_def deny_def)
  next
    case (Inr y)
    obtain c attrs where y: "y = (c, attrs)" by (cases y)
    obtain e where e: "Issued rid attrs (st_audit s1) = st_audit s1 @ [e]"
      "ev_msg e = EventIssued" "attr e ''request_id'' = Some (AttrString rid)"
      using Issued_event [of rid attrs "st_audit s1"] by metis
    with assms n p Inr y s1 that [of e] show thesis by (auto simp: sign_with_def)
  qed
qed

text \<open>The answer to a denied request is a function of its status and request id.\<close>

lemma sign_with_denied_body:
  "sign_with env pol m a b s = (resp, s') \<Longrightarrow> rsp_Status resp \<noteq> 200 \<Longrightarrow>
     rsp_Body resp = denied_body (rsp_RequestID resp) \<and> rsp_ContentType resp = ''application/json''"
  by (auto simp: sign_with_def deny_def split: prod.splits sum.splits)

lemma check_request_take:
  "check_request lib pol m (take (MaxRequestBody + 1) b) = check_request lib pol m b"
  by (cases "length b \<le> MaxRequestBody") (simp_all add: check_request_def)

lemma sign_with_take:
  "sign_with env pol m a (take (MaxRequestBody + 1) b) s = sign_with env pol m a b s"
  by (simp only: sign_with_def sign_pipeline_def check_request_take)

lemma sign_with_request_id:
  "sign_with env pol m a b s = (resp, s') \<Longrightarrow> rsp_RequestID resp = fst (newRequestID env s)"
  by (auto simp: sign_with_def deny_def split: prod.splits sum.splits)

lemma sign_with_200:
  assumes "sign_with env pol m a b s = (resp, s')" and "rsp_Status resp = 200"
    and n: "newRequestID env s = (rid, s0)"
  shows "\<exists>out attrs s1. sign_pipeline env pol m a b s0 = (Inr (out, attrs), s1) \<and> rsp_Body resp = out"
proof -
  obtain x s1 where p: "sign_pipeline env pol m a b s0 = (x, s1)"
    by (cases "sign_pipeline env pol m a b s0")
  show ?thesis
  proof (cases x)
    case (Inl d)
    with p assms have "den_status d = 200" by (auto simp: sign_with_def deny_def)
    with sign_pipeline_status [OF p [unfolded Inl]] status_table_not_200 show ?thesis by metis
  next
    case (Inr y)
    with p assms show ?thesis by (cases y) (auto simp: sign_with_def)
  qed
qed

lemma sign_pipeline_InrD:
  assumes "sign_pipeline env pol m a b s = (Inr (out, attrs), s')"
  shows "\<exists>pub i s2 r keyID ca. check_request (sv_lib env) pol m b = Inr pub
    \<and> authenticate env pol a (key_attrs (sv_lib env) pub) s = (Inr i, s2)
    \<and> authorize pol i ca = Inr (r, keyID) \<and> issue_cert env pol r keyID pub ca s2 = (Inr out, s')
    \<and> attrs = issued_attrs pol r keyID @ ca
    \<and> ca = key_attrs (sv_lib env) pub @ identityAttrs i"
  using assms
  by (simp add: sign_pipeline_def Let_def split: sum.split_asm prod.split_asm)

section \<open>What an issued certificate is\<close>

text \<open>The policy grants this identity the rule and the Key ID.\<close>

definition granted :: "Policy \<Rightarrow> Identity \<Rightarrow> Rule \<Rightarrow> string \<Rightarrow> bool" where
  "granted pol i r keyID \<longleftrightarrow>
     \<not> pol_Disabled pol \<and> filter (candidate i) (pol_Rules pol) = [r]
     \<and> ExpandKeyID (KeyIDTemplateFor pol r) (id_Claims i) = Inr keyID"

text \<open>The request of the client is one that the policy lets through to the token.\<close>

definition acceptable ::
  "('pk, 'sk) ssh_lib \<Rightarrow> Policy \<Rightarrow> string \<Rightarrow> string \<Rightarrow> 'pk \<Rightarrow> bool" where
  "acceptable lib pol m b pub \<longleftrightarrow>
     m = ''POST'' \<and> \<not> pol_Disabled pol \<and> length b \<le> MaxRequestBody
     \<and> (\<exists>raw. decode_string_field ''public_key'' b = Inr raw
        \<and> ValidatePublicKey lib raw (AllowedPublicKeyTypes pol) = Inr pub)"

text \<open>The certificate carries what the policy says about that rule, and nothing else.\<close>

definition cert_for :: "Policy \<Rightarrow> Rule \<Rightarrow> string \<Rightarrow> 'pk \<Rightarrow> gotime \<Rightarrow> 'pk ssh_cert \<Rightarrow> bool" where
  "cert_for pol r keyID pub now cert \<longleftrightarrow>
     crt_Key cert = pub \<and> crt_CertType cert = UserCert \<and> crt_KeyId cert = keyID
     \<and> crt_ValidPrincipals cert = cert_Principals (rule_Certificate r)
     \<and> crt_ValidAfter cert = Unix (Add now (seconds (ValidAfterOffsetSeconds pol)))
     \<and> crt_ValidBefore cert = Unix (Add now (seconds (ValidForSecondsFor pol r)))
     \<and> (\<forall>k. crt_CriticalOptions cert k =
          (if k = ''source-address'' \<and> SourceAddressFor pol r \<noteq> []
           then Some (Join (SourceAddressFor pol r) '','')
           else if k = ''force-command'' \<and> cert_ForceCommand (rule_Certificate r) \<noteq> []
           then Some (cert_ForceCommand (rule_Certificate r)) else None))
     \<and> crt_Extensions cert = extensionMap (ExtensionsFor pol r)"

lemma authorize_allowed:
  assumes "filter (candidate i) (pol_Rules pol) = [r]" and "\<not> pol_Disabled pol"
  shows "authorize pol i ca = (case ExpandKeyID (KeyIDTemplateFor pol r) (id_Claims i) of
     Inl e \<Rightarrow> Inl (Denial 403 reasonKeyIDInvalid (KeyIDRejected e) ca) | Inr k \<Rightarrow> Inr (r, k))"
proof -
  have "dec_Allowed (Evaluate pol i)" and "dec_Rule (Evaluate pol i) = Some r"
    using Evaluate_allowed_filter [of pol i r] assms by simp_all
  then show ?thesis by (simp add: authorize_def Let_def)
qed

lemma authorize_InrD:
  assumes "authorize pol i ca = Inr (r, keyID)" and "\<not> pol_Disabled pol"
  shows "filter (candidate i) (pol_Rules pol) = [r]"
proof -
  have al: "dec_Allowed (Evaluate pol i)"
    using assms(1) by (simp add: authorize_def Let_def split: if_split_asm)
  then obtain r' where r': "dec_Rule (Evaluate pol i) = Some r'"
    using Evaluate_allowed_rule [of pol i] by auto
  then have f: "filter (candidate i) (pol_Rules pol) = [r']"
    using Evaluate_allowed_filter [of pol i r'] assms(2) al by simp
  have "r' = r"
    using assms(1) authorize_allowed [OF f assms(2), of ca] by (simp split: sum.split_asm)
  with f show ?thesis by simp
qed

lemma authorize_iff [result_iff]:
  assumes "\<not> pol_Disabled pol"
  shows "authorize pol i ca = Inr (r, keyID) \<longleftrightarrow> granted pol i r keyID"
proof (cases "filter (candidate i) (pol_Rules pol) = [r]")
  case True
  with assms show ?thesis
    using authorize_allowed [OF True assms, of ca] by (simp add: granted_def split: sum.splits)
next
  case False
  with assms authorize_InrD show ?thesis by (metis granted_def)
qed

lemma check_request_iff [result_iff]:
  "check_request lib pol m b = Inr pub \<longleftrightarrow> acceptable lib pol m b pub"
  by (auto simp: check_request_def acceptable_def split: sum.splits if_splits)

lemma authenticate_iff [result_iff]:
  "authenticate env pol a ka s = (Inr i, s') \<longleftrightarrow>
     (\<exists>tok v. bearerToken a = Some tok \<and> sv_verify env (st_verifier s) tok (Issuers pol) = (Inr i, v)
        \<and> s' = s\<lparr>st_verifier := v\<rparr>)"
  by (auto simp: authenticate_def split: option.splits sum.splits prod.splits)

locale signing_server =
  Signer "sv_sign env" "sv_ca_key env" + token_verifier "sv_verify env" inv auth
  for env :: "('pk, 'sk, 'vs) server_env"
    and inv :: "'vs \<Rightarrow> bool" and auth :: "string \<Rightarrow> Identity \<Rightarrow> bool"
begin

lemma issue_cert_for:
  assumes "issue_cert env pol r keyID pub ca s = (Inr out, s')"
  shows "\<exists>cert. out = lib_MarshalCert (sv_lib env) cert
    \<and> cert_for pol r keyID pub (sv_clock env (st_tick s)) cert
    \<and> crt_SignatureKey cert = Some (sv_ca_key env) \<and> crt_Signature cert \<noteq> None"
proof -
  obtain cert where i: "Issue (sv_sign env) (lib_MarshalCert (sv_lib env)) (sv_rand env) (st_rand s)
      (cert_request pol r pub keyID (sv_clock env (st_tick s))) = Inr (out, cert)"
    using assms by (auto simp: issue_cert_def Let_def split: sum.splits prod.splits)
  have "crt_Signature cert \<noteq> None \<and> out = lib_MarshalCert (sv_lib env) cert"
    using Issue_cert [OF i] by blast
  with Issue_fields [OF i] show ?thesis
    by (auto simp: cert_for_def cert_request_def criticalOptionMap_apply)
qed

lemma sign_with_issued:
  assumes "sign_with env pol m a b s = (resp, s')" and "rsp_Status resp = 200"
    and "inv (st_verifier s)"
  shows "\<exists>pub tok i r keyID now cert.
        acceptable (sv_lib env) pol m b pub \<and> bearerToken a = Some tok \<and> auth tok i
        \<and> (\<exists>iss \<in> set (Issuers pol). unverifiedIssuer tok = Inr iss)
        \<and> granted pol i r keyID \<and> now = sv_clock env (st_tick s)
        \<and> cert_for pol r keyID pub now cert
        \<and> crt_SignatureKey cert = Some (sv_ca_key env)
        \<and> rsp_Body resp = lib_MarshalCert (sv_lib env) cert"
proof -
  obtain rid s0 where n: "newRequestID env s = (rid, s0)" by (cases "newRequestID env s")
  then have s0: "st_verifier s0 = st_verifier s" "st_tick s0 = st_tick s"
    by (auto simp: newRequestID_def)
  obtain out attrs s1 where p: "sign_pipeline env pol m a b s0 = (Inr (out, attrs), s1)"
    and body: "rsp_Body resp = out"
    using sign_with_200 [OF assms(1,2) n] by blast
  obtain pub i s2 r keyID ca where c: "check_request (sv_lib env) pol m b = Inr pub"
    and au: "authenticate env pol a (key_attrs (sv_lib env) pub) s0 = (Inr i, s2)"
    and az: "authorize pol i ca = Inr (r, keyID)"
    and ic: "issue_cert env pol r keyID pub ca s2 = (Inr out, s1)"
    using sign_pipeline_InrD [OF p] by blast
  obtain tok v where v: "bearerToken a = Some tok"
    "sv_verify env (st_verifier s) tok (Issuers pol) = (Inr i, v)"
    using au s0 by (auto simp: result_iff)
  have "auth tok i" and "\<exists>iss \<in> set (Issuers pol). unverifiedIssuer tok = Inr iss"
    using verify_auth [OF assms(3) v(2)] verify_gate [OF v(2)] by auto
  note auth = this
  have acc: "acceptable (sv_lib env) pol m b pub" using c by (simp add: check_request_iff)
  then have "\<not> pol_Disabled pol" by (simp add: acceptable_def)
  then have g: "granted pol i r keyID" using az authorize_iff by blast
  obtain cert where cert: "out = lib_MarshalCert (sv_lib env) cert"
    "cert_for pol r keyID pub (sv_clock env (st_tick s2)) cert"
    "crt_SignatureKey cert = Some (sv_ca_key env)"
    using issue_cert_for [OF ic] by blast
  have "st_tick s2 = st_tick s" using authenticate_frame [OF au] s0 by simp
  note cert = cert [unfolded this]
  show ?thesis
    by (intro exI [of _ pub] exI [of _ tok] exI [of _ i] exI [of _ r]
        exI [of _ keyID] exI [of _ "sv_clock env (st_tick s)"] exI [of _ cert])
      (use acc v(1) auth g cert body in simp)
qed

end

section \<open>The server that \<open>serve\<close> assembles\<close>

definition production_env ::
  "('pk, 'sk) ssh_lib \<Rightarrow> 'sk memorySigner \<Rightarrow> 'p oidc_env \<Rightarrow> rand \<Rightarrow> (nat \<Rightarrow> gotime)
   \<Rightarrow> ('pk, 'sk, 'p verifier_state) server_env" where
  "production_env lib m oe rnd clk =
     \<lparr>sv_lib = lib, sv_sign = SignCertificate lib m, sv_ca_key = PublicKey lib m,
      sv_verify = Verify oe, sv_rand = rnd, sv_clock = clk\<rparr>"

lemma production_env_simps [simp]:
  "sv_lib (production_env lib m oe rnd clk) = lib"
  "sv_sign (production_env lib m oe rnd clk) = SignCertificate lib m"
  "sv_ca_key (production_env lib m oe rnd clk) = PublicKey lib m"
  "sv_verify (production_env lib m oe rnd clk) = Verify oe"
  "sv_rand (production_env lib m oe rnd clk) = rnd"
  "sv_clock (production_env lib m oe rnd clk) = clk"
  by (simp_all add: production_env_def)

interpretation production: signing_server "production_env lib m oe rnd clk" "cache_inv oe" "authentic oe"
  for lib m oe rnd clk
  unfolding signing_server_def production_env_simps
  by (intro conjI memory.Signer_axioms remote.token_verifier_axioms)

end
