(* ===== verification/Issuance.thy ===== *)
theory Issuance
  imports Server
begin

text \<open>
  What a certificate can be under a policy that \<open>Validate\<close> accepts: the bounds on its
  principals, Key ID, critical options, extensions and lifetime, whatever the token says.
  \<open>safe_cert\<close> is the abstract promise; \<open>granted_safe\<close> shows that a certificate the
  pipeline builds for a granted rule keeps it.
\<close>

section \<open>The promise\<close>

definition extension_names :: "string list" where
  "extension_names = [''permit-pty'', ''permit-port-forwarding'', ''permit-agent-forwarding'',
     ''permit-X11-forwarding'', ''permit-user-rc'']"

definition safe_options :: "(string \<Rightarrow> string option) \<Rightarrow> bool" where
  "safe_options co \<longleftrightarrow> dom co \<subseteq> {''force-command'', ''source-address''}
     \<and> (\<forall>v. co ''source-address'' = Some v \<longrightarrow> cidr_list_ok (Split (CHR '','') v))
     \<and> (\<forall>v. co ''force-command'' = Some v \<longrightarrow> v \<noteq> [] \<and> force_command_ok v)"

definition safe_extensions :: "(string \<Rightarrow> string option) \<Rightarrow> bool" where
  "safe_extensions ex \<longleftrightarrow> (\<forall>k v. ex k = Some v \<longrightarrow> k \<in> set extension_names \<and> v = [])"

definition safe_cert :: "'pk ssh_cert \<Rightarrow> bool" where
  "safe_cert cert \<longleftrightarrow> crt_CertType cert = UserCert
     \<and> crt_ValidPrincipals cert \<noteq> []
     \<and> (\<forall>pr \<in> set (crt_ValidPrincipals cert). MatchString principalRe pr)
     \<and> crt_KeyId cert \<noteq> [] \<and> length (crt_KeyId cert) \<le> MaxKeyIDLength
     \<and> (\<forall>c \<in> set (crt_KeyId cert). key_id_char c)
     \<and> safe_options (crt_CriticalOptions cert) \<and> safe_extensions (crt_Extensions cert)"

section \<open>Keeping it\<close>

lemma extensionMap_safe: "safe_extensions (extensionMap e)"
  by (auto simp: safe_extensions_def extensionMap_apply extension_names_def split: if_splits)

lemma criticalOptionMap_safe:
  assumes "cidr_list_ok (req_SourceAddress req)" and "force_command_ok (req_ForceCommand req)"
  shows "safe_options (criticalOptionMap req)"
proof -
  have "dom (criticalOptionMap req) \<subseteq> {''force-command'', ''source-address''}"
    by (auto simp: criticalOptionMap_apply dom_def split: if_splits)
  moreover have "cidr_list_ok (Split (CHR '','') v)"
    if "criticalOptionMap req ''source-address'' = Some v" for v
    using that assms(1) cidr_list_Split_Join [OF assms(1)]
    by (auto simp: criticalOptionMap_apply split: if_splits)
  moreover have "v \<noteq> [] \<and> force_command_ok v"
    if "criticalOptionMap req ''force-command'' = Some v" for v
    using that assms(2) by (auto simp: criticalOptionMap_apply split: if_splits)
  ultimately show ?thesis by (simp add: safe_options_def)
qed

lemma filter_singleton_mem: "filter P xs = [x] \<Longrightarrow> x \<in> set xs \<and> P x"
  by (metis filter_set list.set_intros(1) mem_Collect_eq set_filter)

lemma granted_rule:
  "granted pol i r k \<Longrightarrow> r \<in> set (pol_Rules pol) \<and> candidate i r \<and> \<not> pol_Disabled pol"
  using filter_singleton_mem [of "candidate i" "pol_Rules pol" r] by (simp add: granted_def)

lemma keyid_clean: "MatchString keyIDValueRe k \<Longrightarrow> k \<noteq> [] \<and> (\<forall>c \<in> set k. key_id_char c)"
  by (auto simp: keyIDValueRe_def)

lemma granted_safe:
  assumes "policy_ok pol" and "granted pol i r keyID" and "cert_for pol r keyID pub now cert"
  shows "safe_cert cert"
proof -
  have "r \<in> set (pol_Rules pol)" using granted_rule [OF assms(2)] by blast
  then have r: "certificate_ok pol r" using policy_ok_rule [OF assms(1)] by (simp add: rule_ok_def)
  have k: "length keyID \<le> MaxKeyIDLength" "MatchString keyIDValueRe keyID"
    using assms(2) by (auto simp: granted_def ExpandKeyID_Inr_iff)
  let ?req = "\<lparr>req_PublicKey = pub, req_KeyID = keyID, req_Principals = [], req_ValidAfter = now,
    req_ValidBefore = now, req_Extensions = no_extensions,
    req_ForceCommand = cert_ForceCommand (rule_Certificate r), req_SourceAddress = SourceAddressFor pol r\<rparr>"
  have "crt_CriticalOptions cert = criticalOptionMap ?req"
    using assms(3) by (simp add: cert_for_def criticalOptionMap_apply fun_eq_iff)
  moreover have "safe_options (criticalOptionMap ?req)"
    using r by (intro criticalOptionMap_safe) (simp_all add: certificate_ok_def)
  ultimately have co: "safe_options (crt_CriticalOptions cert)" by simp
  show ?thesis
    unfolding safe_cert_def
    using assms(3) r k co keyid_clean [OF k(2)] extensionMap_safe [of "ExtensionsFor pol r"]
    by (simp add: cert_for_def certificate_ok_def)
qed

text \<open>A restriction that the policy states is in the certificate.\<close>

section \<open>Lifetime\<close>

lemma unix_epoch: "sint unixToInternal = 62135596800"
  by (simp add: unixToInternal_def)

text \<open>A whole number of seconds that does not wrap as a duration moves the Unix time by
  exactly that number.\<close>

lemma wall_seconds_unique:
  fixes a b m n :: int
  assumes "a * ns_per_s + m = b * ns_per_s + n" and "0 \<le> m" "m < ns_per_s" "0 \<le> n" "n < ns_per_s"
  shows "a = b"
  using assms unfolding ns_per_s_def by linarith

lemma Unix_central:
  "central t \<Longrightarrow> sint (Unix t) = sint (t_sec t) - 62135596800"
  unfolding Unix_def central_def
  by (subst sint64_sub) (simp_all add: unix_epoch abs_le_iff)

lemma Unix_Add_seconds:
  assumes "central now" and "- max_seconds \<le> sint n" and "sint n \<le> max_seconds"
  shows "sint (Unix (Add now (seconds n))) = sint (Unix now) + sint n"
proof -
  let ?t = "Add now (seconds n)"
  have w: "ns ?t = ns now + sint n * ns_per_s" "wf_time ?t"
    using Add_exact [OF assms(1), of "seconds n"] sint_seconds [OF assms(2,3)] by simp_all
  then have s: "sint (t_sec ?t) = sint (t_sec now) + sint n"
    using assms(1) wall_seconds_unique [of "sint (t_sec ?t)" "t_nsec ?t"
        "sint (t_sec now) + sint n" "t_nsec now"]
    by (simp add: ns_def wf_time_def central_def algebra_simps)
  have "sint (Unix ?t) = sint (t_sec ?t) - 62135596800"
    using assms s unfolding Unix_def central_def max_seconds_def
    by (subst sint64_sub) (simp_all add: unix_epoch abs_le_iff)
  with s Unix_central [OF assms(1)] show ?thesis by simp
qed

lemma cert_lifetime:
  assumes "policy_ok pol" and "r \<in> set (pol_Rules pol)" and "cert_for pol r keyID pub now cert"
    and "central now" and "sint (MaxValidForSeconds pol) \<le> max_seconds"
  shows "sint (crt_ValidBefore cert) = sint (Unix now) + sint (ValidForSecondsFor pol r)"
    and "sint (Unix now) < sint (crt_ValidBefore cert)"
    and "sint (crt_ValidBefore cert) \<le> sint (Unix now) + sint (MaxValidForSeconds pol)"
proof -
  have t: "0 < sint (ValidForSecondsFor pol r)"
    "sint (ValidForSecondsFor pol r) \<le> sint (MaxValidForSeconds pol)"
    using policy_ok_ttl [OF assms(1,2)] by simp_all
  show "sint (crt_ValidBefore cert) = sint (Unix now) + sint (ValidForSecondsFor pol r)"
    using assms(3,5) t Unix_Add_seconds [OF assms(4), of "ValidForSecondsFor pol r"]
    by (simp add: cert_for_def max_seconds_def)
  with t show "sint (Unix now) < sint (crt_ValidBefore cert)"
    and "sint (crt_ValidBefore cert) \<le> sint (Unix now) + sint (MaxValidForSeconds pol)"
    by simp_all
qed

end
