(* ===== verification/System.thy ===== *)
theory System
  imports Issuance
begin

text \<open>
  \<open>cmd/oidc-ssh-ca/serve.go\<close> and what runs at the same time in a server: startup, the
  reload on \<open>SIGHUP\<close>, and requests served by one goroutine each.  A request runs in three
  steps (read the policy and check the body; verify the token; decide, sign and log), between
  which other requests and reloads may run; \<open>sys_step\<close> is that interleaving, and the three
  steps together are \<open>Sign\<close>.  \<open>Concurrent\<close> takes the steps apart to the single statements
  that touch shared state.
\<close>

section \<open>Startup and reload\<close>

record serve_flags =
  flg_config :: string
  flg_listen :: string
  flg_ca_key_file :: string
  flg_skip_key_permission_check :: bool

datatype serve_error = ConfigRequired | ServePolicy load_error | ServeCAKey cakey_error

definition version :: string where
  "version = ''0.4.0''"

definition go_len :: "'a list \<Rightarrow> go_int" where
  "go_len xs = word_of_nat (length xs)"

definition starting_attrs ::
  "('pk, 'sk) ssh_lib \<Rightarrow> serve_flags \<Rightarrow> 'sk memorySigner \<Rightarrow> Policy \<Rightarrow> detail attrs" where
  "starting_attrs lib fl m pol =
     [(''version'', AttrString version), (''listen'', AttrString (flg_listen fl)),
      (''ca_fingerprint'', AttrString (Fingerprint lib (PublicKey lib m))),
      (''policy'', AttrString (flg_config fl)), (''rules'', AttrInt (go_len (pol_Rules pol))),
      (''disabled'', AttrBool (pol_Disabled pol))]"

text \<open>Up to the first request: the signer and the server's state.\<close>

definition cmdServe_start ::
  "('pk, 'sk) ssh_lib \<Rightarrow> os \<Rightarrow> read_file \<Rightarrow> yaml_lib \<Rightarrow> serve_flags
   \<Rightarrow> (serve_error, 'sk memorySigner \<times> 'p verifier_state server_state) result" where
  "cmdServe_start lib sys read yaml fl =
     (if flg_config fl = [] then Inl ConfigRequired
      else rbind (wrap_err ServePolicy (Load read yaml (flg_config fl))) (\<lambda>pol.
        rbind (wrap_err ServeCAKey
            (fst (LoadCAKey lib sys (flg_ca_key_file fl) (flg_skip_key_permission_check fl)))) (\<lambda>m.
          let log = (if flg_skip_key_permission_check fl
                     then log_warn ''CA key file permission check disabled (--skip-key-permission-check)'' [] NewLogger
                     else NewLogger);
              log' = log_info ''starting'' (starting_attrs lib fl m pol) log
          in Inr (m, New pol NewRemoteVerifier log'))))"

text \<open>The body of the loop over the \<open>SIGHUP\<close> channel.\<close>

definition reload ::
  "read_file \<Rightarrow> yaml_lib \<Rightarrow> string \<Rightarrow> 'vs server_state \<Rightarrow> 'vs server_state" where
  "reload read yaml path s =
     (case Load read yaml path of
        Inl e \<Rightarrow> s\<lparr>st_audit := log_error ''policy reload failed; keeping current policy''
            [(''error'', AttrDetail (ReloadFailed e))] (st_audit s)\<rparr>
      | Inr newPol \<Rightarrow>
          let s' = SetPolicy newPol s in
          s'\<lparr>st_audit := log_info ''policy reloaded''
            [(''rules'', AttrInt (go_len (pol_Rules newPol))),
             (''disabled'', AttrBool (pol_Disabled newPol))] (st_audit s')\<rparr>)"

lemma reload_state:
  "st_policy (reload read yaml path s) =
     (case Load read yaml path of Inl e \<Rightarrow> st_policy s | Inr p \<Rightarrow> p)"
  "st_verifier (reload read yaml path s) = st_verifier s"
  "\<exists>e. st_audit (reload read yaml path s) = st_audit s @ [e] \<and> ev_msg e \<noteq> EventIssued \<and> ev_msg e \<noteq> EventDenied"
  by (auto simp: reload_def SetPolicy_def Let_def log_error_def log_info_def log_event_def
      EventIssued_def EventDenied_def split: sum.split)

lemma reload_policy_ok: "policy_ok (st_policy s) \<Longrightarrow> policy_ok (st_policy (reload read yaml path s))"
  using Load_policy_ok [of read yaml path] by (simp add: reload_state split: sum.split)

lemma cmdServe_start_iff [result_iff]:
  "cmdServe_start lib sys read yaml fl = Inr (m, s) \<longleftrightarrow>
     flg_config fl \<noteq> []
     \<and> fst (LoadCAKey lib sys (flg_ca_key_file fl) (flg_skip_key_permission_check fl)) = Inr m
     \<and> (\<exists>pol log. Load read yaml (flg_config fl) = Inr pol \<and> s = New pol NewRemoteVerifier log
        \<and> log = (if flg_skip_key_permission_check fl
            then log_warn ''CA key file permission check disabled (--skip-key-permission-check)'' [] []
            else []) @ [\<lparr>ev_level = LevelInfo, ev_msg = ''starting'',
                        ev_attrs = starting_attrs lib fl m pol\<rparr>])"
  by (auto simp: cmdServe_start_def NewLogger_def rbind_Inr_iff wrap_err_iff Let_def log_info_def log_event_def)

section \<open>A request in three steps\<close>

record sign_request =
  sr_method :: string
  sr_auth :: string
  sr_body :: string

text \<open>Where a request is, with the local variables that are live there.\<close>

datatype 'pk phase =
    Received string
  | Checked string Policy 'pk
  | Verified string Policy 'pk Identity
  | Done Response

definition finish_denied ::
  "'vs server_state \<Rightarrow> string \<Rightarrow> denial \<Rightarrow> 'pk phase \<times> 'vs server_state" where
  "finish_denied s rid d = (let (resp, s') = deny s rid d in (Done resp, s'))"

fun advance ::
  "('pk, 'sk, 'vs) server_env \<Rightarrow> sign_request \<Rightarrow> 'pk phase \<Rightarrow> 'vs server_state
   \<Rightarrow> 'pk phase \<times> 'vs server_state" where
  "advance env rq (Received rid) s =
     (case check_request (sv_lib env) (st_policy s) (sr_method rq) (sr_body rq) of
        Inl d \<Rightarrow> finish_denied s rid d
      | Inr pub \<Rightarrow> (Checked rid (st_policy s) pub, s))"
| "advance env rq (Checked rid pol pub) s =
     (case authenticate env pol (sr_auth rq) (key_attrs (sv_lib env) pub) s of
        (Inl d, s1) \<Rightarrow> finish_denied s1 rid d
      | (Inr i, s1) \<Rightarrow> (Verified rid pol pub i, s1))"
| "advance env rq (Verified rid pol pub i) s =
     (let claimAttrs = key_attrs (sv_lib env) pub @ identityAttrs i in
      case authorize pol i claimAttrs of
        Inl d \<Rightarrow> finish_denied s rid d
      | Inr (rule, keyID) \<Rightarrow>
          (case issue_cert env pol rule keyID pub claimAttrs s of
             (Inl d, s2) \<Rightarrow> finish_denied s2 rid d
           | (Inr certBytes, s2) \<Rightarrow>
               (Done \<lparr>rsp_Status = 200, rsp_ContentType = ''text/plain; charset=utf-8'',
                  rsp_Body = certBytes, rsp_RequestID = rid\<rparr>,
                s2\<lparr>st_audit := Issued rid (issued_attrs pol rule keyID @ claimAttrs) (st_audit s2)\<rparr>)))"
| "advance env rq (Done resp) s = (Done resp, s)"

fun advance_n ::
  "nat \<Rightarrow> ('pk, 'sk, 'vs) server_env \<Rightarrow> sign_request \<Rightarrow> 'pk phase \<Rightarrow> 'vs server_state
   \<Rightarrow> 'pk phase \<times> 'vs server_state" where
  "advance_n 0 env rq ph s = (ph, s)"
| "advance_n (Suc n) env rq ph s =
     (let (ph', s') = advance env rq ph s in advance_n n env rq ph' s')"

lemma advance_n_Done [simp]: "advance_n n env rq (Done resp) s = (Done resp, s)"
  by (induction n) simp_all

text \<open>Run without interruption, the three steps are \<open>Sign\<close>.\<close>

lemma three_steps:
  assumes "newRequestID env s = (rid, s0)"
    and "Sign env s (sr_method rq) (sr_auth rq) (sr_body rq) = (resp, s')"
  shows "advance_n 3 env rq (Received rid) s0 = (Done resp, s')"
proof -
  have "st_policy s0 = st_policy s" using newRequestID_simps(2) [of env s] assms(1) by simp
  with assms show ?thesis
    by (simp add: Sign_def sign_with_def sign_pipeline_def numeral_3_eq_3 finish_denied_def
        deny_def Let_def split: sum.split_asm prod.split_asm)
qed

section \<open>What one step does\<close>

definition event_for :: "Response \<Rightarrow> detail event \<Rightarrow> bool" where
  "event_for resp e \<longleftrightarrow> attr e ''request_id'' = Some (AttrString (rsp_RequestID resp))
     \<and> ev_msg e = (if rsp_Status resp = 200 then EventIssued else EventDenied)"

fun is_Done :: "'pk phase \<Rightarrow> bool" where
  "is_Done (Done resp) = True"
| "is_Done ph = False"

lemma is_Done_iff: "is_Done ph \<longleftrightarrow> (\<exists>resp. ph = Done resp)"
  by (cases ph) simp_all

lemma finish_denied_event:
  assumes "finish_denied s rid d = (ph, s')" and "den_status d \<noteq> 200"
  shows "\<exists>resp e. ph = Done resp \<and> st_audit s' = st_audit s @ [e] \<and> event_for resp e"
proof -
  obtain e where "Denied rid (den_reason d) (den_detail d) (den_attrs d) (st_audit s) = st_audit s @ [e]"
    "ev_msg e = EventDenied" "attr e ''request_id'' = Some (AttrString rid)"
    using Denied_event [of rid "den_reason d" "den_detail d" "den_attrs d" "st_audit s"] by metis
  with assms show ?thesis by (auto simp: finish_denied_def deny_def event_for_def)
qed

lemma finish_denied_frame:
  "finish_denied s rid d = (ph, s') \<Longrightarrow>
     st_policy s' = st_policy s \<and> st_verifier s' = st_verifier s
     \<and> (\<exists>resp. ph = Done resp \<and> rsp_Status resp = den_status d)"
  by (auto simp: finish_denied_def deny_def)

text \<open>The cases of a step: denied, moved on silently, or issued.\<close>

lemma advance_cases [consumes 1, case_names denied checked verified issued stay]:
  assumes "advance env rq ph s = (ph', s')"
  obtains
    rid d s1 where "\<not> is_Done ph" and "finish_denied s1 rid d = (ph', s')"
      and "st_audit s1 = st_audit s" and "st_policy s1 = st_policy s"
      and "(den_status d, den_reason d) \<in> status_table"
      and "st_verifier s1 = st_verifier s
        \<or> (\<exists>pol pub r. ph = Checked rid pol pub
            \<and> authenticate env pol (sr_auth rq) (key_attrs (sv_lib env) pub) s = (r, s1))"
  | rid pub where "ph = Received rid" and "ph' = Checked rid (st_policy s) pub" and "s' = s"
      and "check_request (sv_lib env) (st_policy s) (sr_method rq) (sr_body rq) = Inr pub"
  | rid pol pub i where "ph = Checked rid pol pub" and "ph' = Verified rid pol pub i"
      and "authenticate env pol (sr_auth rq) (key_attrs (sv_lib env) pub) s = (Inr i, s')"
  | rid pol pub i r keyID out s2 ca where "ph = Verified rid pol pub i"
      and "authorize pol i ca = Inr (r, keyID)" and "issue_cert env pol r keyID pub ca s = (Inr out, s2)"
      and "ph' = Done \<lparr>rsp_Status = 200, rsp_ContentType = ''text/plain; charset=utf-8'',
            rsp_Body = out, rsp_RequestID = rid\<rparr>"
      and "s' = s2\<lparr>st_audit := Issued rid (issued_attrs pol r keyID @ ca) (st_audit s2)\<rparr>"
  | resp where "ph = Done resp" and "ph' = ph" and "s' = s"
proof (cases ph)
  case (Received rid)
  show ?thesis
  proof (cases "check_request (sv_lib env) (st_policy s) (sr_method rq) (sr_body rq)")
    case (Inl d)
    have "finish_denied s rid d = (ph', s')" using assms Received Inl by simp
    then show ?thesis
      by (rule that(1) [rotated]) (use Received check_request_status [OF Inl] in simp_all)
  next
    case (Inr pub)
    have "ph' = Checked rid (st_policy s) pub" "s' = s" using assms Received Inr by auto
    then show ?thesis by (rule that(2) [OF Received _ _ Inr])
  qed
next
  case (Checked rid pol pub)
  obtain r s1 where a: "authenticate env pol (sr_auth rq) (key_attrs (sv_lib env) pub) s = (r, s1)"
    by (cases "authenticate env pol (sr_auth rq) (key_attrs (sv_lib env) pub) s")
  show ?thesis
  proof (cases r)
    case (Inl d)
    have "finish_denied s1 rid d = (ph', s')" using assms Checked a Inl by simp
    then show ?thesis
      by (rule that(1) [rotated])
        (use Checked a authenticate_frame [OF a] authenticate_status [OF a [unfolded Inl]] in auto)
  next
    case (Inr i)
    have "ph' = Verified rid pol pub i" "s' = s1" using assms Checked a Inr by auto
    with a Inr show ?thesis by (intro that(3) [OF Checked]) simp_all
  qed
next
  case (Verified rid pol pub i)
  define ca where "ca = key_attrs (sv_lib env) pub @ identityAttrs i"
  show ?thesis
  proof (cases "authorize pol i ca")
    case (Inl d)
    have "finish_denied s rid d = (ph', s')" using assms Verified Inl by (simp add: Let_def ca_def)
    then show ?thesis
      by (rule that(1) [rotated]) (use Verified authorize_status [OF Inl] in simp_all)
  next
    case (Inr y)
    obtain r keyID where y: "y = (r, keyID)" by (cases y)
    obtain x s2 where ic: "issue_cert env pol r keyID pub ca s = (x, s2)"
      by (cases "issue_cert env pol r keyID pub ca s")
    show ?thesis
    proof (cases x)
      case il: (Inl d)
      have "finish_denied s2 rid d = (ph', s')"
        using assms Verified Inr y ic il by (simp add: Let_def ca_def)
      then show ?thesis
        by (rule that(1) [rotated])
          (use Verified issue_cert_frame [OF ic] issue_cert_status [OF ic [unfolded il]] in simp_all)
    next
      case ir: (Inr out)
      have "advance env rq ph s = (Done \<lparr>rsp_Status = 200,
            rsp_ContentType = ''text/plain; charset=utf-8'', rsp_Body = out, rsp_RequestID = rid\<rparr>,
          s2\<lparr>st_audit := Issued rid (issued_attrs pol r keyID @ ca) (st_audit s2)\<rparr>)"
        using ic ir unfolding Verified advance.simps Let_def ca_def [symmetric] Inr y by simp
      note eq = this [unfolded assms, THEN prod.inject [THEN iffD1]]
      show ?thesis
        by (rule that(4) [OF Verified Inr [unfolded y] ic [unfolded ir] conjunct1 [OF eq] conjunct2 [OF eq]])
    qed
  qed
next
  case (Done resp)
  have "ph' = ph" "s' = s" using assms Done by simp_all
  then show ?thesis by (rule that(5) [OF Done])
qed

lemma advance_policy: "advance env rq ph s = (ph', s') \<Longrightarrow> st_policy s' = st_policy s"
  by (erule advance_cases) (auto dest: finish_denied_frame authenticate_frame issue_cert_frame)

lemma issued_event_for:
  "\<exists>e. Issued rid attrs l = l @ [e]
     \<and> event_for \<lparr>rsp_Status = 200, rsp_ContentType = ct, rsp_Body = b, rsp_RequestID = rid\<rparr> e"
  using Issued_event [of rid attrs l] by (auto simp: event_for_def)

text \<open>A step logs one event exactly when it completes the request.\<close>

lemma advance_audit:
  assumes "advance env rq ph s = (ph', s')"
  shows "if is_Done ph then ph' = ph \<and> s' = s
     else if is_Done ph' then \<exists>resp e. ph' = Done resp \<and> st_audit s' = st_audit s @ [e] \<and> event_for resp e
     else st_audit s' = st_audit s"
  using assms
proof (cases rule: advance_cases)
  case (denied rid d s1)
  from status_table_not_200 [OF denied(5)] finish_denied_event [OF denied(2)]
  obtain resp e where "ph' = Done resp" "st_audit s' = st_audit s1 @ [e]" "event_for resp e" by blast
  with denied(1,3) show ?thesis by auto
next
  case (issued rid pol pub i r keyID out s2 ca)
  from issue_cert_frame [OF issued(3)] issued
    issued_event_for [of rid "issued_attrs pol r keyID @ ca" "st_audit s" _ out]
  show ?thesis by auto
qed (auto dest: authenticate_frame)

section \<open>Interleaving\<close>

record ('pk, 'vs) sys =
  sys_server :: "'vs server_state"
  sys_threads :: "nat \<Rightarrow> (sign_request \<times> 'pk phase) option"

datatype sys_event = Arrive nat sign_request | Run nat | Hup read_file

inductive sys_step ::
  "('pk, 'sk, 'vs) server_env \<Rightarrow> yaml_lib \<Rightarrow> string
   \<Rightarrow> ('pk, 'vs) sys \<Rightarrow> sys_event \<Rightarrow> ('pk, 'vs) sys \<Rightarrow> bool"
  for env yaml path where
  arrive: "sys_threads \<sigma> t = None \<Longrightarrow> newRequestID env (sys_server \<sigma>) = (rid, s') \<Longrightarrow>
    sys_step env yaml path \<sigma> (Arrive t rq)
      \<lparr>sys_server = s', sys_threads = (sys_threads \<sigma>)(t \<mapsto> (rq, Received rid))\<rparr>"
| run: "sys_threads \<sigma> t = Some (rq, ph) \<Longrightarrow> \<not> is_Done ph \<Longrightarrow>
    advance env rq ph (sys_server \<sigma>) = (ph', s') \<Longrightarrow>
    sys_step env yaml path \<sigma> (Run t)
      \<lparr>sys_server = s', sys_threads = (sys_threads \<sigma>)(t \<mapsto> (rq, ph'))\<rparr>"
| hup: "sys_step env yaml path \<sigma> (Hup read)
      \<lparr>sys_server = reload read yaml path (sys_server \<sigma>), sys_threads = sys_threads \<sigma>\<rparr>"

inductive_cases sys_arriveE: "sys_step env yaml path \<sigma> (Arrive t rq) \<sigma>'"
inductive_cases sys_runE: "sys_step env yaml path \<sigma> (Run t) \<sigma>'"
inductive_cases sys_hupE: "sys_step env yaml path \<sigma> (Hup read) \<sigma>'"

inductive sys_run ::
  "('pk, 'sk, 'vs) server_env \<Rightarrow> yaml_lib \<Rightarrow> string
   \<Rightarrow> ('pk, 'vs) sys \<Rightarrow> sys_event list \<Rightarrow> ('pk, 'vs) sys \<Rightarrow> bool"
  for env yaml path where
  run_none: "sys_run env yaml path \<sigma> [] \<sigma>"
| run_one: "sys_run env yaml path \<sigma> es \<sigma>1 \<Longrightarrow> sys_step env yaml path \<sigma>1 ev \<sigma>2 \<Longrightarrow>
    sys_run env yaml path \<sigma> (es @ [ev]) \<sigma>2"

definition sys_init :: "'vs server_state \<Rightarrow> ('pk, 'vs) sys" where
  "sys_init s = \<lparr>sys_server = s, sys_threads = (\<lambda>_. None)\<rparr>"

text \<open>An invariant that a step keeps holds along a run.\<close>

lemma sys_run_invariant:
  assumes "sys_run env yaml path \<sigma> es \<sigma>'" and "P \<sigma>"
    and "\<And>\<sigma>1 ev \<sigma>2. ev \<in> set es \<Longrightarrow> P \<sigma>1 \<Longrightarrow> sys_step env yaml path \<sigma>1 ev \<sigma>2 \<Longrightarrow> P \<sigma>2"
  shows "P \<sigma>'"
  using assms by (induction rule: sys_run.induct) auto

subsection \<open>Safety of every answer\<close>

text \<open>A certificate that some valid, enabled policy justifies for this request.\<close>

definition justified ::
  "('pk, 'sk, 'vs) server_env \<Rightarrow> (string \<Rightarrow> Identity \<Rightarrow> bool) \<Rightarrow> Policy \<Rightarrow> sign_request
   \<Rightarrow> 'pk ssh_cert \<Rightarrow> bool" where
  "justified env auth pol rq cert \<longleftrightarrow>
     (\<exists>pub tok i r keyID k.
        acceptable (sv_lib env) pol (sr_method rq) (sr_body rq) pub
        \<and> bearerToken (sr_auth rq) = Some tok \<and> auth tok i
        \<and> (\<exists>iss \<in> set (Issuers pol). unverifiedIssuer tok = Inr iss)
        \<and> granted pol i r keyID \<and> cert_for pol r keyID pub (sv_clock env k) cert
        \<and> crt_SignatureKey cert = Some (sv_ca_key env))"

lemma justifiedI:
  "check_request (sv_lib env) pol (sr_method rq) (sr_body rq) = Inr pub \<Longrightarrow>
   bearerToken (sr_auth rq) = Some tok \<and> auth tok i
     \<and> (\<exists>iss \<in> set (Issuers pol). unverifiedIssuer tok = Inr iss) \<Longrightarrow>
   granted pol i r keyID \<Longrightarrow> cert_for pol r keyID pub (sv_clock env k) cert \<Longrightarrow>
   crt_SignatureKey cert = Some (sv_ca_key env) \<Longrightarrow> justified env auth pol rq cert"
  unfolding justified_def check_request_iff by blast

lemma justified_safe: "policy_ok pol \<Longrightarrow> justified env auth pol rq cert \<Longrightarrow> safe_cert cert"
  by (auto simp: justified_def dest: granted_safe)

fun phase_ok ::
  "('pk, 'sk, 'vs) server_env \<Rightarrow> (string \<Rightarrow> Identity \<Rightarrow> bool) \<Rightarrow> sign_request \<Rightarrow> 'pk phase \<Rightarrow> bool" where
  "phase_ok env auth rq (Received rid) = True"
| "phase_ok env auth rq (Checked rid pol pub) =
     (policy_ok pol \<and> check_request (sv_lib env) pol (sr_method rq) (sr_body rq) = Inr pub)"
| "phase_ok env auth rq (Verified rid pol pub i) =
     (policy_ok pol \<and> check_request (sv_lib env) pol (sr_method rq) (sr_body rq) = Inr pub
      \<and> (\<exists>tok. bearerToken (sr_auth rq) = Some tok \<and> auth tok i
           \<and> (\<exists>iss \<in> set (Issuers pol). unverifiedIssuer tok = Inr iss)))"
| "phase_ok env auth rq (Done resp) =
     (rsp_Status resp = 200 \<longrightarrow>
       (\<exists>pol cert. policy_ok pol \<and> justified env auth pol rq cert
          \<and> rsp_Body resp = lib_MarshalCert (sv_lib env) cert))"

definition sys_inv ::
  "('pk, 'sk, 'vs) server_env \<Rightarrow> ('vs \<Rightarrow> bool) \<Rightarrow> (string \<Rightarrow> Identity \<Rightarrow> bool)
   \<Rightarrow> ('pk, 'vs) sys \<Rightarrow> bool" where
  "sys_inv env vok auth \<sigma> \<longleftrightarrow>
     policy_ok (st_policy (sys_server \<sigma>)) \<and> vok (st_verifier (sys_server \<sigma>))
     \<and> (\<forall>t rq ph. sys_threads \<sigma> t = Some (rq, ph) \<longrightarrow> phase_ok env auth rq ph)"

lemma sys_inv_put:
  "sys_inv env vok auth \<lparr>sys_server = s', sys_threads = (ths)(t \<mapsto> (rq, ph))\<rparr> \<longleftrightarrow>
     policy_ok (st_policy s') \<and> vok (st_verifier s') \<and> phase_ok env auth rq ph
     \<and> (\<forall>u rq' ph'. u \<noteq> t \<longrightarrow> ths u = Some (rq', ph') \<longrightarrow> phase_ok env auth rq' ph')"
  by (auto simp: sys_inv_def)

context signing_server
begin

lemma authenticate_inv:
  "authenticate env pol a ka s = (r, s') \<Longrightarrow> inv (st_verifier s) \<Longrightarrow> inv (st_verifier s')"
  using verify_inv by (auto simp: authenticate_def split: option.splits prod.splits)

lemma authenticate_auth:
  assumes "authenticate env pol a ka s = (Inr i, s')" and "inv (st_verifier s)"
  shows "\<exists>tok. bearerToken a = Some tok \<and> auth tok i
     \<and> (\<exists>iss \<in> set (Issuers pol). unverifiedIssuer tok = Inr iss)"
proof -
  obtain tok v where v: "bearerToken a = Some tok"
    "sv_verify env (st_verifier s) tok (Issuers pol) = (Inr i, v)"
    using assms(1) by (auto simp: result_iff)
  with verify_auth [OF assms(2) v(2)] verify_gate [OF v(2)] show ?thesis by blast
qed

lemma advance_inv:
  assumes "advance env rq ph s = (ph', s')" and "inv (st_verifier s)"
  shows "inv (st_verifier s')"
  using assms(1)
proof (cases rule: advance_cases)
  case (denied rid d s1)
  then have "inv (st_verifier s1)" using assms(2) authenticate_inv by auto
  with finish_denied_frame [OF denied(2)] show ?thesis by simp
qed (use assms(2) in \<open>auto dest: issue_cert_frame intro: authenticate_inv\<close>)

lemma advance_ok:
  assumes "advance env rq ph s = (ph', s')" and "inv (st_verifier s)" and "policy_ok (st_policy s)"
    and "phase_ok env auth rq ph"
  shows "phase_ok env auth rq ph'"
  using assms(1)
proof (cases rule: advance_cases)
  case (denied rid d s1)
  then show ?thesis
    using finish_denied_frame [OF denied(2)] status_table_not_200 [OF denied(5)] by auto
next
  case (verified rid pol pub i)
  with assms(4) authenticate_auth [OF verified(3) assms(2)] show ?thesis by simp
next
  case (issued rid pol pub i r keyID out s2 ca)
  have pol: "policy_ok pol" "check_request (sv_lib env) pol (sr_method rq) (sr_body rq) = Inr pub"
    using assms(4) issued(1) by simp_all
  then have "\<not> pol_Disabled pol" by (simp add: check_request_iff acceptable_def)
  then have "granted pol i r keyID" using issued(2) authorize_iff by blast
  moreover obtain cert where "out = lib_MarshalCert (sv_lib env) cert"
    "cert_for pol r keyID pub (sv_clock env (st_tick s)) cert"
    "crt_SignatureKey cert = Some (sv_ca_key env)"
    using issue_cert_for [OF issued(3)] by blast
  moreover obtain tok where "bearerToken (sr_auth rq) = Some tok \<and> auth tok i
     \<and> (\<exists>iss \<in> set (Issuers pol). unverifiedIssuer tok = Inr iss)"
    using assms(4) issued(1) by auto
  ultimately have "justified env auth pol rq cert" using pol by (intro justifiedI)
  with pol(1) \<open>out = lib_MarshalCert (sv_lib env) cert\<close> issued(4) show ?thesis by auto
qed (use assms in simp_all)

lemma sys_step_inv:
  assumes "sys_step env yaml path \<sigma> ev \<sigma>'" and "sys_inv env inv auth \<sigma>"
  shows "sys_inv env inv auth \<sigma>'"
  using assms(1)
proof cases
  case (arrive t rid s' rq)
  then have "st_policy s' = st_policy (sys_server \<sigma>)" "st_verifier s' = st_verifier (sys_server \<sigma>)"
    using newRequestID_simps [of env "sys_server \<sigma>"] by simp_all
  with arrive assms(2) show ?thesis by (simp add: sys_inv_put) (simp add: sys_inv_def)
next
  case (run t rq ph ph' s')
  have "inv (st_verifier (sys_server \<sigma>))" "policy_ok (st_policy (sys_server \<sigma>))"
    "phase_ok env auth rq ph"
    using assms(2) run by (auto simp: sys_inv_def)
  with advance_ok [OF run(5)] advance_inv [OF run(5)] advance_policy [OF run(5)] assms(2) run(2)
  show ?thesis by (simp add: sys_inv_put) (simp add: sys_inv_def)
next
  case (hup read)
  with assms(2) reload_policy_ok [of "sys_server \<sigma>"] show ?thesis
    by (simp add: sys_inv_def reload_state(2))
qed

lemma sys_run_inv:
  "sys_run env yaml path \<sigma> es \<sigma>' \<Longrightarrow> sys_inv env inv auth \<sigma> \<Longrightarrow> sys_inv env inv auth \<sigma>'"
  by (erule sys_run_invariant [where P = "sys_inv env inv auth"]) (auto intro: sys_step_inv)

end

lemma sys_init_inv: "policy_ok (st_policy s) \<Longrightarrow> vok (st_verifier s) \<Longrightarrow> sys_inv env vok auth (sys_init s)"
  by (simp add: sys_inv_def sys_init_def)

subsection \<open>Emergency stop\<close>

text \<open>A reload that, if it loads, loads a disabled policy.\<close>

fun keeps_disabled :: "yaml_lib \<Rightarrow> string \<Rightarrow> sys_event \<Rightarrow> bool" where
  "keeps_disabled yaml path (Hup read) =
     (case Load read yaml path of Inl e \<Rightarrow> True | Inr p \<Rightarrow> pol_Disabled p)"
| "keeps_disabled yaml path ev = True"

text \<open>A thread that had not read the policy when it was disabled.\<close>

fun stopped_phase :: "(sign_request \<times> 'pk phase) option \<Rightarrow> bool" where
  "stopped_phase None = True"
| "stopped_phase (Some (rq, Received rid)) = True"
| "stopped_phase (Some (rq, Done resp)) = (rsp_Status resp \<in> {405, 503})"
| "stopped_phase (Some (rq, ph)) = False"

definition stopped :: "nat \<Rightarrow> ('pk, 'vs) sys \<Rightarrow> bool" where
  "stopped t \<sigma> \<longleftrightarrow> pol_Disabled (st_policy (sys_server \<sigma>)) \<and> stopped_phase (sys_threads \<sigma> t)"

lemma check_request_disabled:
  assumes "pol_Disabled pol"
  shows "\<exists>d. check_request lib pol m b = Inl d \<and> den_status d \<in> {405, 503}"
  using assms by (simp add: check_request_def)

lemma advance_stopped:
  assumes "advance env rq (Received rid) s = (ph', s')" and "pol_Disabled (st_policy s)"
  shows "stopped_phase (Some (rq, ph'))"
proof -
  obtain d where d: "check_request (sv_lib env) (st_policy s) (sr_method rq) (sr_body rq) = Inl d"
    "den_status d \<in> {405, 503}"
    using check_request_disabled [OF assms(2)] by blast
  with assms(1) have "finish_denied s rid d = (ph', s')" by simp
  from finish_denied_frame [OF this] d(2) show ?thesis by auto
qed

lemma stopped_step:
  assumes "sys_step env yaml path \<sigma> ev \<sigma>'" and "stopped t \<sigma>" and "keeps_disabled yaml path ev"
  shows "stopped t \<sigma>'"
proof (cases ev)
  case (Arrive u rq)
  from assms(1) [unfolded Arrive] obtain rid s' where "newRequestID env (sys_server \<sigma>) = (rid, s')"
    and s: "\<sigma>' = \<lparr>sys_server = s', sys_threads = (sys_threads \<sigma>)(u \<mapsto> (rq, Received rid))\<rparr>"
    by (rule sys_arriveE)
  then have "st_policy s' = st_policy (sys_server \<sigma>)"
    using newRequestID_simps [of env "sys_server \<sigma>"] by simp
  with s assms(2) show ?thesis by (simp add: stopped_def)
next
  case (Run u)
  from assms(1) [unfolded Run] obtain rq ph ph' s' where
    run: "sys_threads \<sigma> u = Some (rq, ph)" "\<not> is_Done ph" "advance env rq ph (sys_server \<sigma>) = (ph', s')"
      "\<sigma>' = \<lparr>sys_server = s', sys_threads = (sys_threads \<sigma>)(u \<mapsto> (rq, ph'))\<rparr>"
    by (rule sys_runE)
  have "stopped_phase (Some (rq, ph'))" if "u = t"
  proof -
    from that run assms(2) have "stopped_phase (Some (rq, ph))" and "pol_Disabled (st_policy (sys_server \<sigma>))"
      by (simp_all add: stopped_def)
    with run advance_stopped show ?thesis by (cases ph) auto
  qed
  with run assms(2) advance_policy [OF run(3)] show ?thesis by (simp add: stopped_def)
next
  case (Hup read)
  from assms(1) [unfolded Hup] have "\<sigma>' = \<lparr>sys_server = reload read yaml path (sys_server \<sigma>),
      sys_threads = sys_threads \<sigma>\<rparr>"
    by (rule sys_hupE)
  with Hup assms(2,3) show ?thesis by (simp add: stopped_def reload_state split: sum.split_asm sum.split)
qed

lemma stopped_run:
  assumes "sys_run env yaml path \<sigma> es \<sigma>'" and "stopped t \<sigma>"
    and "\<forall>ev \<in> set es. keeps_disabled yaml path ev"
  shows "stopped t \<sigma>'"
  using assms(1,2)
  by (rule sys_run_invariant [where P = "stopped t"]) (use assms(3) stopped_step in blast)

subsection \<open>The audit log\<close>

definition is_request_event :: "detail event \<Rightarrow> bool" where
  "is_request_event e \<longleftrightarrow> ev_msg e = EventIssued \<or> ev_msg e = EventDenied"

definition request_events :: "'vs server_state \<Rightarrow> detail log" where
  "request_events s = filter is_request_event (st_audit s)"

definition completed :: "('pk, 'vs) sys \<Rightarrow> nat set" where
  "completed \<sigma> = {t. \<exists>rq resp. sys_threads \<sigma> t = Some (rq, Done resp)}"

definition logged :: "('pk, 'vs) sys \<Rightarrow> bool" where
  "logged \<sigma> \<longleftrightarrow> finite (completed \<sigma>) \<and> length (request_events (sys_server \<sigma>)) = card (completed \<sigma>)
     \<and> (\<forall>t rq resp. sys_threads \<sigma> t = Some (rq, Done resp) \<longrightarrow>
          (\<exists>e \<in> set (st_audit (sys_server \<sigma>)). event_for resp e))"

lemma event_for_request: "event_for resp e \<Longrightarrow> is_request_event e"
  by (auto simp: event_for_def is_request_event_def)

lemma completed_put:
  "completed \<lparr>sys_server = s', sys_threads = ths(t \<mapsto> (rq, ph))\<rparr> =
     (if is_Done ph then insert t (completed \<lparr>sys_server = s', sys_threads = ths\<rparr>)
      else completed \<lparr>sys_server = s', sys_threads = ths\<rparr> - {t})"
  by (cases ph) (auto simp: completed_def)

lemma completed_cong: "sys_threads \<sigma> = sys_threads \<sigma>' \<Longrightarrow> completed \<sigma> = completed \<sigma>'"
  by (simp add: completed_def)

lemma not_completed:
  "sys_threads \<sigma> t = None \<or> sys_threads \<sigma> t = Some (rq, ph) \<and> \<not> is_Done ph \<Longrightarrow> t \<notin> completed \<sigma>"
  by (auto simp: completed_def)

lemma logged_quiet:
  assumes "logged \<sigma>" and "st_audit s' = st_audit (sys_server \<sigma>)" and "t \<notin> completed \<sigma>" and "\<not> is_Done ph"
  shows "logged \<lparr>sys_server = s', sys_threads = (sys_threads \<sigma>)(t \<mapsto> (rq, ph))\<rparr>"
proof -
  have "completed \<lparr>sys_server = s', sys_threads = (sys_threads \<sigma>)(t \<mapsto> (rq, ph))\<rparr> = completed \<sigma>"
    using assms(3,4) completed_cong [of "\<lparr>sys_server = s', sys_threads = sys_threads \<sigma>\<rparr>" \<sigma>]
    by (simp add: completed_put)
  with assms(1,2,4) show ?thesis by (auto simp: logged_def request_events_def)
qed

lemma logged_done:
  assumes "logged \<sigma>" and "st_audit s' = st_audit (sys_server \<sigma>) @ [e]" and "event_for resp e"
    and "t \<notin> completed \<sigma>"
  shows "logged \<lparr>sys_server = s', sys_threads = (sys_threads \<sigma>)(t \<mapsto> (rq, Done resp))\<rparr>"
proof -
  have "completed \<lparr>sys_server = s', sys_threads = (sys_threads \<sigma>)(t \<mapsto> (rq, Done resp))\<rparr>
      = insert t (completed \<sigma>)"
    using completed_cong [of "\<lparr>sys_server = s', sys_threads = sys_threads \<sigma>\<rparr>" \<sigma>]
    by (simp add: completed_put)
  moreover have "is_request_event e" using assms(3) by (rule event_for_request)
  ultimately show ?thesis
    using assms by (auto simp: logged_def request_events_def)
qed

lemma logged_step:
  assumes "sys_step env yaml path \<sigma> ev \<sigma>'" and "logged \<sigma>"
  shows "logged \<sigma>' \<and> (\<exists>es. st_audit (sys_server \<sigma>') = st_audit (sys_server \<sigma>) @ es)"
  using assms(1)
proof cases
  case (arrive t rid s' rq)
  have "st_audit s' = st_audit (sys_server \<sigma>)"
    using newRequestID_simps [of env "sys_server \<sigma>"] arrive by simp
  with arrive logged_quiet [OF assms(2), of s' t "Received rid"] not_completed [of \<sigma> t] show ?thesis
    by simp
next
  case (run t rq ph ph' s')
  have t: "t \<notin> completed \<sigma>" using run not_completed [of \<sigma> t rq ph] by simp
  show ?thesis
  proof (cases "is_Done ph'")
    case True
    with advance_audit [OF run(5)] run(4) obtain resp e
      where "ph' = Done resp" "st_audit s' = st_audit (sys_server \<sigma>) @ [e]" "event_for resp e"
      by auto
    with run logged_done [OF assms(2) _ _ t] show ?thesis by simp
  next
    case False
    with advance_audit [OF run(5)] run(4) have "st_audit s' = st_audit (sys_server \<sigma>)" by simp
    with run False logged_quiet [OF assms(2) _ t] show ?thesis by simp
  qed
next
  case (hup read)
  obtain e where "st_audit (reload read yaml path (sys_server \<sigma>)) = st_audit (sys_server \<sigma>) @ [e]"
    "\<not> is_request_event e"
    using reload_state(3) [of read yaml path "sys_server \<sigma>"] by (auto simp: is_request_event_def)
  with hup assms(2) completed_cong [of \<sigma>' \<sigma>] show ?thesis
    by (auto simp: logged_def request_events_def)
qed

lemma logged_init: "request_events s = [] \<Longrightarrow> logged (sys_init s)"
  by (simp add: logged_def sys_init_def completed_def)

lemma logged_run: "sys_run env yaml path \<sigma> es \<sigma>' \<Longrightarrow> logged \<sigma> \<Longrightarrow> logged \<sigma>'"
  by (erule sys_run_invariant [where P = logged]) (auto dest: logged_step)

lemma startup_log_quiet:
  "cmdServe_start lib sys read yaml fl = Inr (m, s) \<Longrightarrow> request_events s = []"
  by (auto simp: cmdServe_start_iff New_def request_events_def is_request_event_def
      log_warn_def log_event_def EventIssued_def EventDenied_def)

end
