(* ===== verification/Transitions.thy ===== *)
theory Transitions
  imports Prelude
begin

text \<open>
  Runs of a labelled step relation, and the contract of a system that finishes: a measure
  that every step decreases, and a step that is possible as long as the goal is not reached.
\<close>

section \<open>Runs\<close>

inductive steps :: "('s \<Rightarrow> 'l \<Rightarrow> 's \<Rightarrow> bool) \<Rightarrow> 's \<Rightarrow> 'l list \<Rightarrow> 's \<Rightarrow> bool" for step where
  steps_none: "steps step s [] s"
| steps_more: "step s l s' \<Longrightarrow> steps step s' ls s'' \<Longrightarrow> steps step s (l # ls) s''"

inductive_simps steps_Nil_iff [simp]: "steps step s [] s'"
inductive_simps steps_Cons_iff: "steps step s (l # ls) s''"

lemma steps_append:
  "steps step s (ls @ ls') s'' \<longleftrightarrow> (\<exists>s'. steps step s ls s' \<and> steps step s' ls' s'')"
  by (induction ls arbitrary: s) (auto simp: steps_Cons_iff)

lemma steps_mono:
  assumes "steps step s ls s'" and "\<And>a l b. step a l b \<Longrightarrow> step' a l b"
  shows "steps step' s ls s'"
  using assms(1) by (induction rule: steps.induct) (auto intro: steps.intros assms(2))

lemma steps_invariant:
  assumes "steps step s ls s'" and "P s"
    and "\<And>a l b. P a \<Longrightarrow> step a l b \<Longrightarrow> P b"
  shows "P s'"
  using assms by (induction rule: steps.induct) auto

lemma steps_labels:
  assumes "steps step s ls s'" and "\<And>a l b. step a l b \<Longrightarrow> Q l"
  shows "\<forall>l \<in> set ls. Q l"
  using assms by (induction rule: steps.induct) auto

section \<open>Systems that finish\<close>

locale finishing_system =
  fixes step :: "'s \<Rightarrow> 'l \<Rightarrow> 's \<Rightarrow> bool"
    and valid :: "'s \<Rightarrow> bool"
    and work :: "'s \<Rightarrow> nat"
    and goal :: "'s \<Rightarrow> bool"
  assumes valid_step: "valid s \<Longrightarrow> step s l s' \<Longrightarrow> valid s'"
    and work_step: "valid s \<Longrightarrow> step s l s' \<Longrightarrow> work s' < work s"
    and possible: "valid s \<Longrightarrow> \<not> goal s \<Longrightarrow> \<exists>l s'. step s l s'"
begin

lemma valid_steps: "steps step s ls s' \<Longrightarrow> valid s \<Longrightarrow> valid s'"
  by (rule steps_invariant [where P = valid and step = step]) (auto intro: valid_step)

lemma work_steps: "steps step s ls s' \<Longrightarrow> valid s \<Longrightarrow> length ls + work s' \<le> work s"
proof (induction rule: steps.induct)
  case (steps_more s l s' ls s'')
  with valid_step work_step [of s l s'] show ?case by fastforce
qed simp

lemma stuck_goal: "valid s \<Longrightarrow> (\<And>l s'. \<not> step s l s') \<Longrightarrow> goal s"
  using possible by blast

lemma reaches_goal: "valid s \<Longrightarrow> \<exists>ls s'. steps step s ls s' \<and> goal s' \<and> valid s'"
proof (induction "work s" arbitrary: s rule: less_induct)
  case less
  show ?case
  proof (cases "goal s")
    case True
    with less.prems steps_none [of step s] show ?thesis by blast
  next
    case False
    with less.prems possible obtain l s1 where step: "step s l s1" by blast
    with less.prems valid_step have valid: "valid s1" by blast
    from work_step [OF less.prems step] less.hyps valid obtain ls s'
      where "steps step s1 ls s'" "goal s'" "valid s'" by blast
    with step steps_more [of step s l s1] show ?thesis by blast
  qed
qed

end

section \<open>Sums over a map\<close>

text \<open>What an update of one binding does to a sum over the domain of a finite map.\<close>

lemma sum_map_update:
  fixes f :: "'v \<Rightarrow> nat"
  assumes "finite (dom m)" and "m k = Some v"
  shows "(\<Sum>x \<in> dom (m(k \<mapsto> w)). f (the ((m(k \<mapsto> w)) x))) + f v
    = (\<Sum>x \<in> dom m. f (the (m x))) + f w"
proof -
  have dom: "dom m = insert k (dom m - {k})" "k \<notin> dom m - {k}" "finite (dom m - {k})"
    using assms by auto
  have "(\<Sum>x \<in> dom m. f (the (m x))) = f v + (\<Sum>x \<in> dom m - {k}. f (the (m x)))"
    using assms by (subst dom(1)) (simp add: sum.insert_remove)
  moreover have "(\<Sum>x \<in> dom (m(k \<mapsto> w)). f (the ((m(k \<mapsto> w)) x)))
      = f w + (\<Sum>x \<in> dom m - {k}. f (the (m x)))"
    using assms by (simp add: sum.insert_remove)
  ultimately show ?thesis by simp
qed

end
