(* ===== verification/Process.thy ===== *)
theory Process
  imports System Transitions
begin

text \<open>
  The life of a \<open>serve\<close> process around the system of requests and reloads: each request gets
  its answer in at most three of its own steps, whatever the others do; and the end of
  \<open>cmdServe\<close>, which waits for an error of the listener or a signal and then lets
  \<open>http.Server.Shutdown\<close> drain the requests for at most ten seconds.
\<close>

section \<open>A request finishes\<close>

fun phase_left :: "'pk phase \<Rightarrow> nat" where
  "phase_left (Received rid) = 3"
| "phase_left (Checked rid pol pub) = 2"
| "phase_left (Verified rid pol pub i) = 1"
| "phase_left (Done resp) = 0"

lemma phase_left_bound: "phase_left ph \<le> 3"
  by (cases ph) simp_all

lemma advance_left:
  assumes "advance env rq ph s = (ph', s')" and "\<not> is_Done ph"
  shows "phase_left ph' < phase_left ph"
  using assms(1)
proof (cases rule: advance_cases)
  case (denied rid d s1)
  with finish_denied_frame [OF denied(2)] show ?thesis by (cases ph) auto
qed (use assms(2) in auto)

definition in_phase :: "nat \<Rightarrow> sign_request \<Rightarrow> ('pk, 'vs) sys \<Rightarrow> bool" where
  "in_phase t rq \<sigma> \<longleftrightarrow> (\<exists>ph. sys_threads \<sigma> t = Some (rq, ph))"

definition thread_left :: "nat \<Rightarrow> ('pk, 'vs) sys \<Rightarrow> nat" where
  "thread_left t \<sigma> = (case sys_threads \<sigma> t of None \<Rightarrow> 0 | Some (rq, ph) \<Rightarrow> phase_left ph)"

lemma thread_left_bound: "thread_left t \<sigma> \<le> 3"
  by (auto simp: thread_left_def phase_left_bound split: option.split)

definition answered :: "nat \<Rightarrow> ('pk, 'vs) sys \<Rightarrow> bool" where
  "answered t \<sigma> \<longleftrightarrow> (\<exists>rq resp. sys_threads \<sigma> t = Some (rq, Done resp))"

text \<open>Its own steps bring it nearer to its answer, those of others leave it where it is.\<close>

lemma sys_step_left:
  assumes "sys_step env yaml path \<sigma> ev \<sigma>'" and "in_phase t rq \<sigma>"
  shows "in_phase t rq \<sigma>' \<and> thread_left t \<sigma>' + (if ev = Run t then 1 else 0) \<le> thread_left t \<sigma>"
  using assms(1)
proof cases
  case (arrive u rid s' rq')
  with assms(2) show ?thesis by (auto simp: in_phase_def thread_left_def)
next
  case (run u rq' ph ph' s')
  with advance_left [OF run(5,4)] assms(2) show ?thesis
    by (auto simp: in_phase_def thread_left_def)
next
  case (hup read)
  with assms(2) show ?thesis by (auto simp: in_phase_def thread_left_def)
qed

lemma sys_run_left:
  "sys_run env yaml path \<sigma> es \<sigma>' \<Longrightarrow> in_phase t rq \<sigma> \<Longrightarrow>
     in_phase t rq \<sigma>' \<and> thread_left t \<sigma>' + length (filter (\<lambda>ev. ev = Run t) es) \<le> thread_left t \<sigma>"
proof (induction rule: sys_run.induct)
  case (run_one \<sigma> es \<sigma>1 ev \<sigma>2)
  with sys_step_left [OF run_one.hyps(2), of t rq] show ?case by (auto split: if_splits)
qed simp

lemma run_possible:
  assumes "in_phase t rq \<sigma>" and "\<not> answered t \<sigma>"
  shows "\<exists>\<sigma>'. sys_step env yaml path \<sigma> (Run t) \<sigma>'"
proof -
  obtain ph where ph: "sys_threads \<sigma> t = Some (rq, ph)" "\<not> is_Done ph"
    using assms by (auto simp: in_phase_def answered_def is_Done_iff)
  obtain ph' s' where "advance env rq ph (sys_server \<sigma>) = (ph', s')"
    by (cases "advance env rq ph (sys_server \<sigma>)")
  with ph sys_step.run show ?thesis by blast
qed

text \<open>The steps of one request alone.\<close>

definition own_step ::
  "('pk, 'sk, 'vs) server_env \<Rightarrow> yaml_lib \<Rightarrow> string \<Rightarrow> nat
   \<Rightarrow> ('pk, 'vs) sys \<Rightarrow> unit \<Rightarrow> ('pk, 'vs) sys \<Rightarrow> bool" where
  "own_step env yaml path t \<sigma> l \<sigma>' \<longleftrightarrow> sys_step env yaml path \<sigma> (Run t) \<sigma>'"

interpretation one_request: finishing_system "own_step env yaml path t" "in_phase t rq" "thread_left t" "answered t"
  for env yaml path t rq
  by unfold_locales
    (auto simp: own_step_def dest: sys_step_left run_possible [of t rq _ env yaml path])

lemma own_steps_run:
  "steps (own_step env yaml path t) \<sigma> ls \<sigma>' \<Longrightarrow> sys_run env yaml path \<sigma>0 es \<sigma> \<Longrightarrow>
     sys_run env yaml path \<sigma>0 (es @ replicate (length ls) (Run t)) \<sigma>'"
proof (induction arbitrary: es rule: steps.induct)
  case (steps_more \<sigma> l \<sigma>1 ls \<sigma>2)
  have "sys_run env yaml path \<sigma>0 (es @ [Run t]) \<sigma>1"
    using run_one [OF steps_more.prems] steps_more.hyps(1) by (simp add: own_step_def)
  from steps_more.IH [OF this] show ?case by simp
qed simp

section \<open>The end of cmdServe\<close>

text \<open>What \<open>cmdServe\<close> returns after startup: \<open>None\<close> is nil.\<close>

datatype exit_error = ListenError string | ShutdownError string

datatype proc_phase = Serving | Draining | Exited "exit_error option"

record ('pk, 'vs) process =
  pr_sys :: "('pk, 'vs) sys"
  pr_phase :: proc_phase

datatype proc_event =
    Serve sys_event | ListenFailed string | StopSignal string | Drained | GaveUp string

text \<open>The signals of \<open>signal.Notify(stop, ...)\<close>, as \<open>sig.String()\<close> names them.\<close>

definition stop_signals :: "string list" where
  "stop_signals = [''interrupt'', ''terminated'']"

definition all_answered :: "('pk, 'vs) sys \<Rightarrow> bool" where
  "all_answered \<sigma> \<longleftrightarrow> (\<forall>t rq ph. sys_threads \<sigma> t = Some (rq, ph) \<longrightarrow> is_Done ph)"

definition log_shutdown :: "string \<Rightarrow> ('pk, 'vs) sys \<Rightarrow> ('pk, 'vs) sys" where
  "log_shutdown sig \<sigma> = \<sigma>\<lparr>sys_server := (sys_server \<sigma>)\<lparr>st_audit :=
     log_info ''shutting down'' [(''signal'', AttrString sig)] (st_audit (sys_server \<sigma>))\<rparr>\<rparr>"

text \<open>
  \<open>Shutdown\<close> returns nil when no request is left, and otherwise the error of closing the
  listener or of its context, whose deadline is ten seconds.  Until then requests go on, also
  on a connection that was accepted before.
\<close>

inductive proc_step ::
  "('pk, 'sk, 'vs) server_env \<Rightarrow> yaml_lib \<Rightarrow> string
   \<Rightarrow> ('pk, 'vs) process \<Rightarrow> proc_event \<Rightarrow> ('pk, 'vs) process \<Rightarrow> bool"
  for env yaml path where
  serving: "pr_phase \<pi> = Serving \<or> pr_phase \<pi> = Draining \<Longrightarrow>
    sys_step env yaml path (pr_sys \<pi>) ev \<sigma>' \<Longrightarrow>
    proc_step env yaml path \<pi> (Serve ev) (\<pi>\<lparr>pr_sys := \<sigma>'\<rparr>)"
| listen_failed: "pr_phase \<pi> = Serving \<Longrightarrow>
    proc_step env yaml path \<pi> (ListenFailed e) (\<pi>\<lparr>pr_phase := Exited (Some (ListenError e))\<rparr>)"
| stop_signal: "pr_phase \<pi> = Serving \<Longrightarrow> sig \<in> set stop_signals \<Longrightarrow>
    proc_step env yaml path \<pi> (StopSignal sig)
      (\<pi>\<lparr>pr_sys := log_shutdown sig (pr_sys \<pi>), pr_phase := Draining\<rparr>)"
| drained: "pr_phase \<pi> = Draining \<Longrightarrow> all_answered (pr_sys \<pi>) \<Longrightarrow>
    proc_step env yaml path \<pi> Drained (\<pi>\<lparr>pr_phase := Exited None\<rparr>)"
| gave_up: "pr_phase \<pi> = Draining \<Longrightarrow>
    proc_step env yaml path \<pi> (GaveUp e) (\<pi>\<lparr>pr_phase := Exited (Some (ShutdownError e))\<rparr>)"

inductive_cases proc_drainedE: "proc_step env yaml path \<pi> Drained \<pi>'"

definition proc_init :: "'vs server_state \<Rightarrow> ('pk, 'vs) process" where
  "proc_init s = \<lparr>pr_sys = sys_init s, pr_phase = Serving\<rparr>"

lemma proc_init_simps [simp]: "pr_sys (proc_init s) = sys_init s" "pr_phase (proc_init s) = Serving"
  by (simp_all add: proc_init_def)

text \<open>An event that names the signal.\<close>

definition stop_logged :: "detail log \<Rightarrow> bool" where
  "stop_logged l \<longleftrightarrow> (\<exists>e \<in> set l. ev_msg e = ''shutting down''
     \<and> (\<exists>sig \<in> set stop_signals. attr e ''signal'' = Some (AttrString sig)))"

lemma shutdown_event:
  "\<exists>e. st_audit (sys_server (log_shutdown sig \<sigma>)) = st_audit (sys_server \<sigma>) @ [e]
     \<and> ev_msg e = ''shutting down'' \<and> attr e ''signal'' = Some (AttrString sig) \<and> \<not> is_request_event e"
  by (simp add: log_shutdown_def log_info_def log_event_def attr_def is_request_event_def
      EventIssued_def EventDenied_def)

lemma log_shutdown_frame [simp]:
  "sys_threads (log_shutdown sig \<sigma>) = sys_threads \<sigma>"
  "st_policy (sys_server (log_shutdown sig \<sigma>)) = st_policy (sys_server \<sigma>)"
  "st_verifier (sys_server (log_shutdown sig \<sigma>)) = st_verifier (sys_server \<sigma>)"
  by (simp_all add: log_shutdown_def)

lemma logged_shutdown: "logged \<sigma> \<Longrightarrow> logged (log_shutdown sig \<sigma>)"
  using shutdown_event [of sig \<sigma>] completed_cong [of "log_shutdown sig \<sigma>" \<sigma>]
  by (auto simp: logged_def request_events_def)

lemma sys_inv_shutdown: "sys_inv env vok auth \<sigma> \<Longrightarrow> sys_inv env vok auth (log_shutdown sig \<sigma>)"
  by (simp add: sys_inv_def)

text \<open>What holds of a process all its life.\<close>

definition proc_inv :: "('pk, 'vs) process \<Rightarrow> bool" where
  "proc_inv \<pi> \<longleftrightarrow> logged (pr_sys \<pi>)
     \<and> (pr_phase \<pi> = Draining \<or> pr_phase \<pi> = Exited None \<longrightarrow> stop_logged (st_audit (sys_server (pr_sys \<pi>))))
     \<and> (pr_phase \<pi> = Exited None \<longrightarrow> all_answered (pr_sys \<pi>))"

lemma stop_logged_append: "stop_logged l \<Longrightarrow> stop_logged (l @ l')"
  by (auto simp: stop_logged_def)

lemma proc_step_inv:
  assumes "proc_step env yaml path \<pi> ev \<pi>'" and "proc_inv \<pi>"
  shows "proc_inv \<pi>'"
  using assms(1)
proof cases
  case (serving sev \<sigma>')
  with logged_step [OF serving(4)] assms(2) show ?thesis
    by (auto simp: proc_inv_def stop_logged_append)
next
  case (stop_signal sig)
  with shutdown_event [of sig "pr_sys \<pi>"] logged_shutdown [of "pr_sys \<pi>" sig] assms(2) show ?thesis
    by (auto simp: proc_inv_def stop_logged_def)
qed (use assms(2) in \<open>auto simp: proc_inv_def\<close>)

lemma proc_init_inv: "request_events s = [] \<Longrightarrow> proc_inv (proc_init s)"
  by (simp add: proc_inv_def proc_init_def logged_init)

lemma proc_steps_inv: "steps (proc_step env yaml path) \<pi> es \<pi>' \<Longrightarrow> proc_inv \<pi> \<Longrightarrow> proc_inv \<pi>'"
  by (erule steps_invariant [where P = proc_inv]) (auto intro: proc_step_inv)

text \<open>The safety invariant of the system inside the process.\<close>

context signing_server
begin

lemma proc_step_sys_inv:
  assumes "proc_step env yaml path \<pi> ev \<pi>'" and "sys_inv env inv auth (pr_sys \<pi>)"
  shows "sys_inv env inv auth (pr_sys \<pi>')"
  using assms(1)
proof cases
  case (serving sev \<sigma>')
  with sys_step_inv [OF serving(4) assms(2)] show ?thesis by simp
next
  case (stop_signal sig)
  with sys_inv_shutdown assms(2) show ?thesis by simp
qed (use assms(2) in simp_all)

lemma proc_steps_sys_inv:
  "steps (proc_step env yaml path) \<pi> es \<pi>' \<Longrightarrow> sys_inv env inv auth (pr_sys \<pi>) \<Longrightarrow>
     sys_inv env inv auth (pr_sys \<pi>')"
  by (erule steps_invariant [where P = "\<lambda>\<pi>. sys_inv env inv auth (pr_sys \<pi>)"])
    (auto intro: proc_step_sys_inv)

end

text \<open>A run of the system is one of the process that serves it.\<close>

lemma steps_snoc: "steps step s ls s' \<Longrightarrow> step s' l s'' \<Longrightarrow> steps step s (ls @ [l]) s''"
  by (auto simp: steps_append steps_Cons_iff)

lemma sys_run_proc:
  assumes "sys_run env yaml path \<sigma> es \<sigma>'" and "ph = Serving \<or> ph = Draining"
  shows "steps (proc_step env yaml path) \<lparr>pr_sys = \<sigma>, pr_phase = ph\<rparr> (map Serve es)
    \<lparr>pr_sys = \<sigma>', pr_phase = ph\<rparr>"
  using assms
proof (induction rule: sys_run.induct)
  case (run_none \<sigma>)
  show ?case by simp
next
  case (run_one \<sigma> es \<sigma>1 ev \<sigma>2)
  have "proc_step env yaml path \<lparr>pr_sys = \<sigma>1, pr_phase = ph\<rparr> (Serve ev) \<lparr>pr_sys = \<sigma>2, pr_phase = ph\<rparr>"
    using proc_step.serving [of "\<lparr>pr_sys = \<sigma>1, pr_phase = ph\<rparr>" env yaml path ev \<sigma>2] run_one
    by simp
  from steps_snoc [OF run_one.IH [OF run_one.prems] this] show ?case by simp
qed

lemma sys_run_append:
  "sys_run env yaml path \<sigma>1 es' \<sigma>2 \<Longrightarrow> sys_run env yaml path \<sigma> es \<sigma>1 \<Longrightarrow>
     sys_run env yaml path \<sigma> (es @ es') \<sigma>2"
proof (induction rule: sys_run.induct)
  case (run_one \<sigma>1 es' \<sigma>2 ev \<sigma>3)
  from sys_run.run_one [OF run_one.IH [OF run_one.prems] run_one.hyps(2)] show ?case by simp
qed simp

text \<open>Only arrivals add threads.\<close>

lemma sys_run_threads:
  "sys_run env yaml path \<sigma> es \<sigma>' \<Longrightarrow> sys_threads \<sigma>' t \<noteq> None \<Longrightarrow>
     sys_threads \<sigma> t \<noteq> None \<or> (\<exists>rq. Arrive t rq \<in> set es)"
proof (induction rule: sys_run.induct)
  case (run_one \<sigma> es \<sigma>1 ev \<sigma>2)
  from run_one.hyps(2) have "sys_threads \<sigma>1 t \<noteq> None \<or> (\<exists>rq. ev = Arrive t rq)"
    using run_one.prems by cases (auto split: if_split_asm)
  with run_one.IH show ?case by auto
qed simp

section \<open>Draining\<close>

text \<open>Requests that run while none arrives.\<close>

definition drain_step ::
  "('pk, 'sk, 'vs) server_env \<Rightarrow> yaml_lib \<Rightarrow> string
   \<Rightarrow> ('pk, 'vs) sys \<Rightarrow> nat \<Rightarrow> ('pk, 'vs) sys \<Rightarrow> bool" where
  "drain_step env yaml path \<sigma> t \<sigma>' \<longleftrightarrow> sys_step env yaml path \<sigma> (Run t) \<sigma>'"

definition finite_threads :: "('pk, 'vs) sys \<Rightarrow> bool" where
  "finite_threads \<sigma> \<longleftrightarrow> finite (dom (sys_threads \<sigma>))"

definition phases_left :: "('pk, 'vs) sys \<Rightarrow> nat" where
  "phases_left \<sigma> = (\<Sum>t \<in> dom (sys_threads \<sigma>). phase_left (snd (the (sys_threads \<sigma> t))))"

lemma finite_threads_step: "sys_step env yaml path \<sigma> ev \<sigma>' \<Longrightarrow> finite_threads \<sigma> \<Longrightarrow> finite_threads \<sigma>'"
  by (erule sys_step.cases) (simp_all add: finite_threads_def)

lemma drain_left:
  assumes "drain_step env yaml path \<sigma> t \<sigma>'" and "finite_threads \<sigma>"
  shows "phases_left \<sigma>' < phases_left \<sigma>"
proof -
  obtain rq ph ph' s' where t: "sys_threads \<sigma> t = Some (rq, ph)" "\<not> is_Done ph"
      "advance env rq ph (sys_server \<sigma>) = (ph', s')"
      "\<sigma>' = \<lparr>sys_server = s', sys_threads = (sys_threads \<sigma>)(t \<mapsto> (rq, ph'))\<rparr>"
    using assms(1) unfolding drain_step_def by (auto elim: sys_runE)
  have "phases_left \<sigma>' + phase_left ph = phases_left \<sigma> + phase_left ph'"
    using sum_map_update [OF assms(2) [unfolded finite_threads_def] t(1), of "\<lambda>x. phase_left (snd x)" "(rq, ph')"]
    by (simp only: phases_left_def t(4) sys.select_convs snd_conv)
  with advance_left [OF t(3,2)] show ?thesis by linarith
qed

interpretation draining: finishing_system "drain_step env yaml path" finite_threads phases_left all_answered
  for env yaml path
proof
  fix \<sigma> :: "('a, 'c) sys"
  assume "\<not> all_answered \<sigma>"
  then obtain t rq ph where "sys_threads \<sigma> t = Some (rq, ph)" "\<not> is_Done ph"
    by (auto simp: all_answered_def)
  then have "in_phase t rq \<sigma>" "\<not> answered t \<sigma>" by (auto simp: in_phase_def answered_def)
  from run_possible [OF this, of env yaml path] show "\<exists>l s'. drain_step env yaml path \<sigma> l s'"
    by (auto simp: drain_step_def)
qed (auto simp: drain_step_def intro: finite_threads_step drain_left [unfolded drain_step_def])

lemma drain_steps_run:
  "steps (drain_step env yaml path) \<sigma> ts \<sigma>' \<Longrightarrow> sys_run env yaml path \<sigma> (map Run ts) \<sigma>'"
proof (induction rule: steps.induct)
  case (steps_more \<sigma> t \<sigma>1 ts \<sigma>2)
  have "sys_run env yaml path \<sigma> ([] @ [Run t]) \<sigma>1"
    using steps_more.hyps(1) unfolding drain_step_def by (rule run_one [OF run_none])
  from sys_run_append [OF steps_more.IH this] show ?case by simp
qed (simp add: run_none)

lemma finite_threads_shutdown: "finite_threads (log_shutdown sig \<sigma>) \<longleftrightarrow> finite_threads \<sigma>"
  by (simp add: finite_threads_def)

lemma proc_step_finite:
  "proc_step env yaml path \<pi> ev \<pi>' \<Longrightarrow> finite_threads (pr_sys \<pi>) \<Longrightarrow> finite_threads (pr_sys \<pi>')"
  by (erule proc_step.cases) (auto intro: finite_threads_step simp: finite_threads_shutdown)

lemma proc_steps_finite:
  "steps (proc_step env yaml path) \<pi> es \<pi>' \<Longrightarrow> finite_threads (pr_sys \<pi>) \<Longrightarrow> finite_threads (pr_sys \<pi>')"
  by (erule steps_invariant [where P = "\<lambda>\<pi>. finite_threads (pr_sys \<pi>)"]) (auto intro: proc_step_finite)

text \<open>After the signal the process can end without an error: its requests drain.\<close>

lemma drains:
  assumes "pr_phase \<pi> = Draining" and "finite_threads (pr_sys \<pi>)"
  shows "\<exists>ts \<pi>'. steps (proc_step env yaml path) \<pi> (map (\<lambda>t. Serve (Run t)) ts @ [Drained]) \<pi>'
    \<and> pr_phase \<pi>' = Exited None"
proof -
  obtain ts \<sigma>' where d: "steps (drain_step env yaml path) (pr_sys \<pi>) ts \<sigma>'" "all_answered \<sigma>'"
    using draining.reaches_goal [OF assms(2)] by blast
  let ?\<pi> = "\<lparr>pr_sys = \<sigma>', pr_phase = Draining\<rparr>"
  have "\<pi> = \<lparr>pr_sys = pr_sys \<pi>, pr_phase = Draining\<rparr>" using assms(1) by simp
  with sys_run_proc [OF drain_steps_run [OF d(1)], of Draining]
  have "steps (proc_step env yaml path) \<pi> (map (\<lambda>t. Serve (Run t)) ts) ?\<pi>" by (simp add: comp_def)
  from steps_snoc [OF this proc_step.drained [of ?\<pi>]] d(2) show ?thesis by fastforce
qed

lemma nothing_after_exit: "pr_phase \<pi> = Exited r \<Longrightarrow> \<not> proc_step env yaml path \<pi> ev \<pi>'"
  by (auto elim: proc_step.cases)

end
