(* ===== verification/GoFlag.thy ===== *)
theory GoFlag
  imports GoText
begin

text \<open>
  What the commands use of the package \<open>flag\<close>: a flag set with string and boolean flags, and
  \<open>Parse\<close>, which ends the process when it fails (\<open>flag.ExitOnError\<close>).
\<close>

datatype flag_kind = StringFlag | BoolFlag

type_synonym flag_set = "string \<Rightarrow> flag_kind option"

record flag_values =
  fv_string :: "string \<Rightarrow> string"
  fv_bool :: "string \<Rightarrow> bool"

datatype flag_error =
    HelpRequested | BadFlagSyntax string | FlagNotDefined string
  | InvalidBool string string | FlagNeedsArgument string

definition ParseBool :: "string \<Rightarrow> bool option" where
  "ParseBool s =
     (if s \<in> {''1'', ''t'', ''T'', ''true'', ''TRUE'', ''True''} then Some True
      else if s \<in> {''0'', ''f'', ''F'', ''false'', ''FALSE'', ''False''} then Some False
      else None)"

text \<open>A flag's name and the value after the first \<open>=\<close>, which cannot come first.\<close>

definition cut_value :: "string \<Rightarrow> string \<times> string option" where
  "cut_value s =
     (case s of
        [] \<Rightarrow> ([], None)
      | c # cs \<Rightarrow>
          (case dropWhile (\<lambda>d. d \<noteq> CHR ''='') cs of
             [] \<Rightarrow> (s, None)
           | _ # v \<Rightarrow> (c # takeWhile (\<lambda>d. d \<noteq> CHR ''='') cs, Some v)))"

definition set_string :: "string \<Rightarrow> string \<Rightarrow> flag_values \<Rightarrow> flag_values" where
  "set_string name x v = v\<lparr>fv_string := (fv_string v)(name := x)\<rparr>"

definition set_bool :: "string \<Rightarrow> bool \<Rightarrow> flag_values \<Rightarrow> flag_values" where
  "set_bool name b v = v\<lparr>fv_bool := (fv_bool v)(name := b)\<rparr>"

text \<open>The values and the arguments that are left.\<close>

fun parse_flags ::
  "flag_set \<Rightarrow> string list \<Rightarrow> flag_values \<Rightarrow> (flag_error, flag_values \<times> string list) result" where
  "parse_flags formal [] v = Inr (v, [])"
| "parse_flags formal (s # args) v =
     (if length s < 2 \<or> hd s \<noteq> CHR ''-'' then Inr (v, s # args)
      else if s = ''--'' then Inr (v, args)
      else let body = (if s ! 1 = CHR ''-'' then drop 2 s else drop 1 s) in
        if body = [] \<or> hd body = CHR ''-'' \<or> hd body = CHR ''='' then Inl (BadFlagSyntax s)
        else (case cut_value body of (name, given) \<Rightarrow>
          (case formal name of
             None \<Rightarrow> Inl (if name = ''help'' \<or> name = ''h'' then HelpRequested else FlagNotDefined name)
           | Some BoolFlag \<Rightarrow>
               (case ParseBool (case given of Some x \<Rightarrow> x | None \<Rightarrow> ''true'') of
                  None \<Rightarrow> Inl (InvalidBool (case given of Some x \<Rightarrow> x | None \<Rightarrow> ''true'') name)
                | Some b \<Rightarrow> parse_flags formal args (set_bool name b v))
           | Some StringFlag \<Rightarrow>
               (case given of
                  Some x \<Rightarrow> parse_flags formal args (set_string name x v)
                | None \<Rightarrow>
                    (case args of
                       [] \<Rightarrow> Inl (FlagNeedsArgument name)
                     | x # args' \<Rightarrow> parse_flags formal args' (set_string name x v))))))"

text \<open>The status with which \<open>flag.ExitOnError\<close> ends the process.\<close>

fun flag_exit :: "flag_error \<Rightarrow> nat" where
  "flag_exit HelpRequested = 0"
| "flag_exit e = 2"

section \<open>Canonical arguments\<close>

text \<open>A name that needs no quoting: not empty, no \<open>-\<close> in front and no \<open>=\<close> in it.\<close>

definition flag_name :: "string \<Rightarrow> bool" where
  "flag_name n \<longleftrightarrow> n \<noteq> [] \<and> hd n \<noteq> CHR ''-'' \<and> CHR ''='' \<notin> set n"

lemma flag_nameE:
  assumes "flag_name n"
  obtains c cs where "n = c # cs" and "c \<noteq> CHR ''-''" and "c \<noteq> CHR ''=''"
    and "\<And>d. d \<in> set cs \<Longrightarrow> d \<noteq> CHR ''=''"
  using assms by (cases n) (auto simp: flag_name_def)

lemma cut_value_plain: "flag_name n \<Longrightarrow> cut_value n = (n, None)"
proof (erule flag_nameE)
  fix c cs
  assume n: "n = c # cs" and cs: "\<And>d. d \<in> set cs \<Longrightarrow> d \<noteq> CHR ''=''"
  from cs have "dropWhile (\<lambda>d. d \<noteq> CHR ''='') cs = []" by simp
  with n show ?thesis by (simp add: cut_value_def del: dropWhile_eq_Nil_conv)
qed

lemma cut_value_given: "flag_name n \<Longrightarrow> cut_value (n @ CHR ''='' # x) = (n, Some x)"
proof (erule flag_nameE)
  fix c cs
  assume n: "n = c # cs" and cs: "\<And>d. d \<in> set cs \<Longrightarrow> d \<noteq> CHR ''=''"
  from cs have "dropWhile (\<lambda>d. d \<noteq> CHR ''='') (cs @ CHR ''='' # x) = CHR ''='' # x"
    "takeWhile (\<lambda>d. d \<noteq> CHR ''='') (cs @ CHR ''='' # x) = cs"
    by (simp_all add: dropWhile_append2 takeWhile_append2)
  with n show ?thesis by (simp add: cut_value_def)
qed

lemma parse_string_flag:
  assumes "flag_name n" and "formal n = Some StringFlag"
  shows "parse_flags formal ((''--'' @ n) # x # args) v = parse_flags formal args (set_string n x v)"
  using assms(1) cut_value_plain [OF assms(1)] assms(2) by (elim flag_nameE) simp

lemma parse_string_flag_given:
  assumes "flag_name n" and "formal n = Some StringFlag"
  shows "parse_flags formal ((''--'' @ n @ CHR ''='' # x) # args) v = parse_flags formal args (set_string n x v)"
  using assms(1) cut_value_given [OF assms(1), of x] assms(2) by (elim flag_nameE) simp

lemma parse_bool_flag:
  assumes "flag_name n" and "formal n = Some BoolFlag"
  shows "parse_flags formal ((''--'' @ n) # args) v = parse_flags formal args (set_bool n True v)"
  using assms(1) cut_value_plain [OF assms(1)] assms(2) by (elim flag_nameE) (simp add: ParseBool_def)

text \<open>One minus is as good as two.\<close>

lemma parse_single_minus:
  assumes "flag_name n" and "cut_value (n @ x) = (n, given)"
  shows "parse_flags formal ((''-'' @ n @ x) # args) v = parse_flags formal ((''--'' @ n @ x) # args) v"
  using assms by (elim flag_nameE) simp

text \<open>An argument that is no flag ends the flags.\<close>

lemma parse_no_flag:
  "length s < 2 \<or> hd s \<noteq> CHR ''-'' \<Longrightarrow> parse_flags formal (s # args) v = Inr (v, s # args)"
  by simp

end
