(* ===== verification/Cli.thy ===== *)
theory Cli
  imports Process GoFlag "HOL-Library.Log_Nat"
begin

text \<open>
  The other commands of \<open>cmd/oidc-ssh-ca\<close>: the dispatch of \<open>main.go\<close>, \<open>check-config\<close>,
  \<open>explain\<close> (with \<open>loadIdentity\<close>) and \<open>print-ca-pub\<close>.  A printed line is a constructor
  that holds the values \<open>fmt\<close> formats.  \<open>explain_files\<close> and \<open>print_ca_pub\<close> are what the
  commands do with the values of their flags, \<open>cmdExplain\<close> and \<open>cmdPrintCAPub\<close> the commands
  themselves, and \<open>run_command\<close> puts all of them under \<open>main\<close>.
\<close>

section \<open>main.go\<close>

datatype command = CmdServe | CmdCheckConfig | CmdExplain | CmdPrintCAPub | CmdVersion | CmdHelp

definition main_command :: "string \<Rightarrow> command option" where
  "main_command s =
     (if s = ''serve'' then Some CmdServe
      else if s = ''check-config'' then Some CmdCheckConfig
      else if s = ''explain'' then Some CmdExplain
      else if s = ''print-ca-pub'' then Some CmdPrintCAPub
      else if s \<in> {''version'', ''--version'', ''-v'', ''-V''} then Some CmdVersion
      else if s \<in> {''help'', ''--help'', ''-h''} then Some CmdHelp
      else None)"

text \<open>How a command ends: it returns nil, it returns an error, or the process is gone already
  (\<open>flag\<close> on a bad command line, or a panic).\<close>

datatype command_end = ReturnedNil | ReturnedError | ProcessExit nat

text \<open>What \<open>main\<close> itself writes; the text of an error is left out.\<close>

datatype main_line = UsageText | UnknownCommand string | VersionText string | ErrorText

text \<open>The output and the exit status.\<close>

definition main ::
  "(command \<Rightarrow> string list \<Rightarrow> command_end) \<Rightarrow> string list \<Rightarrow> main_line list \<times> nat" where
  "main run args =
     (if length args < 2 then ([UsageText], 2)
      else case main_command (args ! 1) of
        None \<Rightarrow> ([UnknownCommand (args ! 1), UsageText], 2)
      | Some CmdVersion \<Rightarrow> ([VersionText version], 0)
      | Some CmdHelp \<Rightarrow> ([UsageText], 0)
      | Some c \<Rightarrow>
          (case run c (drop 2 args) of
             ReturnedNil \<Rightarrow> ([], 0)
           | ReturnedError \<Rightarrow> ([ErrorText], 1)
           | ProcessExit n \<Rightarrow> ([], n)))"

text \<open>The lines of the usage text.\<close>

definition usage :: "string list" where
  "usage =
    [''oidc-ssh-ca - issue short-lived OpenSSH user certificates from OIDC identities'',
     [],
     ''Usage:'',
     ''  oidc-ssh-ca serve --config policy.yaml [--listen :8080] [--ca-key-file PATH]'',
     ''  oidc-ssh-ca check-config policy.yaml'',
     ''  oidc-ssh-ca explain --policy policy.yaml --claims claims.json'',
     ''  oidc-ssh-ca print-ca-pub [--ca-key-file PATH]'',
     ''  oidc-ssh-ca version            (also: --version, -v)'',
     [],
     ''The CA private key is configured by exactly one of:'',
     ''  --ca-key-file PATH        path to an OpenSSH ed25519 private key (0600)'',
     ''  OIDC_SSH_CA_KEY_FILE      same, via environment variable'',
     ''  OIDC_SSH_CA_KEY           the private key itself, via environment variable'']"

section \<open>Command lines\<close>

text \<open>A command that parses flags and then may fail.\<close>

datatype 'e command_error = BadFlags flag_error | CommandFailed 'e

text \<open>The arguments that follow the flags are ignored by these commands.\<close>

definition with_flags ::
  "flag_set \<Rightarrow> flag_values \<Rightarrow> string list \<Rightarrow> (flag_values \<Rightarrow> ('e, 'a) result)
   \<Rightarrow> ('e command_error, 'a) result" where
  "with_flags formal defaults args k =
     (case parse_flags formal args defaults of
        Inl e \<Rightarrow> Inl (BadFlags e)
      | Inr (v, rest) \<Rightarrow> wrap_err CommandFailed (k v))"

definition serve_flag_set :: flag_set where
  "serve_flag_set = [''config'' \<mapsto> StringFlag, ''listen'' \<mapsto> StringFlag, ''ca-key-file'' \<mapsto> StringFlag,
     ''skip-key-permission-check'' \<mapsto> BoolFlag]"

definition serve_defaults :: flag_values where
  "serve_defaults = \<lparr>fv_string = (\<lambda>_. [])(''listen'' := '':8080''), fv_bool = (\<lambda>_. False)\<rparr>"

definition serve_flags_of :: "flag_values \<Rightarrow> serve_flags" where
  "serve_flags_of v =
     \<lparr>flg_config = fv_string v ''config'', flg_listen = fv_string v ''listen'',
      flg_ca_key_file = fv_string v ''ca-key-file'',
      flg_skip_key_permission_check = fv_bool v ''skip-key-permission-check''\<rparr>"

text \<open>Up to the first request, from the arguments.\<close>

definition cmdServe ::
  "('pk, 'sk) ssh_lib \<Rightarrow> os \<Rightarrow> read_file \<Rightarrow> yaml_lib \<Rightarrow> string list
   \<Rightarrow> (serve_error command_error, 'sk memorySigner \<times> 'p verifier_state server_state) result" where
  "cmdServe lib sys read yaml args =
     with_flags serve_flag_set serve_defaults args
       (\<lambda>v. cmdServe_start lib sys read yaml (serve_flags_of v))"

section \<open>check-config\<close>

definition knownGitHubClaims :: "string list" where
  "knownGitHubClaims = [''sub'', ''aud'', ''iss'', ''jti'',
     ''repository'', ''repository_owner'', ''repository_id'',
     ''repository_owner_id'', ''repository_visibility'',
     ''ref'', ''ref_type'', ''ref_protected'', ''sha'',
     ''workflow'', ''workflow_ref'', ''workflow_sha'',
     ''job_workflow_ref'', ''job_workflow_sha'', ''event_name'', ''environment'',
     ''actor'', ''actor_id'', ''run_id'', ''run_number'', ''run_attempt'',
     ''head_ref'', ''base_ref'', ''runner_environment'', ''enterprise'']"

datatype warning = UnknownClaim string string | Unrestricted string

datatype report_line =
    PolicyOK nat | DisabledLine bool | OffsetLine go_int | MaxLine go_int | KeyTypesLine "string list"
  | RuleLine string bool "string list" go_int "string option" "string list option"
  | WarningLine warning

text \<open>The warnings of one rule; \<open>None\<close> is the panic of reading a field through a nil
  \<open>match.jwt\<close>.\<close>

definition template_warnings :: "Policy \<Rightarrow> Rule \<Rightarrow> warning list" where
  "template_warnings pol r =
     (let vars = (case TemplateVars (KeyIDTemplateFor pol r) of Inl e \<Rightarrow> [] | Inr vs \<Rightarrow> vs) in
      map (UnknownClaim (rule_Name r)) (filter (\<lambda>v. v \<notin> set knownGitHubClaims) vars))"

definition rule_warnings :: "Policy \<Rightarrow> Rule \<Rightarrow> warning list option" where
  "rule_warnings pol r =
     (case match_JWT (rule_Match r) of
        None \<Rightarrow> None
      | Some m \<Rightarrow> Some (template_warnings pol r
          @ (if length (jwt_ClaimsExact m) = 0 \<and> jwt_Owner m = [] \<and> jwt_RepoName m = []
             then [Unrestricted (rule_Name r)] else [])))"

fun rules_warnings :: "Policy \<Rightarrow> Rule list \<Rightarrow> warning list option" where
  "rules_warnings pol [] = Some []"
| "rules_warnings pol (r # rs) =
     (case rule_warnings pol r of
        None \<Rightarrow> None
      | Some ws \<Rightarrow> map_option (\<lambda>ws'. ws @ ws') (rules_warnings pol rs))"

definition rule_line :: "Policy \<Rightarrow> Rule \<Rightarrow> report_line" where
  "rule_line pol r =
     RuleLine (rule_Name r) (IsEnabled r) (cert_Principals (rule_Certificate r))
       (ValidForSecondsFor pol r)
       (let fc = cert_ForceCommand (rule_Certificate r) in if fc \<noteq> [] then Some fc else None)
       (let sa = SourceAddressFor pol r in if 0 < length sa then Some sa else None)"

datatype check_error = CheckUsage | CheckLoad load_error

text \<open>The outer \<open>None\<close> is a panic.\<close>

definition cmdCheckConfig ::
  "read_file \<Rightarrow> yaml_lib \<Rightarrow> string list \<Rightarrow> (check_error, report_line list) result option" where
  "cmdCheckConfig read yaml args =
     (if length args \<noteq> 1 then Some (Inl CheckUsage)
      else case Load read yaml (args ! 0) of
        Inl e \<Rightarrow> Some (Inl (CheckLoad e))
      | Inr pol \<Rightarrow>
          map_option (\<lambda>ws. Inr
            ([PolicyOK (length (pol_Rules pol)), DisabledLine (pol_Disabled pol),
              OffsetLine (ValidAfterOffsetSeconds pol), MaxLine (MaxValidForSeconds pol),
              KeyTypesLine (AllowedPublicKeyTypes pol)]
             @ map (rule_line pol) (pol_Rules pol) @ map WarningLine ws))
            (rules_warnings pol (pol_Rules pol)))"

section \<open>Decoding a claims file\<close>

text \<open>
  \<open>strconv.ParseFloat\<close> on a JSON number: the decimal value rounded to the nearest
  \<open>float64\<close>, ties to even; \<open>None\<close> is the range error.  The sign of a zero is dropped.
\<close>

fun digits_value :: "nat \<Rightarrow> string \<Rightarrow> nat" where
  "digits_value acc [] = acc"
| "digits_value acc (c # s) = digits_value (acc * 10 + (byte c - 48)) s"

definition signed_value :: "string \<Rightarrow> int" where
  "signed_value s =
     (case s of
        [] \<Rightarrow> 0
      | c # t \<Rightarrow> if c = CHR ''-'' then - int (digits_value 0 t)
                 else if c = CHR ''+'' then int (digits_value 0 t)
                 else int (digits_value 0 s))"

text \<open>Sign, digits without the point, and decimal exponent.\<close>

definition decimal :: "string \<Rightarrow> bool \<times> nat \<times> int" where
  "decimal lit =
     (let (neg, s) = (case lit of c # t \<Rightarrow> if c = CHR ''-'' then (True, t) else (False, lit) | [] \<Rightarrow> (False, lit));
          (ip, s1) = split_while is_digit s;
          (fp, s2) = (case s1 of c # t \<Rightarrow> if c = CHR ''.'' then split_while is_digit t else ([], s1) | [] \<Rightarrow> ([], s1));
          ex = (case s2 of c # t \<Rightarrow> signed_value t | [] \<Rightarrow> 0)
      in (neg, digits_value 0 (ip @ fp), ex - int (length fp)))"

definition round_div :: "int \<Rightarrow> int \<Rightarrow> int" where
  "round_div p q =
     (let d = p div q; r = p mod q in if 2 * r > q \<or> 2 * r = q \<and> odd d then d + 1 else d)"

text \<open>The positive fraction \<open>p / q\<close> over \<open>2 ^ e\<close>.\<close>

definition scaled :: "int \<Rightarrow> int \<Rightarrow> int \<Rightarrow> int \<times> int" where
  "scaled p q e = (if 0 \<le> e then (p, q * 2 ^ nat e) else (p * 2 ^ nat (- e), q))"

definition round_float :: "int \<Rightarrow> int \<Rightarrow> float64 option" where
  "round_float p q =
     (let e0 = bitlen p - bitlen q - 53;
          (p0, q0) = scaled p q e0;
          e1 = max (-1074) (if p0 \<ge> q0 * 2 ^ 53 then e0 + 1 else e0);
          (p1, q1) = scaled p q e1;
          m = round_div p1 q1;
          (m', e2) = (if m = 2 ^ 53 then (2 ^ 52, e1 + 1) else (m, e1))
      in if e2 > 971 then None else Some (Float m' e2))"

definition ParseFloat :: "string \<Rightarrow> float64 option" where
  "ParseFloat lit =
     (case decimal lit of
        (neg, d, ex) \<Rightarrow>
          if d = 0 then Some (Float 0 0)
          else map_option (\<lambda>f. if neg then Float (- mantissa f) (exponent f) else f)
            (if 0 \<le> ex then round_float (int d * 10 ^ nat ex) 1
             else round_float (int d) (10 ^ nat (- ex))))"

text \<open>\<open>json.Unmarshal\<close> into an \<open>any\<close>; \<open>None\<close> when some number is out of range.\<close>

fun to_any :: "json \<Rightarrow> go_any option" and to_anys :: "json list \<Rightarrow> go_any list option"
  and to_members :: "(string \<times> json) list \<Rightarrow> (string \<times> go_any) list option" where
  "to_any JNull = Some ANil"
| "to_any (JBool b) = Some (ABool b)"
| "to_any (JNum n) = map_option AFloat (ParseFloat n)"
| "to_any (JStr s) = Some (AString s)"
| "to_any (JArr vs) = map_option AArray (to_anys vs)"
| "to_any (JObj ms) = map_option AObject (to_members ms)"
| "to_anys [] = Some []"
| "to_anys (v # vs) =
     (case to_any v of None \<Rightarrow> None | Some a \<Rightarrow> map_option (\<lambda>as. a # as) (to_anys vs))"
| "to_members [] = Some []"
| "to_members ((k, v) # ms) =
     (case to_any v of None \<Rightarrow> None | Some a \<Rightarrow> map_option (\<lambda>as. (k, a) # as) (to_members ms))"

text \<open>Into a \<open>map[string]any\<close>: the last of equal keys wins, \<open>null\<close> leaves the nil map.\<close>

definition unmarshal_claims :: "string \<Rightarrow> (json_error, claims) result" where
  "unmarshal_claims data =
     (case parse_json data of
        None \<Rightarrow> Inl SyntaxError
      | Some JNull \<Rightarrow> Inr Map.empty
      | Some (JObj ms) \<Rightarrow>
          (case to_members ms of
             None \<Rightarrow> Inl UnmarshalTypeError
           | Some as \<Rightarrow> Inr (map_of (rev as)))
      | Some _ \<Rightarrow> Inl UnmarshalTypeError)"

section \<open>explain\<close>

datatype identity_error = ReadClaims string | ParseClaims json_error | ClaimsNoIss

fun string_values :: "go_any list \<Rightarrow> string list" where
  "string_values [] = []"
| "string_values (AString s # vs) = s # string_values vs"
| "string_values (_ # vs) = string_values vs"

definition claim_audiences :: "claims \<Rightarrow> string list" where
  "claim_audiences cs =
     (case cs ''aud'' of
        Some (AString aud) \<Rightarrow> [aud]
      | Some (AArray vs) \<Rightarrow> string_values vs
      | _ \<Rightarrow> [])"

definition loadIdentity :: "read_file \<Rightarrow> string \<Rightarrow> (identity_error, Identity) result" where
  "loadIdentity read path =
     rbind (wrap_err ReadClaims (read path)) (\<lambda>data.
       rbind (wrap_err ParseClaims (unmarshal_claims data)) (\<lambda>cs.
         let iss = (case string_claim cs ''iss'' of Some s \<Rightarrow> s | None \<Rightarrow> []) in
         if iss = [] then Inl ClaimsNoIss
         else Inr \<lparr>id_Issuer = iss, id_Audiences = claim_audiences cs, id_Claims = cs\<rparr>))"

datatype explain_line =
    DisabledPolicy
  | MatchedRule string | PrincipalsLine "string list" | TTLLine go_int
  | ForceCommandLine string | SourceAddressLine "string list"
  | KeyIDDenied key_id_error | KeyIDLine string
  | DenyMultiple nat "string list" | DenyNone | RuleReason string explanation

datatype explain_error = ExplainUsage | ExplainLoad load_error | ExplainIdentity identity_error

definition explain_allowed :: "Policy \<Rightarrow> Identity \<Rightarrow> Rule \<Rightarrow> explain_line list" where
  "explain_allowed pol i r =
     [MatchedRule (rule_Name r), PrincipalsLine (cert_Principals (rule_Certificate r)),
      TTLLine (ValidForSecondsFor pol r)]
     @ (if cert_ForceCommand (rule_Certificate r) \<noteq> []
        then [ForceCommandLine (cert_ForceCommand (rule_Certificate r))] else [])
     @ (let sa = SourceAddressFor pol r in if 0 < length sa then [SourceAddressLine sa] else [])
     @ [case ExpandKeyID (KeyIDTemplateFor pol r) (id_Claims i) of
          Inl e \<Rightarrow> KeyIDDenied e | Inr keyID \<Rightarrow> KeyIDLine keyID]"

definition explain_rules :: "Policy \<Rightarrow> Identity \<Rightarrow> explain_line list" where
  "explain_rules pol i =
     concat (map (\<lambda>r. case ExplainRule r i of
        None \<Rightarrow> [] | Some why \<Rightarrow> [RuleReason (rule_Name r) why]) (pol_Rules pol))"

text \<open>What is printed for a policy and an identity.\<close>

definition explain_report :: "Policy \<Rightarrow> Identity \<Rightarrow> explain_line list" where
  "explain_report pol i =
     (if pol_Disabled pol then [DisabledPolicy]
      else let decision = Evaluate pol i in
        if dec_Allowed decision then explain_allowed pol i (the (dec_Rule decision))
        else if dec_Reason decision = Some ReasonMultipleRules
        then [DenyMultiple (length (dec_MatchedRules decision)) (dec_MatchedRules decision)]
        else DenyNone # explain_rules pol i)"

definition explain_files ::
  "read_file \<Rightarrow> yaml_lib \<Rightarrow> string \<Rightarrow> string \<Rightarrow> (explain_error, explain_line list) result" where
  "explain_files read yaml policyPath claimsPath =
     (if policyPath = [] \<or> claimsPath = [] then Inl ExplainUsage
      else rbind (wrap_err ExplainLoad (Load read yaml policyPath)) (\<lambda>pol.
        rbind (wrap_err ExplainIdentity (loadIdentity read claimsPath)) (\<lambda>i.
          Inr (explain_report pol i))))"

section \<open>print-ca-pub\<close>

definition print_ca_pub ::
  "('pk, 'sk) ssh_lib \<Rightarrow> os \<Rightarrow> string \<Rightarrow> bool \<Rightarrow> (cakey_error, string) result" where
  "print_ca_pub lib sys caKeyFile skip =
     rbind (fst (LoadCAKey lib sys caKeyFile skip)) (\<lambda>m. Inr (lib_MarshalKey lib (PublicKey lib m)))"

section \<open>The commands with their flags\<close>

definition explain_flag_set :: flag_set where
  "explain_flag_set = [''policy'' \<mapsto> StringFlag, ''claims'' \<mapsto> StringFlag]"

definition no_values :: flag_values where
  "no_values = \<lparr>fv_string = (\<lambda>_. []), fv_bool = (\<lambda>_. False)\<rparr>"

definition cmdExplain ::
  "read_file \<Rightarrow> yaml_lib \<Rightarrow> string list \<Rightarrow> (explain_error command_error, explain_line list) result" where
  "cmdExplain read yaml args =
     with_flags explain_flag_set no_values args
       (\<lambda>v. explain_files read yaml (fv_string v ''policy'') (fv_string v ''claims''))"

definition print_flag_set :: flag_set where
  "print_flag_set = [''ca-key-file'' \<mapsto> StringFlag, ''skip-key-permission-check'' \<mapsto> BoolFlag]"

definition cmdPrintCAPub ::
  "('pk, 'sk) ssh_lib \<Rightarrow> os \<Rightarrow> string list \<Rightarrow> (cakey_error command_error, string) result" where
  "cmdPrintCAPub lib sys args =
     with_flags print_flag_set no_values args
       (\<lambda>v. print_ca_pub lib sys (fv_string v ''ca-key-file'') (fv_bool v ''skip-key-permission-check''))"

text \<open>How the commands end; a panic exits with status 2.  \<open>served\<close> is what the process
  returns once it has served, as \<open>Process\<close> describes it.\<close>

fun ends_with :: "('e command_error, 'a) result \<Rightarrow> ('a \<Rightarrow> command_end) \<Rightarrow> command_end" where
  "ends_with (Inl (BadFlags e)) k = ProcessExit (flag_exit e)"
| "ends_with (Inl (CommandFailed e)) k = ReturnedError"
| "ends_with (Inr x) k = k x"

fun run_command ::
  "('pk, 'sk) ssh_lib \<Rightarrow> os \<Rightarrow> read_file \<Rightarrow> yaml_lib
   \<Rightarrow> ('sk memorySigner \<Rightarrow> 'p verifier_state server_state \<Rightarrow> exit_error option)
   \<Rightarrow> command \<Rightarrow> string list \<Rightarrow> command_end" where
  "run_command lib sys read yaml served CmdServe args =
     ends_with (cmdServe lib sys read yaml args)
       (\<lambda>(m, s). case served m s of None \<Rightarrow> ReturnedNil | Some e \<Rightarrow> ReturnedError)"
| "run_command lib sys read yaml served CmdCheckConfig args =
     (case cmdCheckConfig read yaml args of
        None \<Rightarrow> ProcessExit 2
      | Some (Inl e) \<Rightarrow> ReturnedError
      | Some (Inr ls) \<Rightarrow> ReturnedNil)"
| "run_command lib sys read yaml served CmdExplain args =
     ends_with (cmdExplain read yaml args) (\<lambda>ls. ReturnedNil)"
| "run_command lib sys read yaml served CmdPrintCAPub args =
     ends_with (cmdPrintCAPub lib sys args) (\<lambda>out. ReturnedNil)"
| "run_command lib sys read yaml served c args = ReturnedNil"

section \<open>Facts\<close>

lemma template_warnings_iff:
  assumes "policy_ok pol" and "r \<in> set (pol_Rules pol)"
  shows "UnknownClaim n v \<in> set (template_warnings pol r) \<longleftrightarrow>
     n = rule_Name r \<and> v \<in> set (var_names (KeyIDTemplateFor pol r)) \<and> v \<notin> set knownGitHubClaims"
proof -
  obtain vs where vs: "templateVars (KeyIDTemplateFor pol r) = Inr vs"
    using policy_ok_template [OF assms] by blast
  then have "vs = var_names (KeyIDTemplateFor pol r)" by (simp add: templateVars_Inr_iff)
  with vs show ?thesis
    by (auto simp: template_warnings_def TemplateVars_def Let_def simp del: set_simps)
qed

lemma rule_warnings_ok:
  assumes "policy_ok pol" and "r \<in> set (pol_Rules pol)"
  shows "rule_warnings pol r \<noteq> None"
  using policy_ok_rule [OF assms] by (auto simp: rule_warnings_def rule_ok_def)

lemma rules_warnings_ok:
  "\<forall>r \<in> set rs. rule_warnings pol r \<noteq> None \<Longrightarrow>
     \<exists>ws. rules_warnings pol rs = Some ws
       \<and> set ws = (\<Union>r \<in> set rs. set (the (rule_warnings pol r)))"
  by (induction rs) auto

lemma explain_report_allowed:
  assumes "\<not> pol_Disabled pol"
  shows "filter (candidate i) (pol_Rules pol) = [r] \<Longrightarrow> explain_report pol i = explain_allowed pol i r"
proof -
  assume "filter (candidate i) (pol_Rules pol) = [r]"
  then have "dec_Allowed (Evaluate pol i)" and "dec_Rule (Evaluate pol i) = Some r"
    using Evaluate_allowed_filter [of pol i r] assms by simp_all
  with assms show ?thesis by (simp add: explain_report_def Let_def)
qed

lemma KeyIDLine_allowed:
  "KeyIDLine k \<in> set (explain_allowed pol i r) \<longleftrightarrow>
     ExpandKeyID (KeyIDTemplateFor pol r) (id_Claims i) = Inr k"
  by (auto simp: explain_allowed_def Let_def split: sum.splits)

lemma no_KeyIDLine_rules: "KeyIDLine k \<notin> set (explain_rules pol i)"
  by (auto simp: explain_rules_def split: option.splits)

section \<open>Canonical command lines\<close>

text \<open>The arguments that set the flags of \<open>serve\<close>, and those for the CA key alone.\<close>

definition key_args :: "serve_flags \<Rightarrow> string list" where
  "key_args fl = [''--ca-key-file'', flg_ca_key_file fl]
     @ (if flg_skip_key_permission_check fl then [''--skip-key-permission-check''] else [])"

definition serve_args :: "serve_flags \<Rightarrow> string list" where
  "serve_args fl = [''--config'', flg_config fl, ''--listen'', flg_listen fl] @ key_args fl"

lemma command_flag_names:
  "flag_name ''config''" "flag_name ''listen''" "flag_name ''ca-key-file''"
  "flag_name ''skip-key-permission-check''" "flag_name ''policy''" "flag_name ''claims''"
  by (simp_all add: flag_name_def)

lemma parse_command_flags:
  "formal ''config'' = Some StringFlag \<Longrightarrow> parse_flags formal (''--config'' # x # args) v
     = parse_flags formal args (set_string ''config'' x v)"
  "formal ''listen'' = Some StringFlag \<Longrightarrow> parse_flags formal (''--listen'' # x # args) v
     = parse_flags formal args (set_string ''listen'' x v)"
  "formal ''ca-key-file'' = Some StringFlag \<Longrightarrow> parse_flags formal (''--ca-key-file'' # x # args) v
     = parse_flags formal args (set_string ''ca-key-file'' x v)"
  "formal ''skip-key-permission-check'' = Some BoolFlag \<Longrightarrow>
     parse_flags formal (''--skip-key-permission-check'' # args) v
     = parse_flags formal args (set_bool ''skip-key-permission-check'' True v)"
  "formal ''policy'' = Some StringFlag \<Longrightarrow> parse_flags formal (''--policy'' # x # args) v
     = parse_flags formal args (set_string ''policy'' x v)"
  "formal ''claims'' = Some StringFlag \<Longrightarrow> parse_flags formal (''--claims'' # x # args) v
     = parse_flags formal args (set_string ''claims'' x v)"
  using parse_string_flag [OF command_flag_names(1), of formal x args v]
    parse_string_flag [OF command_flag_names(2), of formal x args v]
    parse_string_flag [OF command_flag_names(3), of formal x args v]
    parse_bool_flag [OF command_flag_names(4), of formal args v]
    parse_string_flag [OF command_flag_names(5), of formal x args v]
    parse_string_flag [OF command_flag_names(6), of formal x args v]
  by (simp_all del: parse_flags.simps)

lemma with_flags_parsed:
  "parse_flags formal args defaults = Inr (v, rest) \<Longrightarrow>
     with_flags formal defaults args k = wrap_err CommandFailed (k v)"
  by (simp add: with_flags_def)

lemma serve_args_parsed:
  "\<exists>v rest. parse_flags serve_flag_set (serve_args fl) serve_defaults = Inr (v, rest) \<and> serve_flags_of v = fl"
  by (cases "flg_skip_key_permission_check fl")
    (simp_all add: serve_args_def key_args_def parse_command_flags serve_flag_set_def serve_defaults_def
      serve_flags_of_def set_string_def set_bool_def del: parse_flags.simps(2))

lemma cmdServe_args:
  "cmdServe lib sys read yaml (serve_args fl) = wrap_err CommandFailed (cmdServe_start lib sys read yaml fl)"
  using serve_args_parsed [of fl] by (auto simp: cmdServe_def with_flags_parsed)

lemma cmdPrintCAPub_args:
  "cmdPrintCAPub lib sys (key_args fl) = wrap_err CommandFailed
     (print_ca_pub lib sys (flg_ca_key_file fl) (flg_skip_key_permission_check fl))"
proof -
  obtain v rest where p: "parse_flags print_flag_set (key_args fl) no_values = Inr (v, rest)"
    and v: "fv_string v ''ca-key-file'' = flg_ca_key_file fl"
      "fv_bool v ''skip-key-permission-check'' = flg_skip_key_permission_check fl"
    by (cases "flg_skip_key_permission_check fl")
      (simp_all add: key_args_def parse_command_flags print_flag_set_def no_values_def
        set_string_def set_bool_def del: parse_flags.simps(2))
  show ?thesis unfolding cmdPrintCAPub_def with_flags_parsed [OF p] v ..
qed

lemma cmdExplain_args:
  "cmdExplain read yaml [''--policy'', policyPath, ''--claims'', claimsPath] =
     wrap_err CommandFailed (explain_files read yaml policyPath claimsPath)"
proof -
  obtain v rest where p: "parse_flags explain_flag_set [''--policy'', policyPath, ''--claims'', claimsPath] no_values
      = Inr (v, rest)"
    and v: "fv_string v ''policy'' = policyPath" "fv_string v ''claims'' = claimsPath"
    by (simp add: parse_command_flags explain_flag_set_def no_values_def set_string_def
        del: parse_flags.simps(2))
  show ?thesis unfolding cmdExplain_def with_flags_parsed [OF p] v ..
qed

end
