(* ===== verification/Demo.thy ===== *)
theory Demo
  imports Cli
begin

text \<open>
  One concrete deployment: a policy with one rule, a library whose keys are strings, an
  issuer \<open>i\<close> whose tokens verify, and a request that is granted.  The properties are
  applied to it.
\<close>

section \<open>The policy\<close>

definition demo_defaults :: Defaults where
  "demo_defaults = \<lparr>def_ValidAfterOffsetSeconds = None, def_MaxValidForSeconds = None,
     def_AllowedPublicKeyTypes = [], def_Extensions = None, def_ValidForSeconds = None,
     def_KeyIDTemplate = [], def_SourceAddress = [''192.0.2.0/24'']\<rparr>"

definition demo_match :: JWTMatch where
  "demo_match = \<lparr>jwt_Issuer = ''i'', jwt_Audience = ''a'', jwt_Owner = ''o'', jwt_RepoName = [],
     jwt_ClaimsExact = [(''ref'', ''m'')]\<rparr>"

definition demo_rule :: Rule where
  "demo_rule = \<lparr>rule_Name = ''deploy'', rule_Enabled = None,
     rule_Match = \<lparr>match_JWT = Some demo_match\<rparr>,
     rule_Certificate = \<lparr>cert_Principals = [''ops''], cert_ValidForSeconds = Some 300,
       cert_KeyIDTemplate = ''ci-${sub}'', cert_Extensions = None, cert_ForceCommand = ''ls'',
       cert_SourceAddress = []\<rparr>\<rparr>"

definition demo_policy :: Policy where
  "demo_policy = \<lparr>pol_Version = 1, pol_Disabled = False, pol_Defaults = demo_defaults,
     pol_Rules = [demo_rule]\<rparr>"

lemmas demo_policy_defs = demo_defaults_def demo_match_def demo_rule_def demo_policy_def

lemma demo_rule_name: "MatchString ruleNameRe ''deploy''"
  by (simp add: ruleNameRe_def rule_name_char_def char_class_defs)

lemma demo_principal: "MatchString principalRe ''ops''"
  by (simp add: principalRe_def principal_char_def char_class_defs)

lemma demo_segments:
  "segments ''ci-${sub}'' = [Lit CHR ''c'', Lit CHR ''i'', Lit CHR ''-'', Var ''sub'']"
  by (simp add: match_var_def segments.simps)

lemma demo_template: "templateVars ''ci-${sub}'' = Inr [''sub'']"
  by (simp add: templateVars_Inr_iff var_names_def strip_vars_def
      demo_segments claim_name_char_def key_id_char_def keyid_pattern_defs char_class_defs)

lemma demo_source: "cidr_list_ok [''192.0.2.0/24'']"
  by (simp add: cidr_list_ok_def ParseCIDR_v4)

lemma demo_policy_ok: "policy_ok demo_policy"
proof -
  have "template_grammar ''ci-${sub}'' [''sub'']"
    using demo_template by (simp add: templateVars_grammar_iff)
  then have "\<exists>vs. template_grammar ''ci-${sub}'' vs" by blast
  moreover have "force_command_ok ''ls''"
    by (simp add: force_command_ok_def is_control_def sublist_code)
  ultimately show ?thesis
    using demo_rule_name demo_principal demo_source tg_empty
    by (auto simp: policy_ok_def defaults_ok_def rule_ok_def match_ok_def certificate_ok_def
        demo_policy_defs effective_defs DefaultMaxValidForSeconds_def)
qed

section \<open>The environment\<close>

definition demo_lib :: "(string, string) ssh_lib" where
  "demo_lib = \<lparr>lib_ParseAuthorizedKey = (\<lambda>k. Inr (k, [])), lib_Type = (\<lambda>k. ''ssh-ed25519''),
     lib_FingerprintSHA256 = (\<lambda>k. ''SHA256:'' @ k), lib_MarshalKey = (\<lambda>k. k),
     lib_MarshalCert = (\<lambda>c. ''cert:'' @ crt_KeyId c), lib_ParsePrivateKey = (\<lambda>p. Inr p),
     lib_PublicKey = (\<lambda>sk. ''pub:'' @ sk),
     lib_SignCert = (\<lambda>sk n c. Inr (''nonce'', ''sig''))\<rparr>"

definition demo_claims :: claims where
  "demo_claims = [''sub'' \<mapsto> AString ''s'', ''ref'' \<mapsto> AString ''m'', ''repository'' \<mapsto> AString ''o/r'',
     ''exp'' \<mapsto> AFloat (Float 1000 0)]"

definition demo_now :: gotime where
  "demo_now = time_Unix 900"

definition demo_oidc :: "string oidc_env" where
  "demo_oidc = \<lparr>env_clock = (\<lambda>n. demo_now), env_new_provider = (\<lambda>n iss. Inr iss),
     env_jwks_uri = (\<lambda>p. Inr ''u''), env_bad_url = (\<lambda>u. None),
     env_http_do = (\<lambda>n u. Inr \<lparr>resp_status = 200,
        resp_body = \<lparr>src_bytes = ''{'' @ [CHR 0x22] @ ''keys'' @ [CHR 0x22] @ '':[]}'', src_error = None\<rparr>\<rparr>),
     env_ctx_err = (\<lambda>n. False),
     env_verify = (\<lambda>n cfg p raw. Inr \<lparr>tok_Issuer = p, tok_Audience = [''a''],
        tok_Claims = Inr demo_claims\<rparr>),
     env_float_oob = (\<lambda>f. 0)\<rparr>"

definition demo_rand :: rand where
  "demo_rand = (\<lambda>n. Some (\<lambda>k. 0))"

definition demo_env :: "(string, string, string verifier_state) server_env" where
  "demo_env = production_env demo_lib (NewMemorySigner ''ca'') demo_oidc demo_rand (\<lambda>n. demo_now)"

definition demo_state :: "string verifier_state server_state" where
  "demo_state = New demo_policy NewRemoteVerifier []"

definition demo_body :: string where
  "demo_body = marshal_map [(''public_key'', ''k'')]"

definition demo_token :: string where
  "demo_token = ''h.eyJpc3MiOiJpIn0.s''"

definition demo_auth :: string where
  "demo_auth = ''Bearer '' @ demo_token"

definition demo_identity :: Identity where
  "demo_identity = \<lparr>id_Issuer = ''i'', id_Audiences = [''a''], id_Claims = demo_claims\<rparr>"

section \<open>The stages, evaluated\<close>

lemma field_matches_same [simp]: "field_matches n n"
  by (simp add: field_matches_def)

lemma demo_public_key: "decode_string_field ''public_key'' demo_body = Inr ''k''"
proof -
  have "parse_json demo_body = Some (JObj [(''public_key'', JStr ''k'')])"
    unfolding demo_body_def by (subst parse_marshal_map) (simp_all add: plain_char_def)
  then show ?thesis by (simp add: decode_string_field_def)
qed

lemma demo_pub: "ValidatePublicKey demo_lib ''k'' [''ssh-ed25519''] = Inr ''k''"
  by (simp add: ValidatePublicKey_iff demo_lib_def trims_to_empty_def
      MaxPublicKeyBytes_def sublist_code)

lemma demo_body_length: "length demo_body \<le> MaxRequestBody"
  by (simp add: demo_body_def marshal_map_def quote_string_def MaxRequestBody_def)

lemma demo_check: "check_request demo_lib demo_policy ''POST'' demo_body = Inr ''k''"
  unfolding check_request_iff acceptable_def
  using demo_body_length demo_public_key demo_pub
  by (simp add: demo_policy_def demo_defaults_def AllowedPublicKeyTypes_def)

lemma demo_issuer: "unverifiedIssuer demo_token = Inr ''i''"
proof -
  have "DecodeString ''eyJpc3MiOiJpIn0'' = Some (marshal_map [(''iss'', ''i'')])"
    by (simp add: DecodeString_def base64_value_def char_class_defs marshal_map_def quote_string_def
        chr_def char_of_def bit_0)
  moreover have "parse_json (marshal_map [(''iss'', ''i'')]) = Some (JObj [(''iss'', JStr ''i'')])"
    by (subst parse_marshal_map) (simp_all add: plain_char_def)
  ultimately show ?thesis
    by (simp add: unverifiedIssuer_def demo_token_def decode_string_field_def)
qed

lemma demo_jwks: "decode_raw_list_field ''keys'' (''{'' @ [CHR 0x22] @ ''keys'' @ [CHR 0x22] @ '':[]}'') = Inr (Some [])"
proof -
  have "lex (''{'' @ [CHR 0x22] @ ''keys'' @ [CHR 0x22] @ '':[]}'')
      = lex (CHR ''{'' # quote_string ''keys'' @ '':[]}'')"
    by (simp add: quote_string_def)
  also have "\<dots> = Some (tokens_of (JObj [(''keys'', JArr [])]))"
    by (simp add: lex_punctuation [of "CHR ''{''" TLBrace] lex_punctuation [of "CHR '':''" TColon]
        lex_punctuation [of "CHR ''[''" TLBrack] lex_punctuation [of "CHR '']''" TRBrack]
        lex_punctuation [of "CHR ''}''" TRBrace] punctuation_def lex_quote_plain plain_char_def)
  finally have "parse_json (''{'' @ [CHR 0x22] @ ''keys'' @ [CHR 0x22] @ '':[]}'')
      = Some (JObj [(''keys'', JArr [])])"
    by (rule parse_tokens_of) (simp add: max_depth_def)
  then show ?thesis by (simp add: decode_raw_list_field_def)
qed

lemma demo_discovery:
  "discoverProvider demo_oidc iss s = (Inr iss, s\<lparr>vs_net := vs_net s + 2\<rparr>)"
  using demo_jwks
  by (simp add: discoverProvider_def use_net_def checkJWKS_def demo_oidc_def read_limited_def
      jwksMaxResponseBytes_def)

lemma demo_now_facts: "wf_time demo_now" "unix_ns demo_now = 900 * ns_per_s" "central demo_now"
  using time_Unix_exact [of 900] by (simp_all add: demo_now_def date_bound_def central_def)

lemma demo_exp:
  "claim_seconds oob demo_claims ''exp'' = Some 1000"
  "claim_seconds oob demo_claims ''nbf'' = None" "claim_seconds oob demo_claims ''iat'' = None"
  by (simp_all add: claim_seconds_def demo_claims_def float_to_int64_def trunc_float_def)

lemma demo_dates: "dates_bounded oob demo_claims"
  by (simp add: dates_bounded_def demo_exp date_bound_def)

lemma demo_time: "checkTimeClaims oob demo_claims demo_now = Inr ()"
  using checkTimeClaims_window [OF demo_dates demo_now_facts(1)]
  by (simp add: time_window_def demo_exp demo_now_facts ns_per_s_def)

lemma provider_unknown:
  assumes "ent_provider (entry s iss) = None" and "ent_err (entry s iss) = None"
  shows "provider env iss s = refresh env iss (entry s iss) (put_entry s iss (entry s iss))"
proof -
  have "cache_fresh env (entry s iss) s' = (False, s')" "backing_off env (entry s iss) s' = (False, s')" for s'
    using assms by (simp_all add: cache_fresh_def backing_off_def)
  then show ?thesis by (simp add: provider_def Let_def)
qed

lemma demo_verify:
  "\<exists>v. Verify demo_oidc NewRemoteVerifier demo_token [''i''] = (Inr demo_identity, v)"
proof -
  have "ent_provider (entry (NewRemoteVerifier :: string verifier_state) ''i'') = None"
    "ent_err (entry (NewRemoteVerifier :: string verifier_state) ''i'') = None"
    by (simp_all add: entry_def NewRemoteVerifier_def empty_entry_def)
  then have "fst (provider demo_oidc ''i'' NewRemoteVerifier) = Inr ''i''"
    using demo_discovery by (simp add: provider_unknown refresh_def Let_def split: prod.splits)
  then obtain s1 where "provider demo_oidc ''i'' NewRemoteVerifier = (Inr ''i'', s1)"
    by (metis prod.collapse)
  then show ?thesis
    using demo_issuer demo_time
    by (simp add: Verify_def demo_identity_def use_net_def read_clock_def demo_oidc_def)
qed

lemma demo_candidate: "candidate demo_identity demo_rule"
  by (simp add: candidate_def ruleMatches_iff satisfies_def IsEnabled_def demo_identity_def demo_claims_def
      demo_rule_def demo_match_def repository_matches_def string_claim_def contains_def)

lemma demo_expand: "ExpandKeyID ''ci-${sub}'' demo_claims = Inr ''ci-s''"
  by (simp add: ExpandKeyID_Inr_iff var_names_def demo_segments expansion_def claim_fault_def
      demo_claims_def string_claim_def MaxKeyIDLength_def keyIDValueRe_def key_id_char_def
      char_class_defs)

lemma demo_granted: "granted demo_policy demo_identity demo_rule ''ci-s''"
  using demo_candidate demo_expand
  by (simp add: granted_def demo_policy_def demo_identity_def demo_rule_def KeyIDTemplateFor_def)

lemma demo_issue:
  "\<exists>s'. issue_cert demo_env demo_policy demo_rule ''ci-s'' ''k'' ca s = (Inr ''cert:ci-s'', s')"
  by (simp add: issue_cert_def Let_def Issue_def randomSerial_def demo_env_def demo_rand_def
      SignCertificate_def NewMemorySigner_def demo_lib_def rbind_def wrap_err_def
      unsigned_cert_def cert_request_def)

lemma demo_bearer: "bearerToken demo_auth = Some demo_token"
  by (simp add: bearerToken_def demo_auth_def demo_token_def HasPrefix_def)

lemma demo_issuers: "Issuers demo_policy = [''i'']"
  by (simp add: Issuers_def demo_policy_def demo_rule_def demo_match_def IsEnabled_def)

lemma demo_authenticate:
  assumes "st_verifier s = NewRemoteVerifier"
  shows "\<exists>s'. authenticate demo_env demo_policy demo_auth ka s = (Inr demo_identity, s')"
  using demo_verify demo_bearer demo_issuers assms by (auto simp: authenticate_iff demo_env_def)

lemma demo_enabled: "\<not> pol_Disabled demo_policy"
  by (simp add: demo_policy_def)

lemma demo_pipeline:
  assumes "st_verifier s = NewRemoteVerifier"
  shows "\<exists>attrs s'. sign_pipeline demo_env demo_policy ''POST'' demo_auth demo_body s
    = (Inr (''cert:ci-s'', attrs), s')"
proof -
  obtain s1 where "authenticate demo_env demo_policy demo_auth (key_attrs demo_lib ''k'') s
      = (Inr demo_identity, s1)"
    using demo_authenticate [OF assms] by blast
  moreover have "authorize demo_policy demo_identity ca = Inr (demo_rule, ''ci-s'')" for ca
    using demo_granted authorize_iff [OF demo_enabled] by blast
  moreover obtain s2 where "issue_cert demo_env demo_policy demo_rule ''ci-s'' ''k''
      (key_attrs demo_lib ''k'' @ identityAttrs demo_identity) s1 = (Inr ''cert:ci-s'', s2)"
    using demo_issue by blast
  moreover have "sv_lib demo_env = demo_lib" by (simp add: demo_env_def)
  ultimately show ?thesis
    using demo_check by (simp add: sign_pipeline_def Let_def)
qed

lemma demo_sign_at:
  assumes "st_policy s = demo_policy" and "st_verifier s = NewRemoteVerifier"
  shows "\<exists>resp s'. Sign demo_env s ''POST'' demo_auth demo_body = (resp, s')
    \<and> rsp_Status resp = 200 \<and> rsp_Body resp = ''cert:ci-s''"
proof -
  obtain rid s0 where n: "newRequestID demo_env s = (rid, s0)" by (cases "newRequestID demo_env s")
  then have "st_verifier s0 = NewRemoteVerifier"
    using newRequestID_simps(3) [of demo_env s] assms by simp
  then obtain attrs s1 where "sign_pipeline demo_env demo_policy ''POST'' demo_auth demo_body s0
      = (Inr (''cert:ci-s'', attrs), s1)"
    using demo_pipeline by blast
  with n assms show ?thesis by (simp add: Sign_def sign_with_def)
qed

lemma demo_sign:
  "\<exists>resp s'. Sign demo_env demo_state ''POST'' demo_auth demo_body = (resp, s')
    \<and> rsp_Status resp = 200 \<and> rsp_Body resp = ''cert:ci-s''"
  by (rule demo_sign_at) (simp_all add: demo_state_def New_def)

lemma demo_state_ok: "policy_ok (st_policy demo_state)" "cache_inv oe (st_verifier demo_state)"
  using demo_policy_ok cache_inv_init by (simp_all add: demo_state_def New_def)

section \<open>A run of the whole server\<close>

definition demo_os :: os where
  "demo_os = \<lparr>os_getenv = (\<lambda>v. []),
     os_open = (\<lambda>p. Inr \<lparr>file_stat_error = None, file_regular = True, file_perm = 0x180,
       file_read = Inr ''ca''\<rparr>)\<rparr>"

definition demo_read :: read_file where
  "demo_read = (\<lambda>p. Inr p)"

text \<open>A decoder that knows two documents.\<close>

definition demo_yaml :: yaml_lib where
  "demo_yaml = \<lparr>yaml_decode = (\<lambda>d. if d = ''policy.yaml'' then Inr demo_policy
       else if d = ''stop.yaml'' then Inr (demo_policy\<lparr>pol_Disabled := True\<rparr>) else Inl ''syntax''),
     yaml_second_eof = (\<lambda>d. True)\<rparr>"

definition demo_flags :: serve_flags where
  "demo_flags = \<lparr>flg_config = ''policy.yaml'', flg_listen = '':8080'', flg_ca_key_file = ''ca.key'',
     flg_skip_key_permission_check = False\<rparr>"

definition demo_request :: sign_request where
  "demo_request = \<lparr>sr_method = ''POST'', sr_auth = demo_auth, sr_body = demo_body\<rparr>"

lemma demo_load: "Load demo_read demo_yaml ''policy.yaml'' = Inr demo_policy"
  using demo_policy_ok by (simp add: Load_iff demo_read_def demo_yaml_def)

lemma demo_key: "fst (LoadCAKey demo_lib demo_os ''ca.key'' False) = Inr (NewMemorySigner ''ca'')"
  by (simp add: LoadCAKey_iff key_sources_def demo_os_def readKeyFile_iff demo_lib_def)

lemma demo_start:
  "\<exists>log. cmdServe_start demo_lib demo_os demo_read demo_yaml demo_flags
     = Inr (NewMemorySigner ''ca'', New demo_policy NewRemoteVerifier log :: string verifier_state server_state)"
  using demo_load demo_key by (auto simp: cmdServe_start_iff demo_flags_def)

lemma demo_three_runs:
  assumes "newRequestID env s = (rid, s0)"
    and "Sign env s (sr_method rq) (sr_auth rq) (sr_body rq) = (resp, s')" and "rsp_Status resp = 200"
  shows "\<exists>\<sigma>. sys_run env yaml path (sys_init s) [Arrive 0 rq, Run 0, Run 0, Run 0] \<sigma>
    \<and> sys_threads \<sigma> 0 = Some (rq, Done resp)"
proof -
  obtain ph1 s1 where a1: "advance env rq (Received rid) s0 = (ph1, s1)"
    by (cases "advance env rq (Received rid) s0")
  obtain ph2 s2 where a2: "advance env rq ph1 s1 = (ph2, s2)" by (cases "advance env rq ph1 s1")
  obtain ph3 s3 where a3: "advance env rq ph2 s2 = (ph3, s3)" by (cases "advance env rq ph2 s2")
  have done3: "ph3 = Done resp"
    using three_steps [OF assms(1,2)] a1 a2 a3 by (simp add: numeral_3_eq_3)
  have denied: "rsp_Status q \<noteq> 200" if "advance env rq ph t = (Done q, t')" "\<not> is_Done ph"
    "\<forall>rid pol pub i. ph \<noteq> Verified rid pol pub i" for ph t q t'
    using that(1)
  proof (cases rule: advance_cases)
    case (denied rid d s1)
    with finish_denied_frame [OF denied(2)] status_table_not_200 [OF denied(5)] show ?thesis by auto
  qed (use that(2,3) in auto)
  have n1: "\<not> is_Done ph1" and n2: "\<not> is_Done ph2"
  proof -
    show "\<not> is_Done ph1"
    proof
      assume "is_Done ph1"
      then obtain q where q: "ph1 = Done q" by (auto simp: is_Done_iff)
      with a2 a3 done3 have "q = resp" by auto
      with q denied [OF a1 [unfolded q]] assms(3) show False by simp
    qed
    moreover have "ph1 \<noteq> Verified r pol pub i" for r pol pub i
      using a1 by (auto simp: finish_denied_def split: sum.splits prod.splits)
    ultimately show "\<not> is_Done ph2"
      using a2 a3 done3 assms(3) denied [of ph1 s1 resp s2] by (cases ph2) auto
  qed
  let ?st = "\<lambda>s ph. \<lparr>sys_server = s, sys_threads = [0 \<mapsto> (rq, ph)]\<rparr>"
  have "sys_step env yaml path (sys_init s) (Arrive 0 rq) (?st s0 (Received rid))"
    using sys_step.arrive [of "sys_init s" 0 env rid s0 yaml path rq] assms(1)
    by (simp add: sys_init_def)
  note first = run_one [OF run_none this]
  have step: "sys_run env yaml path (sys_init s) (es @ [Run 0]) (?st t' ph')"
    if "sys_run env yaml path (sys_init s) es (?st t ph)" "advance env rq ph t = (ph', t')" "\<not> is_Done ph"
    for es t ph t' ph'
    using run_one [OF that(1)] sys_step.run [of "?st t ph" 0 rq ph env ph' t' yaml path] that(2,3)
    by simp
  have "sys_run env yaml path (sys_init s) (((([] @ [Arrive 0 rq]) @ [Run 0]) @ [Run 0]) @ [Run 0]) (?st s3 ph3)"
    by (rule step [OF step [OF step [OF first a1] a2 n1] a3 n2]) simp
  then show ?thesis using done3 by (intro exI [of _ "?st s3 ph3"]) simp
qed

lemma demo_run:
  obtains log \<sigma> resp
  where "cmdServe_start demo_lib demo_os demo_read demo_yaml demo_flags
      = Inr (NewMemorySigner ''ca'', New demo_policy NewRemoteVerifier log :: string verifier_state server_state)"
    and "sys_run demo_env demo_yaml ''policy.yaml'' (sys_init (New demo_policy NewRemoteVerifier log))
        [Arrive 0 demo_request, Run 0, Run 0, Run 0] \<sigma>"
    and "sys_threads \<sigma> 0 = Some (demo_request, Done resp)"
    and "rsp_Status resp = 200" and "rsp_Body resp = ''cert:ci-s''"
proof -
  obtain log where log: "cmdServe_start demo_lib demo_os demo_read demo_yaml demo_flags
      = Inr (NewMemorySigner ''ca'', New demo_policy NewRemoteVerifier log :: string verifier_state server_state)"
    using demo_start by blast
  define s where "s = (New demo_policy NewRemoteVerifier log :: string verifier_state server_state)"
  obtain resp s' where sg: "Sign demo_env s ''POST'' demo_auth demo_body = (resp, s')"
    and ok: "rsp_Status resp = 200" "rsp_Body resp = ''cert:ci-s''"
    using demo_sign_at [of s] by (auto simp: s_def New_def)
  obtain rid s0 where n: "newRequestID demo_env s = (rid, s0)" by (cases "newRequestID demo_env s")
  obtain \<sigma> where "sys_run demo_env demo_yaml ''policy.yaml'' (sys_init s)
        [Arrive 0 demo_request, Run 0, Run 0, Run 0] \<sigma>"
      "sys_threads \<sigma> 0 = Some (demo_request, Done resp)"
    using demo_three_runs [OF n _ ok(1), of demo_request s' demo_yaml "''policy.yaml''"] sg
    by (auto simp: demo_request_def)
  with log ok that show thesis unfolding s_def by blast
qed

end
