(* ===== verification/PolicyOrder.thy ===== *)
theory PolicyOrder
  imports Server
begin

text \<open>
  Go iterates over the map \<open>claims_exact\<close> of a rule in a random order.  The model keeps the
  map as a list; here two policies are related that differ in the order of those lists only,
  and every operation that reads the rules is carried through that relation: \<open>Validate\<close>,
  \<open>Issuers\<close>, \<open>Evaluate\<close>, \<open>authorize\<close> and the whole pipeline of \<open>Sign\<close>.
\<close>

section \<open>The relation\<close>


definition reordered_match :: "Match \<Rightarrow> Match \<Rightarrow> bool" where
  "reordered_match a b \<longleftrightarrow> rel_option (\<lambda>m n. mset (jwt_ClaimsExact n) = mset (jwt_ClaimsExact m)
     \<and> n = m\<lparr>jwt_ClaimsExact := jwt_ClaimsExact n\<rparr>) (match_JWT a) (match_JWT b)"

definition reordered_rule :: "Rule \<Rightarrow> Rule \<Rightarrow> bool" where
  "reordered_rule r t \<longleftrightarrow> reordered_match (rule_Match r) (rule_Match t) \<and> t = r\<lparr>rule_Match := rule_Match t\<rparr>"

definition reordered_policy :: "Policy \<Rightarrow> Policy \<Rightarrow> bool" where
  "reordered_policy p q \<longleftrightarrow> list_all2 reordered_rule (pol_Rules p) (pol_Rules q) \<and> q = p\<lparr>pol_Rules := pol_Rules q\<rparr>"

lemma reordered_rule_cases:
  assumes "reordered_rule r t"
  obtains (none) mt where "match_JWT (rule_Match r) = None" "match_JWT mt = None" "t = r\<lparr>rule_Match := mt\<rparr>"
  | (some) m ms mt where "match_JWT (rule_Match r) = Some m" "match_JWT mt = Some (m\<lparr>jwt_ClaimsExact := ms\<rparr>)"
      "mset ms = mset (jwt_ClaimsExact m)" "t = r\<lparr>rule_Match := mt\<rparr>"
proof -
  from assms have t: "t = r\<lparr>rule_Match := rule_Match t\<rparr>"
    and m: "reordered_match (rule_Match r) (rule_Match t)" by (auto simp: reordered_rule_def)
  show thesis
  proof (cases "match_JWT (rule_Match r)")
    case None
    with m t show thesis by (intro none [of "rule_Match t"]) (auto simp: reordered_match_def)
  next
    case (Some a)
    with m obtain b where "match_JWT (rule_Match t) = Some b" "mset (jwt_ClaimsExact b) = mset (jwt_ClaimsExact a)"
      "b = a\<lparr>jwt_ClaimsExact := jwt_ClaimsExact b\<rparr>" by (auto simp: reordered_match_def option_rel_Some1)
    with Some t show thesis by (intro some [of a "rule_Match t" "jwt_ClaimsExact b"]) auto
  qed
qed

lemma reordered_rule_same:
  assumes "reordered_rule r t"
  shows "rule_Name t = rule_Name r" "IsEnabled t = IsEnabled r" "rule_Certificate t = rule_Certificate r"
    "map_option jwt_Issuer (match_JWT (rule_Match t)) = map_option jwt_Issuer (match_JWT (rule_Match r))"
  by (cases rule: reordered_rule_cases [OF assms]; simp add: IsEnabled_def)+

lemma reordered_rule_matches:
  assumes "reordered_rule r t"
  shows "candidate i t = candidate i r"
    and "(\<exists>m. match_JWT (rule_Match t) = Some m \<and> match_ok m) \<longleftrightarrow> (\<exists>m. match_JWT (rule_Match r) = Some m \<and> match_ok m)"
proof -
  have "candidate i t = candidate i r \<and> (\<exists>m. match_JWT (rule_Match t) = Some m \<and> match_ok m)
      = (\<exists>m. match_JWT (rule_Match r) = Some m \<and> match_ok m)"
  proof (cases rule: reordered_rule_cases [OF assms, case_names none some])
    case (none mt)
    then show ?thesis by (simp add: candidate_def ruleMatches_iff IsEnabled_def)
  next
    case (some m ms mt)
    from mset_eq_setD [OF some(3)] have s: "set ms = set (jwt_ClaimsExact m)" .
    have "satisfies (m\<lparr>jwt_ClaimsExact := ms\<rparr>) i = satisfies m i"
      by (simp add: satisfies_def repository_matches_iff s)
    moreover have "match_ok (m\<lparr>jwt_ClaimsExact := ms\<rparr>) = match_ok m" by (simp add: match_ok_def s)
    ultimately show ?thesis using some(1,2,4) by (simp add: candidate_def ruleMatches_iff IsEnabled_def)
  qed
  then show "candidate i t = candidate i r"
    and "(\<exists>m. match_JWT (rule_Match t) = Some m \<and> match_ok m) \<longleftrightarrow> (\<exists>m. match_JWT (rule_Match r) = Some m \<and> match_ok m)"
    by simp_all
qed

section \<open>Policies\<close>

lemma reordered_issuers:
  "list_all2 reordered_rule rs ts \<Longrightarrow> issuers_loop seen ts = issuers_loop seen rs"
proof (induction rs ts arbitrary: seen rule: list_all2_induct)
  case Nil
  then show ?case by simp
next
  case (Cons r rs t ts)
  then show ?case using reordered_rule_same(2,4) [OF Cons.hyps(1)]
    by (auto split: option.splits)
qed

lemma reordered_filter:
  "list_all2 reordered_rule rs ts \<Longrightarrow> list_all2 reordered_rule (filter (candidate i) rs) (filter (candidate i) ts)"
  by (induction rs ts rule: list_all2_induct) (auto simp: reordered_rule_matches)

lemma reordered_names: "list_all2 reordered_rule rs ts \<Longrightarrow> map rule_Name ts = map rule_Name rs"
  by (induction rs ts rule: list_all2_induct) (auto simp: reordered_rule_same)

lemma reordered_policy_same:
  assumes "reordered_policy p q"
  shows "pol_Version q = pol_Version p" "pol_Disabled q = pol_Disabled p" "pol_Defaults q = pol_Defaults p"
    "Issuers q = Issuers p"
proof -
  from assms have q: "q = p\<lparr>pol_Rules := pol_Rules q\<rparr>" and l: "list_all2 reordered_rule (pol_Rules p) (pol_Rules q)"
    by (auto simp: reordered_policy_def)
  show "pol_Version q = pol_Version p" "pol_Disabled q = pol_Disabled p" "pol_Defaults q = pol_Defaults p"
    by (subst q, simp)+
  show "Issuers q = Issuers p" using reordered_issuers [OF l] by (simp add: Issuers_def)
qed

lemma reordered_effective:
  assumes "reordered_policy p q"
  shows "ValidAfterOffsetSeconds q = ValidAfterOffsetSeconds p" "MaxValidForSeconds q = MaxValidForSeconds p"
    "AllowedPublicKeyTypes q = AllowedPublicKeyTypes p"
  using reordered_policy_same [OF assms] by (simp_all add: effective_defs)

lemma reordered_effective_for:
  assumes "reordered_policy p q" and "reordered_rule r t"
  shows "ExtensionsFor q t = ExtensionsFor p r" "ValidForSecondsFor q t = ValidForSecondsFor p r"
    "KeyIDTemplateFor q t = KeyIDTemplateFor p r" "SourceAddressFor q t = SourceAddressFor p r"
  unfolding effective_defs reordered_policy_same [OF assms(1)] reordered_rule_same [OF assms(2)] by (rule refl)+

lemma reordered_rule_ok:
  assumes "reordered_policy p q" and "reordered_rule r t"
  shows "rule_ok q t = rule_ok p r"
  using reordered_effective [OF assms(1)] reordered_effective_for [OF assms] reordered_rule_same [OF assms(2)]
    reordered_rule_matches(2) [OF assms(2)]
  by (simp add: rule_ok_def certificate_ok_def)

lemma reordered_policy_ok:
  assumes "reordered_policy p q"
  shows "policy_ok q = policy_ok p"
proof -
  have l: "list_all2 reordered_rule (pol_Rules p) (pol_Rules q)" using assms by (simp add: reordered_policy_def)
  have "(\<forall>t \<in> set (pol_Rules q). rule_ok q t) = (\<forall>r \<in> set (pol_Rules p). rule_ok p r)"
    using l by (induction rule: list_all2_induct) (auto simp: reordered_rule_ok [OF assms])
  moreover have "pol_Rules q = [] \<longleftrightarrow> pol_Rules p = []" using l by (metis list_all2_Nil list_all2_Nil2)
  moreover have "defaults_ok q = defaults_ok p"
    using reordered_policy_same [OF assms] reordered_effective [OF assms] by (simp add: defaults_ok_def)
  ultimately show ?thesis
    using reordered_policy_same [OF assms] reordered_effective [OF assms] reordered_names [OF l]
    by (simp add: policy_ok_def)
qed

section \<open>Decisions and certificates\<close>

lemma reordered_Evaluate:
  assumes "reordered_policy p q"
  shows "dec_Allowed (Evaluate q i) = dec_Allowed (Evaluate p i)"
    and "dec_Reason (Evaluate q i) = dec_Reason (Evaluate p i)"
    and "dec_MatchedRules (Evaluate q i) = dec_MatchedRules (Evaluate p i)"
    and "rel_option reordered_rule (dec_Rule (Evaluate p i)) (dec_Rule (Evaluate q i))"
proof -
  have l: "list_all2 reordered_rule (filter (candidate i) (pol_Rules p)) (filter (candidate i) (pol_Rules q))"
    using assms by (intro reordered_filter) (simp add: reordered_policy_def)
  note facts = list_all2_lengthD [OF l] reordered_names [OF l] reordered_policy_same [OF assms]
  show r: "dec_Reason (Evaluate q i) = dec_Reason (Evaluate p i)" using facts by (simp add: Evaluate_reason)
  then show "dec_Allowed (Evaluate q i) = dec_Allowed (Evaluate p i)" by (simp add: Evaluate_allowed_iff_reason)
  show "dec_MatchedRules (Evaluate q i) = dec_MatchedRules (Evaluate p i)"
    using facts l by (auto simp: Evaluate_def Let_def collect_matches_filter split: list.splits)
  show "rel_option reordered_rule (dec_Rule (Evaluate p i)) (dec_Rule (Evaluate q i))"
    using facts l by (auto simp: Evaluate_def Let_def collect_matches_filter split: list.splits)
qed

lemma reordered_authorize:
  assumes "reordered_policy p q"
  shows "rel_sum (=) (rel_prod reordered_rule (=)) (authorize p i attrs) (authorize q i attrs)"
proof (cases "dec_Allowed (Evaluate p i)")
  case False
  then show ?thesis using reordered_Evaluate(1-3) [OF assms, of i] by (simp add: authorize_def Let_def)
next
  case True
  then obtain r where r: "dec_Rule (Evaluate p i) = Some r" using Evaluate_allowed_rule by blast
  with reordered_Evaluate(4) [OF assms, of i] obtain t where t: "dec_Rule (Evaluate q i) = Some t" "reordered_rule r t"
    by (auto simp: option_rel_Some1)
  show ?thesis
    using True r t reordered_Evaluate(1) [OF assms, of i] reordered_effective_for(3) [OF assms t(2)]
    by (simp add: authorize_def split: sum.split)
qed

lemma reordered_issue:
  assumes "reordered_policy p q" and "reordered_rule r t"
  shows "issue_cert env q t keyID pub attrs s = issue_cert env p r keyID pub attrs s"
    and "issued_attrs q t keyID = issued_attrs p r keyID"
  using reordered_effective [OF assms(1)] reordered_effective_for [OF assms] reordered_rule_same [OF assms(2)]
  by (simp_all add: issue_cert_def cert_request_def issued_attrs_def)

lemma reordered_pipeline:
  assumes "reordered_policy p q"
  shows "sign_pipeline env q meth auth body s = sign_pipeline env p meth auth body s"
proof -
  have c: "check_request (sv_lib env) q meth body = check_request (sv_lib env) p meth body"
    unfolding check_request_def reordered_policy_same [OF assms] reordered_effective [OF assms] ..
  have a: "authenticate env q auth ka s = authenticate env p auth ka s" for ka
    unfolding authenticate_def reordered_policy_same [OF assms] ..
  have k: "(case authorize q i attrs of Inl d \<Rightarrow> (Inl d, s1)
        | Inr (rule, keyID) \<Rightarrow>
            (case issue_cert env q rule keyID pub attrs s1 of
               (Inl d, s2) \<Rightarrow> (Inl d, s2)
             | (Inr certBytes, s2) \<Rightarrow> (Inr (certBytes, issued_attrs q rule keyID @ attrs), s2)))
      = (case authorize p i attrs of Inl d \<Rightarrow> (Inl d, s1)
        | Inr (rule, keyID) \<Rightarrow>
            (case issue_cert env p rule keyID pub attrs s1 of
               (Inl d, s2) \<Rightarrow> (Inl d, s2)
             | (Inr certBytes, s2) \<Rightarrow> (Inr (certBytes, issued_attrs p rule keyID @ attrs), s2)))" for i attrs s1 pub
  proof (cases rule: rel_sum.cases [OF reordered_authorize [OF assms, of i attrs], case_names denied granted])
    case (denied a b)
    then show ?thesis by simp
  next
    case (granted a b)
    then obtain r t keyID where a: "authorize p i attrs = Inr (r, keyID)" "authorize q i attrs = Inr (t, keyID)"
      and rt: "reordered_rule r t" by (cases a; cases b) auto
    show ?thesis unfolding a sum.case prod.case reordered_issue [OF assms rt] ..
  qed
  show ?thesis unfolding sign_pipeline_def c a Let_def k ..
qed

text \<open>\<open>Sign\<close> reads the policy it was given, not the stored one.\<close>

lemma authenticate_policy:
  "authenticate env p auth ka (SetPolicy q s) = (case authenticate env p auth ka s of (r, s1) \<Rightarrow> (r, SetPolicy q s1))"
  by (simp add: authenticate_def SetPolicy_def split: option.split prod.split)

lemma issue_cert_policy:
  "issue_cert env p r k pub attrs (SetPolicy q s)
     = (case issue_cert env p r k pub attrs s of (x, s1) \<Rightarrow> (x, SetPolicy q s1))"
  by (simp add: issue_cert_def SetPolicy_def Let_def split: sum.split prod.split)

lemma sign_pipeline_policy:
  "sign_pipeline env p meth auth body (SetPolicy q s)
     = (case sign_pipeline env p meth auth body s of (r, s1) \<Rightarrow> (r, SetPolicy q s1))"
  by (simp add: sign_pipeline_def authenticate_policy issue_cert_policy Let_def split: sum.split prod.split)

lemma sign_with_policy:
  "sign_with env p meth auth body (SetPolicy q s)
     = (case sign_with env p meth auth body s of (r, s1) \<Rightarrow> (r, SetPolicy q s1))"
  for s :: "'b server_state"
proof -
  have "newRequestID env (SetPolicy q s) = (case newRequestID env s of (r, s1) \<Rightarrow> (r, SetPolicy q s1))"
    by (simp add: newRequestID_def SetPolicy_def)
  moreover have "st_audit (SetPolicy q s1) = st_audit s1"
    "(SetPolicy q s1)\<lparr>st_audit := a\<rparr> = SetPolicy q (s1\<lparr>st_audit := a\<rparr>)" for s1 :: "'b server_state" and a
    by (simp_all add: SetPolicy_def)
  ultimately show ?thesis
    by (auto simp: sign_with_def sign_pipeline_policy Let_def deny_def split: sum.splits prod.splits)
qed

end
