(* ===== verification/PolicyClaims.thy ===== *)
theory PolicyClaims
  imports Demo PolicyOrder
begin

text \<open>
  The properties of \<open>internal/policy\<close>: validation, Key ID templates, matching.
\<close>

section \<open>Validation\<close>

text \<open>C3: \<open>Validate\<close> accepts exactly the policies that satisfy the declarative reading of the
  policy reference: version 1, a positive ceiling, only ed25519 keys, sound defaults, at
  least one rule, distinct well-formed rule names, and for every rule a match block with
  issuer and audience, allowlisted principals, a lifetime within the ceiling, a Key ID
  template of the grammar, and usable critical options.\<close>

theorem Validate_accepts_exactly: "Validate p = Inr u \<longleftrightarrow> policy_ok p"
  by (rule Validate_ok_iff)

text \<open>C33: The syntax check of a template accepts exactly the words of the grammar, and
  returns the variables in the order they occur.\<close>

theorem template_check_is_grammar: "templateVars t = Inr vs \<longleftrightarrow> template_grammar t vs"
  by (rule templateVars_grammar_iff)

text \<open>C34: The comma-joined \<open>source-address\<close> option of a certificate splits back into the
  entries of the policy: no accepted CIDR contains a comma.\<close>

theorem source_address_roundtrip:
  assumes "validateSourceAddress field cidrs = Inr ()" and "cidrs \<noteq> []"
  shows "Split (CHR '','') (Join cidrs '','') = cidrs"
  using assms by (intro cidr_list_Split_Join) (simp_all add: validateSourceAddress_iff)

lemma source_address_roundtrip_demo:
  "Split (CHR '','') (Join [''192.0.2.0/24'', ''2001:db8::/32''] '','') = [''192.0.2.0/24'', ''2001:db8::/32'']"
proof (rule source_address_roundtrip)
  show "validateSourceAddress ''f'' [''192.0.2.0/24'', ''2001:db8::/32''] = Inr ()"
    using ParseCIDR_v4 ParseCIDR_v6 by (simp add: validateSourceAddress_iff cidr_list_ok_def)
qed simp

text \<open>The rune loop over a forced command rejects exactly the commands with a control
  byte, and the first check exactly those with a template marker.\<close>

theorem force_command_check:
  "validateForceCommand cmd = Inr () \<longleftrightarrow>
     \<not> sublist ''${'' cmd \<and> (\<forall>c \<in> set cmd. 0x20 \<le> byte c \<and> byte c \<noteq> 0x7f)"
proof -
  have "is_control c \<longleftrightarrow> \<not> (0x20 \<le> byte c \<and> byte c \<noteq> 0x7f)" for c by (auto simp: is_control_def)
  then show ?thesis by (simp add: validateForceCommand_iff force_command_ok_def)
qed

lemma force_command_check_demo:
  "validateForceCommand ''/usr/bin/deploy --all'' = Inr ()"
  unfolding force_command_check by (simp add: sublist_code)

section \<open>Key ID\<close>

text \<open>C10: For a template that passed the syntax check, expansion fails with the first
  variable whose claim is absent, not a string, or outside the character set; otherwise it
  is the substituted text, unless that is too long.  The final character check never
  fires.\<close>

theorem expand_key_id_of_valid_template:
  assumes "TemplateVars tmpl = Inr vs" and "tmpl \<noteq> []"
  shows "ExpandKeyID tmpl cs =
     (case first_fault cs vs of
        Some e \<Rightarrow> Inl e
      | None \<Rightarrow> if length (expansion cs tmpl) > MaxKeyIDLength then Inl KeyIDTooLong
          else Inr (expansion cs tmpl))"
proof -
  have t: "templateVars tmpl = Inr vs" using assms(1) by (simp add: TemplateVars_def)
  then have "vs = var_names tmpl" by (simp add: templateVars_Inr_iff)
  moreover have "MatchString keyIDValueRe (expansion cs tmpl)" if "first_fault cs vs = None"
    using expansion_clean [OF t assms(2)] that by (simp add: first_fault_None_iff)
  ultimately show ?thesis by (auto simp: ExpandKeyID_cases split: option.splits)
qed

lemma expand_key_id_of_valid_template_demo:
  "ExpandKeyID ''ci-${sub}'' demo_claims = Inr ''ci-s''"
  using expand_key_id_of_valid_template [of "''ci-${sub}''" "[''sub'']" demo_claims] demo_template
    demo_expand
  by (auto simp: TemplateVars_def)

section \<open>Matching\<close>

text \<open>C4: A request is allowed with a rule exactly when the policy is enabled and that rule
  is the only enabled one that matches; the reasons of the other outcomes are by the number
  of matches.\<close>

theorem evaluate_exactly_one:
  "dec_Allowed (Evaluate p i) \<and> dec_Rule (Evaluate p i) = Some r \<longleftrightarrow>
     \<not> pol_Disabled p
     \<and> (\<exists>ys zs. pol_Rules p = ys @ r # zs \<and> IsEnabled r \<and> ruleMatches r i
        \<and> (\<forall>r' \<in> set ys \<union> set zs. \<not> (IsEnabled r' \<and> ruleMatches r' i)))"
  unfolding Evaluate_allowed_filter filter_singleton_iff by (auto simp: candidate_def)

lemma evaluate_exactly_one_demo:
  "dec_Allowed (Evaluate demo_policy demo_identity)
     \<and> dec_Rule (Evaluate demo_policy demo_identity) = Some demo_rule"
  unfolding evaluate_exactly_one
  using demo_candidate demo_enabled
  by (auto simp: demo_policy_def candidate_def intro!: exI [of _ "[]"])

text \<open>The verdict does not depend on the order of the rules.\<close>

theorem evaluate_order_independent:
  assumes "mset (pol_Rules p) = mset (pol_Rules q)" and "pol_Disabled p = pol_Disabled q"
  shows "dec_Allowed (Evaluate p i) = dec_Allowed (Evaluate q i)
    \<and> dec_Rule (Evaluate p i) = dec_Rule (Evaluate q i)
    \<and> dec_Reason (Evaluate p i) = dec_Reason (Evaluate q i)"
proof -
  have l: "length (filter (candidate i) (pol_Rules p)) = length (filter (candidate i) (pol_Rules q))"
    using filter_mset_length [OF assms(1)] .
  then have r: "dec_Reason (Evaluate p i) = dec_Reason (Evaluate q i)"
    by (simp add: Evaluate_reason assms(2))
  have "dec_Rule (Evaluate p i) = Some x \<longleftrightarrow> dec_Rule (Evaluate q i) = Some x" for x
    using mset_singleton_filter [OF assms(1), of "candidate i" x]
      mset_singleton_filter [OF assms(1) [symmetric], of "candidate i" x]
    unfolding Evaluate_rule_iff assms(2) by blast
  note eq = this
  have "dec_Rule (Evaluate p i) = dec_Rule (Evaluate q i)"
  proof (cases "dec_Rule (Evaluate p i)")
    case None
    with eq show ?thesis by (cases "dec_Rule (Evaluate q i)") auto
  next
    case (Some x)
    with eq [of x] show ?thesis by simp
  qed
  with r show ?thesis by (simp add: Evaluate_allowed_iff_reason)
qed

definition demo_other :: Rule where
  "demo_other = demo_rule\<lparr>rule_Name := ''off'', rule_Enabled := Some False\<rparr>"

lemma evaluate_order_independent_demo:
  "dec_Rule (Evaluate (demo_policy\<lparr>pol_Rules := [demo_other, demo_rule]\<rparr>) demo_identity) = Some demo_rule"
proof -
  have "dec_Rule (Evaluate (demo_policy\<lparr>pol_Rules := [demo_rule, demo_other]\<rparr>) demo_identity) = Some demo_rule"
    using demo_candidate by (simp add: Evaluate_rule_iff demo_policy_def demo_other_def candidate_def IsEnabled_def)
  moreover have "dec_Rule (Evaluate (demo_policy\<lparr>pol_Rules := [demo_other, demo_rule]\<rparr>) demo_identity)
      = dec_Rule (Evaluate (demo_policy\<lparr>pol_Rules := [demo_rule, demo_other]\<rparr>) demo_identity)"
    by (rule evaluate_order_independent [THEN conjunct2, THEN conjunct1]) simp_all
  ultimately show ?thesis by simp
qed

text \<open>C35: The verifier may talk to exactly the issuers of the enabled rules, each listed once; so the issuer
  of any identity that a rule could match is among them.\<close>

theorem issuers_complete:
  assumes "policy_ok p"
  shows "distinct (Issuers p) \<and> set (Issuers p) = {jwt_Issuer m | r m. r \<in> set (pol_Rules p) \<and> IsEnabled r
      \<and> match_JWT (rule_Match r) = Some m}
    \<and> (\<forall>i r. r \<in> set (pol_Rules p) \<longrightarrow> candidate i r \<longrightarrow> id_Issuer i \<in> set (Issuers p))"
proof -
  have "jwt_Issuer m \<noteq> []" if "r \<in> set (pol_Rules p)" "match_JWT (rule_Match r) = Some m" for r m
    using policy_ok_rule [OF assms] that by (fastforce simp: rule_ok_def match_ok_def)
  then have s: "set (Issuers p) = {jwt_Issuer m | r m. r \<in> set (pol_Rules p) \<and> IsEnabled r
      \<and> match_JWT (rule_Match r) = Some m}"
    unfolding set_Issuers rule_issuers_def by blast
  have "id_Issuer i \<in> set (Issuers p)" if r: "r \<in> set (pol_Rules p)" and c: "candidate i r" for i r
  proof -
    obtain m where "match_JWT (rule_Match r) = Some m" "jwt_Issuer m = id_Issuer i"
      using c by (auto simp: candidate_def ruleMatches_iff satisfies_def)
    with r c show ?thesis
      unfolding s by (intro CollectI exI [of _ r] exI [of _ m]) (simp add: candidate_def)
  qed
  with s distinct_Issuers show ?thesis by blast
qed

lemma issuers_complete_demo: "id_Issuer demo_identity \<in> set (Issuers demo_policy)"
proof -
  have "demo_rule \<in> set (pol_Rules demo_policy)" by (simp add: demo_policy_def)
  with issuers_complete [OF demo_policy_ok] demo_candidate show ?thesis by blast
qed

text \<open>\<open>ExplainRule\<close> finds nothing to say about a rule exactly when \<open>Evaluate\<close> counts it
  as a match.\<close>

theorem explain_rule_agrees: "ExplainRule r i = None \<longleftrightarrow> IsEnabled r \<and> ruleMatches r i"
  by (simp add: ExplainRule_None_iff candidate_def)

text \<open>C24: The random order in which Go iterates over \<open>claims_exact\<close> decides nothing: two
  policies that differ only in it are both valid or both not, decide every identity alike, with
  the same reason and the same matched rules, and serve every request alike, with the same
  response, audit event, use of the verifier, clock and randomness.  (Which fault of an invalid
  policy is reported, and which claim \<open>explain\<close> names, may depend on it.)\<close>

theorem map_order_irrelevant:
  fixes s :: "'v server_state"
  assumes "reordered_policy p q"
  shows "(Validate q = Inr () \<longleftrightarrow> Validate p = Inr ())
    \<and> (\<forall>i. dec_Allowed (Evaluate q i) = dec_Allowed (Evaluate p i) \<and> dec_Reason (Evaluate q i) = dec_Reason (Evaluate p i)
        \<and> dec_MatchedRules (Evaluate q i) = dec_MatchedRules (Evaluate p i))
    \<and> Sign env (SetPolicy q s) meth auth body
        = (case Sign env (SetPolicy p s) meth auth body of (resp, s1) \<Rightarrow> (resp, SetPolicy q s1))"
proof (intro conjI allI)
  show "Validate q = Inr () \<longleftrightarrow> Validate p = Inr ()" using reordered_policy_ok [OF assms] by (simp add: Validate_ok_iff)
  have "sign_with env q meth auth body s = sign_with env p meth auth body s"
    unfolding sign_with_def reordered_pipeline [OF assms] ..
  moreover have "st_policy (SetPolicy x s) = x" "SetPolicy x (SetPolicy y z) = SetPolicy x z" for x y and z :: "'v server_state"
    by (simp_all add: SetPolicy_def)
  ultimately show "Sign env (SetPolicy q s) meth auth body
      = (case Sign env (SetPolicy p s) meth auth body of (resp, s1) \<Rightarrow> (resp, SetPolicy q s1))"
    by (simp add: Sign_def sign_with_policy split: prod.split)
qed (rule reordered_Evaluate [OF assms])+


definition demo_claims_order :: "(string \<times> string) list \<Rightarrow> Policy" where
  "demo_claims_order ms = demo_policy\<lparr>pol_Rules := [demo_rule\<lparr>rule_Match :=
     \<lparr>match_JWT = Some (demo_match\<lparr>jwt_ClaimsExact := ms\<rparr>)\<rparr>\<rparr>]\<rparr>"

lemma map_order_irrelevant_demo:
  "dec_Allowed (Evaluate (demo_claims_order [(''sub'', ''s''), (''ref'', ''m'')]) demo_identity)"
proof -
  let ?p = "demo_claims_order [(''ref'', ''m''), (''sub'', ''s'')]"
  let ?q = "demo_claims_order [(''sub'', ''s''), (''ref'', ''m'')]"
  have "reordered_policy ?p ?q"
    by (simp add: demo_claims_order_def reordered_policy_def reordered_rule_def reordered_match_def add_mset_commute)
  note map_order_irrelevant [OF this, THEN conjunct2, THEN conjunct1, THEN spec, THEN conjunct1, of demo_identity]
  moreover have "dec_Allowed (Evaluate ?p demo_identity)"
    using demo_candidate
    by (simp add: Evaluate_def Let_def demo_claims_order_def candidate_def ruleMatches_iff satisfies_def demo_rule_def
        repository_matches_iff demo_match_def demo_identity_def demo_claims_def demo_policy_def IsEnabled_def)
  ultimately show ?thesis by simp
qed

end
