(* ===== verification/TokenClaims.thy ===== *)
theory TokenClaims
  imports Demo
begin

text \<open>
  The properties of \<open>internal/oidc\<close>: the time checks, the gate on issuers, and the provider
  cache with its two delays.
\<close>

section \<open>Times\<close>

text \<open>C12: For dates within \<open>2 ^ 61\<close> seconds of 1970, where the 64-bit arithmetic does not wrap,
  and a well-formed clock reading, the token is accepted exactly when it has an expiry and the
  clock is between its dates, widened by the leeway of a minute on both sides.\<close>

theorem time_claims_window:
  assumes "dates_bounded oob cs" and "wf_time now"
  shows "checkTimeClaims oob cs now = Inr () \<longleftrightarrow> time_window oob cs (unix_ns now)"
  by (rule checkTimeClaims_window [OF assms])

lemma time_claims_window_demo: "checkTimeClaims (\<lambda>f. 0) demo_claims demo_now = Inr ()"
  unfolding time_claims_window [OF demo_dates demo_now_facts(1)]
  by (simp add: time_window_def demo_exp demo_now_facts ns_per_s_def)

section \<open>Verify\<close>

text \<open>C18: A token that does not decode, or whose issuer no enabled rule references, is
  refused before anything is looked up: the cache, the network and the clock are
  untouched.\<close>

theorem unreferenced_issuer_no_network:
  assumes "\<forall>iss \<in> set allowed. unverifiedIssuer raw \<noteq> Inr iss"
  shows "snd (Verify env s raw allowed) = s \<and> (\<exists>e. fst (Verify env s raw allowed) = Inl e)"
  using assms by (auto simp: Verify_def split: sum.splits)

lemma unreferenced_issuer_no_network_demo:
  "snd (Verify demo_oidc NewRemoteVerifier demo_token [''j'']) = NewRemoteVerifier"
  using unreferenced_issuer_no_network [of "[''j'']" demo_token demo_oidc NewRemoteVerifier] demo_issuer
  by simp

text \<open>The states that a sequence of calls can reach from a fresh verifier.\<close>

inductive verifier_reachable :: "'p oidc_env \<Rightarrow> 'p verifier_state \<Rightarrow> bool" for env where
  fresh: "verifier_reachable env NewRemoteVerifier"
| call: "verifier_reachable env s \<Longrightarrow> verifier_reachable env (snd (Verify env s raw allowed))"

lemma reachable_inv: "verifier_reachable env s \<Longrightarrow> cache_inv env s"
proof (induction rule: verifier_reachable.induct)
  case fresh
  show ?case by (rule cache_inv_init)
next
  case (call s raw allowed)
  then show ?case
    using Verify_inv [of env s raw allowed "fst (Verify env s raw allowed)" "snd (Verify env s raw allowed)"]
    by simp
qed

text \<open>C19: After any history of calls, an accepted token was verified with RS256 by a provider
  that a discovery for the issuer it names had given, its dates were checked, and the issuer
  is one of the allowed ones; the identity is what the library verified.\<close>

theorem accepted_token_is_authentic:
  assumes "verifier_reachable env s" and "Verify env s raw allowed = (Inr i, s')"
  shows "authentic env raw i \<and> (\<exists>iss \<in> set allowed. unverifiedIssuer raw = Inr iss)"
  using remote.verify_auth [OF reachable_inv [OF assms(1)] assms(2)] remote.verify_gate [OF assms(2)]
  by blast

lemma accepted_token_is_authentic_demo: "authentic demo_oidc demo_token demo_identity"
proof -
  obtain v where "Verify demo_oidc NewRemoteVerifier demo_token [''i''] = (Inr demo_identity, v)"
    using demo_verify by blast
  from accepted_token_is_authentic [OF verifier_reachable.fresh this] show ?thesis by blast
qed

section \<open>The provider cache\<close>

text \<open>Two readings of the process's clock, as seconds on its monotonic axis.\<close>

definition elapsed_less :: "gotime \<Rightarrow> gotime \<Rightarrow> int \<Rightarrow> bool" where
  "elapsed_less t u secs \<longleftrightarrow>
     (\<exists>a b. t_mono t = Some a \<and> t_mono u = Some b \<and> 0 \<le> sint a \<and> 0 \<le> sint b
        \<and> sint a - sint b < secs * ns_per_s)"

lemma elapsed_less_delays:
  "elapsed_less t u 600 \<Longrightarrow> sint (Sub t u) < sint jwksTTL"
  "elapsed_less t u 5 \<Longrightarrow> sint (Sub t u) < sint discoveryRetryDelay"
  by (auto simp: elapsed_less_def Sub_mono jwksTTL_def discoveryRetryDelay_def ns_per_s_def)

text \<open>C20: While a fetched provider is less than ten minutes old, it is returned without any
  outside interaction, and its entry does not change.\<close>

theorem fresh_provider_is_reused:
  assumes "ent_provider (entry s iss) = Some p"
    and "elapsed_less (env_clock env (vs_tick s)) (ent_fetchedAt (entry s iss)) 600"
  shows "\<exists>s'. provider env iss s = (Inr p, s') \<and> vs_net s' = vs_net s \<and> entry s' iss = entry s iss"
  using assms(1) elapsed_less_delays(1) [OF assms(2)]
  by (simp add: provider_def Let_def cache_fresh_def read_clock_def)

text \<open>C21: For five seconds after a failed fetch there is no outside interaction either.  An
  issuer that has no provider gets the recorded error again; one that still has a provider,
  fresh or stale, is served that provider.  The clock that counts is the one read for the
  failure: the first reading of the call, or the second when there is a provider whose age is
  looked at before.\<close>

theorem failed_fetch_backs_off:
  assumes "ent_err (entry s iss) = Some e"
    and "elapsed_less
      (env_clock env (if ent_provider (entry s iss) = None then vs_tick s else vs_tick s + 1))
      (ent_failedAt (entry s iss)) 5"
  shows "\<exists>s'. provider env iss s =
      ((case ent_provider (entry s iss) of None \<Rightarrow> Inl e | Some p \<Rightarrow> Inr p), s')
    \<and> vs_net s' = vs_net s \<and> entry s' iss = entry s iss"
  using assms(1) elapsed_less_delays(2) [OF assms(2)]
  by (cases "ent_provider (entry s iss)")
    (auto simp: provider_def Let_def cache_fresh_def backing_off_def read_clock_def)

text \<open>C22: A provider that was once fetched keeps serving: whatever a later fetch does, the
  call succeeds and the entry still has a provider.\<close>

theorem known_provider_keeps_serving:
  assumes "ent_provider (entry s iss) = Some q"
  shows "(\<exists>p. fst (provider env iss s) = Inr p)
    \<and> (\<exists>p. ent_provider (entry (snd (provider env iss s)) iss) = Some p)"
  using provider_keeps [of env iss s "fst (provider env iss s)" "snd (provider env iss s)"] assms
  by simp

text \<open>Verifying a token of one issuer leaves the cache entries of all other issuers as
  they were.\<close>

theorem verify_isolates_issuers:
  assumes "unverifiedIssuer raw \<noteq> Inr other"
  shows "vs_providers (snd (Verify env s raw allowed)) other = vs_providers s other"
proof (cases "unverifiedIssuer raw")
  case (Inl e)
  then show ?thesis by (simp add: Verify_def)
next
  case (Inr iss)
  obtain r s1 where p: "provider env iss s = (r, s1)" by (cases "provider env iss s")
  have "vs_providers s1 other = vs_providers s other"
    using provider_other [OF p] assms Inr by auto
  with p Inr show ?thesis
    by (auto simp: Verify_def Let_def use_net_def read_clock_def split: sum.split)
qed

text \<open>A failed refresh records the failure and its time, unless the request's own context
  was cancelled: then the entry stays as it was, so that one client that goes away cannot make
  the others back off.\<close>

theorem failed_refresh_recorded:
  assumes "discoverProvider env iss s = (Inl e, s1)"
  shows "entry (snd (refresh env iss ent s)) iss =
    (if env_ctx_err env (vs_net s1) then ent
     else ent\<lparr>ent_err := Some e, ent_failedAt := env_clock env (vs_tick s1)\<rparr>)"
  using assms by (simp add: refresh_def Let_def read_clock_def split: option.splits)

section \<open>Instances\<close>

definition demo_down :: "string oidc_env" where
  "demo_down = demo_oidc\<lparr>env_new_provider := (\<lambda>n iss. Inl ''down'')\<rparr>"

definition demo_cached :: "string providerEntry \<Rightarrow> string verifier_state" where
  "demo_cached e = put_entry NewRemoteVerifier ''i'' e"

definition demo_at :: "64 word \<Rightarrow> gotime" where
  "demo_at m = \<lparr>t_sec = 0, t_nsec = 0, t_mono = Some m\<rparr>"

definition demo_ticking :: "string oidc_env" where
  "demo_ticking = demo_down\<lparr>env_clock := (\<lambda>n. demo_at 3000000000)\<rparr>"

lemma demo_elapsed: "elapsed_less (demo_at 3000000000) (demo_at 1000) 600"
  "elapsed_less (demo_at 3000000000) (demo_at 1000) 5"
  by (simp_all add: elapsed_less_def demo_at_def ns_per_s_def)

lemma fresh_provider_is_reused_demo:
  "fst (provider demo_ticking ''i''
      (demo_cached (empty_entry\<lparr>ent_provider := Some ''p'', ent_fetchedAt := demo_at 1000\<rparr>))) = Inr ''p''"
proof -
  let ?s = "demo_cached (empty_entry\<lparr>ent_provider := Some ''p'', ent_fetchedAt := demo_at 1000\<rparr>)"
  have "elapsed_less (env_clock demo_ticking (vs_tick ?s)) (ent_fetchedAt (entry ?s ''i'')) 600"
    using demo_elapsed by (simp add: demo_cached_def demo_ticking_def)
  from fresh_provider_is_reused [OF _ this, of "''p''"] show ?thesis
    by (auto simp: demo_cached_def)
qed

lemma failed_fetch_backs_off_demo:
  "fst (provider demo_ticking ''i''
      (demo_cached (empty_entry\<lparr>ent_err := Some NoJWKSURI, ent_failedAt := demo_at 1000\<rparr>))) = Inl NoJWKSURI
   \<and> fst (provider demo_ticking ''i''
      (demo_cached (empty_entry\<lparr>ent_provider := Some ''p'', ent_err := Some NoJWKSURI, ent_failedAt := demo_at 1000\<rparr>)))
      = Inr ''p''"
proof
  let ?s = "demo_cached (empty_entry\<lparr>ent_err := Some NoJWKSURI, ent_failedAt := demo_at 1000\<rparr>)"
  have "elapsed_less (env_clock demo_ticking
      (if ent_provider (entry ?s ''i'') = None then vs_tick ?s else vs_tick ?s + 1))
      (ent_failedAt (entry ?s ''i'')) 5"
    using demo_elapsed by (simp add: demo_cached_def demo_ticking_def)
  from failed_fetch_backs_off [OF _ this, of NoJWKSURI] show "fst (provider demo_ticking ''i'' ?s) = Inl NoJWKSURI"
    by (auto simp: demo_cached_def empty_entry_def)
next
  let ?s = "demo_cached (empty_entry\<lparr>ent_provider := Some ''p'', ent_err := Some NoJWKSURI, ent_failedAt := demo_at 1000\<rparr>)"
  have "elapsed_less (env_clock demo_ticking
      (if ent_provider (entry ?s ''i'') = None then vs_tick ?s else vs_tick ?s + 1))
      (ent_failedAt (entry ?s ''i'')) 5"
    using demo_elapsed by (simp add: demo_cached_def demo_ticking_def)
  from failed_fetch_backs_off [OF _ this, of NoJWKSURI] show "fst (provider demo_ticking ''i'' ?s) = Inr ''p''"
    by (auto simp: demo_cached_def)
qed

lemma known_provider_keeps_serving_demo:
  "\<exists>p. fst (provider demo_down ''i'' (demo_cached (empty_entry\<lparr>ent_provider := Some ''p''\<rparr>))) = Inr p"
  using known_provider_keeps_serving [of "demo_cached (empty_entry\<lparr>ent_provider := Some ''p''\<rparr>)" "''i''" "''p''" demo_down]
  by (simp add: demo_cached_def)

lemma verify_isolates_issuers_demo:
  "vs_providers (snd (Verify demo_oidc (demo_cached empty_entry) ''x'' [''i''])) ''i'' = Some empty_entry"
  using verify_isolates_issuers [of "''x''" "''i''" demo_oidc "demo_cached empty_entry" "[''i'']"]
  by (simp add: unverifiedIssuer_def demo_cached_def put_entry_def)

lemma failed_refresh_recorded_demo:
  "ent_err (entry (snd (refresh demo_down ''i'' empty_entry NewRemoteVerifier)) ''i'')
     = Some (NewProviderFailed ''down'')"
proof -
  have "discoverProvider demo_down ''i'' NewRemoteVerifier
      = (Inl (NewProviderFailed ''down''), NewRemoteVerifier\<lparr>vs_net := 1\<rparr>)"
    by (simp add: discoverProvider_def use_net_def demo_down_def NewRemoteVerifier_def)
  from failed_refresh_recorded [OF this] show ?thesis by (simp add: demo_down_def demo_oidc_def)
qed

end
