(* ===== verification/ProviderLocks.thy ===== *)
theory ProviderLocks
  imports Verifier Transitions
begin

text \<open>
  \<open>RemoteVerifier.provider\<close> with its mutexes, called by several goroutines at once.
  \<open>v.mu\<close> guards the map from issuers to entries, and each entry has a mutex of its own.  A
  goroutine is at a program point, and one step takes it to the next; between the steps of
  one call those of others may come, so that the locks matter: the look-up and the insertion
  of an entry are two steps, and so are the assignments to the fields of an entry.  Entries
  are reached by address; \<open>pl_heap\<close> holds them and \<open>pl_owner\<close> their locks.  The conditions
  and the discovery are those of \<open>Verifier\<close>.

  \<open>ProviderRefine\<close> shows that the calls act on the cache one at a time, in the order in which
  they release its entries, as the sequential \<open>provider\<close> does.
\<close>

section \<open>State\<close>

text \<open>Where a call of \<open>provider\<close> is; the address is the local variable \<open>e\<close>.\<close>

datatype 'p pc =
    LockMap | Lookup | Insert | UnlockMap nat | LockEntry nat
  | Fresh nat | Backoff nat | Discover nat
  | Failed nat provider_error | MarkFailed nat provider_error | Stale nat provider_error
  | Store nat 'p | MarkFetched nat 'p | ClearErr nat 'p
  | Unlock nat "(provider_error, 'p) result"
  | Returned "(provider_error, 'p) result"

record 'p pool =
  pl_mu :: "nat option"
  pl_providers :: "string \<Rightarrow> nat option"
  pl_next :: nat
  pl_heap :: "nat \<Rightarrow> 'p providerEntry"
  pl_owner :: "nat \<Rightarrow> nat option"
  pl_tick :: nat
  pl_net :: nat
  pl_calls :: "nat \<Rightarrow> (string \<times> 'p pc) option"

definition pool_init :: "'p pool" where
  "pool_init = \<lparr>pl_mu = None, pl_providers = (\<lambda>_. None), pl_next = 0, pl_heap = (\<lambda>_. empty_entry),
     pl_owner = (\<lambda>_. None), pl_tick = 0, pl_net = 0, pl_calls = (\<lambda>_. None)\<rparr>"

text \<open>The counters of the environment, as the functions of \<open>Verifier\<close> take them.\<close>

definition counters :: "'p pool \<Rightarrow> 'p verifier_state" where
  "counters \<sigma> = \<lparr>vs_tick = pl_tick \<sigma>, vs_net = pl_net \<sigma>, vs_providers = (\<lambda>_. None)\<rparr>"

section \<open>The steps of a call\<close>

text \<open>The program points at which the call holds \<open>v.mu\<close>, the entry it works on, and the entry
  whose lock it holds.\<close>

fun in_map :: "'p pc \<Rightarrow> bool" where
  "in_map Lookup = True"
| "in_map Insert = True"
| "in_map (UnlockMap a) = True"
| "in_map pc = False"

fun inside :: "'p pc \<Rightarrow> nat option" where
  "inside (Fresh a) = Some a"
| "inside (Backoff a) = Some a"
| "inside (Discover a) = Some a"
| "inside (Failed a x) = Some a"
| "inside (MarkFailed a x) = Some a"
| "inside (Stale a x) = Some a"
| "inside (Store a p) = Some a"
| "inside (MarkFetched a p) = Some a"
| "inside (ClearErr a p) = Some a"
| "inside (Unlock a r) = Some a"
| "inside pc = None"

fun address :: "'p pc \<Rightarrow> nat option" where
  "address (UnlockMap a) = Some a"
| "address (LockEntry a) = Some a"
| "address pc = inside pc"

text \<open>The statements under the entry's lock; \<open>cancelled\<close> is \<open>ctx.Err() != nil\<close>.\<close>

fun entry_step ::
  "'p oidc_env \<Rightarrow> bool \<Rightarrow> string \<Rightarrow> 'p pc \<Rightarrow> 'p providerEntry \<Rightarrow> 'p verifier_state
   \<Rightarrow> 'p pc \<times> 'p providerEntry \<times> 'p verifier_state" where
  "entry_step env cancelled iss (Fresh a) e s =
     (let (fresh, s') = cache_fresh env e s in
      (if fresh then Unlock a (Inr (the (ent_provider e))) else Backoff a, e, s'))"
| "entry_step env cancelled iss (Backoff a) e s =
     (let (wait, s') = backing_off env e s in
      (if wait then Unlock a (case ent_provider e of Some q \<Rightarrow> Inr q | None \<Rightarrow> Inl (the (ent_err e)))
       else Discover a, e, s'))"
| "entry_step env cancelled iss (Discover a) e s =
     (let (d, s') = discoverProvider env iss s in
      (case d of Inl err \<Rightarrow> Failed a err | Inr p \<Rightarrow> Store a p, e, s'))"
| "entry_step env cancelled iss (Failed a err) e s =
     (if cancelled then (Stale a err, e, s) else (MarkFailed a err, e\<lparr>ent_err := Some err\<rparr>, s))"
| "entry_step env cancelled iss (MarkFailed a err) e s =
     (let (t, s') = read_clock env s in (Stale a err, e\<lparr>ent_failedAt := t\<rparr>, s'))"
| "entry_step env cancelled iss (Stale a err) e s =
     (Unlock a (case ent_provider e of Some q \<Rightarrow> Inr q | None \<Rightarrow> Inl err), e, s)"
| "entry_step env cancelled iss (Store a p) e s = (MarkFetched a p, e\<lparr>ent_provider := Some p\<rparr>, s)"
| "entry_step env cancelled iss (MarkFetched a p) e s =
     (let (t, s') = read_clock env s in (ClearErr a p, e\<lparr>ent_fetchedAt := t\<rparr>, s'))"
| "entry_step env cancelled iss (ClearErr a p) e s = (Unlock a (Inr p), e\<lparr>ent_err := None\<rparr>, s)"
| "entry_step env cancelled iss pc e s = (pc, e, s)"

text \<open>One step of the goroutine \<open>t\<close>; \<open>None\<close> when it waits for a lock or has returned.\<close>

definition turn ::
  "'p oidc_env \<Rightarrow> bool \<Rightarrow> nat \<Rightarrow> string \<Rightarrow> 'p pc \<Rightarrow> 'p pool \<Rightarrow> ('p pc \<times> 'p pool) option" where
  "turn env cancelled t iss pc \<sigma> =
     (case pc of
        LockMap \<Rightarrow> if pl_mu \<sigma> = None then Some (Lookup, \<sigma>\<lparr>pl_mu := Some t\<rparr>) else None
      | Lookup \<Rightarrow> Some (case pl_providers \<sigma> iss of Some a \<Rightarrow> UnlockMap a | None \<Rightarrow> Insert, \<sigma>)
      | Insert \<Rightarrow> Some (UnlockMap (pl_next \<sigma>),
          \<sigma>\<lparr>pl_next := pl_next \<sigma> + 1, pl_heap := (pl_heap \<sigma>)(pl_next \<sigma> := empty_entry),
            pl_providers := (pl_providers \<sigma>)(iss \<mapsto> pl_next \<sigma>)\<rparr>)
      | UnlockMap a \<Rightarrow> Some (LockEntry a, \<sigma>\<lparr>pl_mu := None\<rparr>)
      | LockEntry a \<Rightarrow>
          if pl_owner \<sigma> a = None then Some (Fresh a, \<sigma>\<lparr>pl_owner := (pl_owner \<sigma>)(a \<mapsto> t)\<rparr>) else None
      | Unlock a r \<Rightarrow> Some (Returned r, \<sigma>\<lparr>pl_owner := (pl_owner \<sigma>)(a := None)\<rparr>)
      | Returned r \<Rightarrow> None
      | _ \<Rightarrow>
          (case inside pc of
             None \<Rightarrow> None
           | Some a \<Rightarrow>
               (case entry_step env cancelled iss pc (pl_heap \<sigma> a) (counters \<sigma>) of (pc', e', s') \<Rightarrow>
                  Some (pc', \<sigma>\<lparr>pl_heap := (pl_heap \<sigma>)(a := e'), pl_tick := vs_tick s', pl_net := vs_net s'\<rparr>))))"

text \<open>What can happen: a call comes, it moves, or the rest of the verifier reads the clock or
  uses the network, which moves the counters.\<close>

datatype pool_event = Call nat string | Move nat | Outside nat nat

inductive pool_step :: "'p oidc_env \<Rightarrow> 'p pool \<Rightarrow> pool_event \<Rightarrow> 'p pool \<Rightarrow> bool" for env where
  call: "pl_calls \<sigma> t = None \<Longrightarrow>
    pool_step env \<sigma> (Call t iss) (\<sigma>\<lparr>pl_calls := (pl_calls \<sigma>)(t \<mapsto> (iss, LockMap))\<rparr>)"
| move: "pl_calls \<sigma> t = Some (iss, pc) \<Longrightarrow> turn env cancelled t iss pc \<sigma> = Some (pc', \<sigma>') \<Longrightarrow>
    pool_step env \<sigma> (Move t) (\<sigma>'\<lparr>pl_calls := (pl_calls \<sigma>)(t \<mapsto> (iss, pc'))\<rparr>)"
| outside: "pl_tick \<sigma> \<le> k \<Longrightarrow> pl_net \<sigma> \<le> n \<Longrightarrow>
    pool_step env \<sigma> (Outside k n) (\<sigma>\<lparr>pl_tick := k, pl_net := n\<rparr>)"

inductive_cases pool_moveE: "pool_step env \<sigma> (Move t) \<sigma>'"

text \<open>The statements under the entry's lock, as one case of a step.\<close>

fun working :: "'p pc \<Rightarrow> bool" where
  "working (Unlock a r) = False"
| "working pc = (inside pc \<noteq> None)"

lemma turn_simps [simp]:
  "turn env c t iss LockMap \<sigma> = (if pl_mu \<sigma> = None then Some (Lookup, \<sigma>\<lparr>pl_mu := Some t\<rparr>) else None)"
  "turn env c t iss Lookup \<sigma> =
     Some (case pl_providers \<sigma> iss of Some a \<Rightarrow> UnlockMap a | None \<Rightarrow> Insert, \<sigma>)"
  "turn env c t iss Insert \<sigma> = Some (UnlockMap (pl_next \<sigma>),
     \<sigma>\<lparr>pl_next := pl_next \<sigma> + 1, pl_heap := (pl_heap \<sigma>)(pl_next \<sigma> := empty_entry),
       pl_providers := (pl_providers \<sigma>)(iss \<mapsto> pl_next \<sigma>)\<rparr>)"
  "turn env c t iss (UnlockMap a) \<sigma> = Some (LockEntry a, \<sigma>\<lparr>pl_mu := None\<rparr>)"
  "turn env c t iss (LockEntry a) \<sigma> =
     (if pl_owner \<sigma> a = None then Some (Fresh a, \<sigma>\<lparr>pl_owner := (pl_owner \<sigma>)(a \<mapsto> t)\<rparr>) else None)"
  "turn env c t iss (Unlock a r) \<sigma> = Some (Returned r, \<sigma>\<lparr>pl_owner := (pl_owner \<sigma>)(a := None)\<rparr>)"
  "turn env c t iss (Returned r) \<sigma> = None"
  by (simp_all add: turn_def)

lemma turn_working:
  assumes "working pc"
  obtains a where "inside pc = Some a"
    and "turn env c t iss pc \<sigma> = (case entry_step env c iss pc (pl_heap \<sigma> a) (counters \<sigma>) of (pc', e', s') \<Rightarrow>
      Some (pc', \<sigma>\<lparr>pl_heap := (pl_heap \<sigma>)(a := e'), pl_tick := vs_tick s', pl_net := vs_net s'\<rparr>))"
  using assms by (cases pc) (auto simp: turn_def)

text \<open>The cases of a step.\<close>

lemma turn_cases [consumes 1, case_names lock_map lookup insert unlock_map lock_entry unlock work]:
  assumes "turn env c t iss pc \<sigma> = Some (pc', \<sigma>')"
  obtains
    "pc = LockMap" and "pl_mu \<sigma> = None" and "pc' = Lookup" and "\<sigma>' = \<sigma>\<lparr>pl_mu := Some t\<rparr>"
  | "pc = Lookup" and "pc' = (case pl_providers \<sigma> iss of Some a \<Rightarrow> UnlockMap a | None \<Rightarrow> Insert)"
      and "\<sigma>' = \<sigma>"
  | "pc = Insert" and "pc' = UnlockMap (pl_next \<sigma>)"
      and "\<sigma>' = \<sigma>\<lparr>pl_next := pl_next \<sigma> + 1, pl_heap := (pl_heap \<sigma>)(pl_next \<sigma> := empty_entry),
        pl_providers := (pl_providers \<sigma>)(iss \<mapsto> pl_next \<sigma>)\<rparr>"
  | a where "pc = UnlockMap a" and "pc' = LockEntry a" and "\<sigma>' = \<sigma>\<lparr>pl_mu := None\<rparr>"
  | a where "pc = LockEntry a" and "pl_owner \<sigma> a = None" and "pc' = Fresh a"
      and "\<sigma>' = \<sigma>\<lparr>pl_owner := (pl_owner \<sigma>)(a \<mapsto> t)\<rparr>"
  | a r where "pc = Unlock a r" and "pc' = Returned r"
      and "\<sigma>' = \<sigma>\<lparr>pl_owner := (pl_owner \<sigma>)(a := None)\<rparr>"
  | a e' s' where "working pc" and "inside pc = Some a"
      and "entry_step env c iss pc (pl_heap \<sigma> a) (counters \<sigma>) = (pc', e', s')"
      and "\<sigma>' = \<sigma>\<lparr>pl_heap := (pl_heap \<sigma>)(a := e'), pl_tick := vs_tick s', pl_net := vs_net s'\<rparr>"
proof (cases "working pc")
  case True
  then obtain a where "inside pc = Some a"
    "turn env c t iss pc \<sigma> = (case entry_step env c iss pc (pl_heap \<sigma> a) (counters \<sigma>) of (pc', e', s') \<Rightarrow>
      Some (pc', \<sigma>\<lparr>pl_heap := (pl_heap \<sigma>)(a := e'), pl_tick := vs_tick s', pl_net := vs_net s'\<rparr>))"
    by (rule turn_working)
  with assms True that(7) show ?thesis by (auto split: prod.splits)
next
  case False
  show ?thesis
  proof (cases pc)
    case LockMap
    show ?thesis by (rule that(1)) (use assms LockMap in \<open>auto split: if_split_asm\<close>)
  next
    case Lookup
    show ?thesis by (rule that(2)) (use assms Lookup in auto)
  next
    case Insert
    show ?thesis by (rule that(3)) (use assms Insert in auto)
  next
    case (UnlockMap a)
    show ?thesis by (rule that(4)) (use assms UnlockMap in auto)
  next
    case (LockEntry a)
    show ?thesis by (rule that(5)) (use assms LockEntry in \<open>auto split: if_split_asm\<close>)
  next
    case (Unlock a r)
    show ?thesis by (rule that(6)) (use assms Unlock in auto)
  qed (use assms False in simp_all)
qed

text \<open>What a step under the lock keeps: the entry it works on, and counters that only grow.\<close>

lemma entry_step_frame:
  assumes "entry_step env c iss pc e s = (pc', e', s')" and "inside pc = Some a"
  shows "inside pc' = Some a \<and> vs_tick s \<le> vs_tick s' \<and> vs_net s \<le> vs_net s'"
  using assms discoverProvider_state [of env iss s]
  by (cases pc) (auto dest!: cache_fresh_state backing_off_state split: if_splits prod.splits sum.splits)

lemma counters_simps [simp]:
  "vs_tick (counters \<sigma>) = pl_tick \<sigma>" "vs_net (counters \<sigma>) = pl_net \<sigma>"
  by (simp_all add: counters_def)

lemma inside_address: "inside pc = Some a \<Longrightarrow> address pc = Some a"
  by (cases pc) simp_all

lemma inside_not_in_map: "inside pc = Some a \<Longrightarrow> \<not> in_map pc"
  by (cases pc) simp_all

section \<open>The locks\<close>

text \<open>The map's lock is held at the three program points under it, an entry's lock at those
  under it; an address that a call has is that of its issuer's entry, and no two issuers
  share an entry.\<close>

definition mu_ok :: "'p pool \<Rightarrow> bool" where
  "mu_ok \<sigma> \<longleftrightarrow> (\<forall>t. pl_mu \<sigma> = Some t \<longleftrightarrow> (\<exists>iss pc. pl_calls \<sigma> t = Some (iss, pc) \<and> in_map pc))"

definition owner_ok :: "'p pool \<Rightarrow> bool" where
  "owner_ok \<sigma> \<longleftrightarrow>
     (\<forall>a t. pl_owner \<sigma> a = Some t \<longleftrightarrow> (\<exists>iss pc. pl_calls \<sigma> t = Some (iss, pc) \<and> inside pc = Some a))"

definition address_ok :: "'p pool \<Rightarrow> bool" where
  "address_ok \<sigma> \<longleftrightarrow> (\<forall>t iss pc a. pl_calls \<sigma> t = Some (iss, pc) \<longrightarrow> address pc = Some a
     \<longrightarrow> pl_providers \<sigma> iss = Some a)"

definition insert_ok :: "'p pool \<Rightarrow> bool" where
  "insert_ok \<sigma> \<longleftrightarrow> (\<forall>t iss. pl_calls \<sigma> t = Some (iss, Insert) \<longrightarrow> pl_providers \<sigma> iss = None)"

definition map_ok :: "'p pool \<Rightarrow> bool" where
  "map_ok \<sigma> \<longleftrightarrow> (\<forall>i j a. pl_providers \<sigma> i = Some a \<longrightarrow> a < pl_next \<sigma> \<and> (pl_providers \<sigma> j = Some a \<longrightarrow> i = j))"

definition pool_inv :: "'p pool \<Rightarrow> bool" where
  "pool_inv \<sigma> \<longleftrightarrow> mu_ok \<sigma> \<and> owner_ok \<sigma> \<and> address_ok \<sigma> \<and> insert_ok \<sigma> \<and> map_ok \<sigma>"

lemmas pool_inv_defs = pool_inv_def mu_ok_def owner_ok_def address_ok_def insert_ok_def map_ok_def

lemma pool_init_inv: "pool_inv pool_init"
  by (simp add: pool_inv_defs pool_init_def)

text \<open>One call moves from \<open>pc\<close> to \<open>pc'\<close>, the others stay where they are.\<close>

lemma mu_ok_move:
  assumes "mu_ok \<sigma>" and "pl_calls \<sigma> t = Some (iss, pc)" and "pl_calls \<sigma>' = (pl_calls \<sigma>)(t \<mapsto> (iss, pc'))"
    and "pl_mu \<sigma>' = (if in_map pc' then Some t else if in_map pc then None else pl_mu \<sigma>)"
    and "in_map pc' \<Longrightarrow> \<not> in_map pc \<Longrightarrow> pl_mu \<sigma> = None"
  shows "mu_ok \<sigma>'"
  using assms(1) unfolding mu_ok_def
proof (intro allI)
  fix u
  assume ok: "\<forall>t. pl_mu \<sigma> = Some t \<longleftrightarrow> (\<exists>iss pc. pl_calls \<sigma> t = Some (iss, pc) \<and> in_map pc)"
  show "pl_mu \<sigma>' = Some u \<longleftrightarrow> (\<exists>iss pc. pl_calls \<sigma>' u = Some (iss, pc) \<and> in_map pc)"
    using ok [THEN spec, of t] ok [THEN spec, of u] assms(2-5) by (cases "u = t") auto
qed

lemma owner_ok_move:
  assumes "owner_ok \<sigma>" and "pl_calls \<sigma> t = Some (iss, pc)" and "pl_calls \<sigma>' = (pl_calls \<sigma>)(t \<mapsto> (iss, pc'))"
    and "pl_owner \<sigma>' = pl_owner \<sigma>" and "inside pc' = inside pc"
  shows "owner_ok \<sigma>'"
  using assms unfolding owner_ok_def by auto

lemma address_ok_move:
  assumes "address_ok \<sigma>" and "pl_calls \<sigma> t = Some (iss, pc)" and "pl_calls \<sigma>' = (pl_calls \<sigma>)(t \<mapsto> (iss, pc'))"
    and "\<And>i a. pl_providers \<sigma> i = Some a \<Longrightarrow> pl_providers \<sigma>' i = Some a"
    and "address pc' \<noteq> None \<Longrightarrow> pl_providers \<sigma>' iss = address pc'"
  shows "address_ok \<sigma>'"
  using assms unfolding address_ok_def by auto

lemma insert_ok_move:
  assumes "insert_ok \<sigma>" and "pl_calls \<sigma> t = Some (iss, pc)" and "pl_calls \<sigma>' = (pl_calls \<sigma>)(t \<mapsto> (iss, pc'))"
    and "pl_providers \<sigma>' = pl_providers \<sigma>" and "pc' = Insert \<Longrightarrow> pl_providers \<sigma> iss = None"
  shows "insert_ok \<sigma>'"
  using assms unfolding insert_ok_def by auto

lemma one_in_map:
  "mu_ok \<sigma> \<Longrightarrow> pl_calls \<sigma> t = Some (i, pc) \<Longrightarrow> in_map pc \<Longrightarrow>
   pl_calls \<sigma> u = Some (j, pc') \<Longrightarrow> in_map pc' \<Longrightarrow> u = t"
  unfolding mu_ok_def by (metis option.inject)

text \<open>One step of a call, seen from the state it ends in.\<close>

definition moved ::
  "'p oidc_env \<Rightarrow> bool \<Rightarrow> nat \<Rightarrow> string \<Rightarrow> 'p pc \<Rightarrow> 'p pc \<Rightarrow> 'p pool \<Rightarrow> 'p pool \<Rightarrow> bool" where
  "moved env c t iss pc pc' \<sigma> \<sigma>' \<longleftrightarrow> pl_calls \<sigma> t = Some (iss, pc) \<and>
     (\<exists>\<sigma>1. turn env c t iss pc \<sigma> = Some (pc', \<sigma>1) \<and> \<sigma>' = \<sigma>1\<lparr>pl_calls := (pl_calls \<sigma>)(t \<mapsto> (iss, pc'))\<rparr>)"

lemma pool_step_cases [consumes 1, case_names call move outside]:
  assumes "pool_step env \<sigma> ev \<sigma>'"
  obtains
    t iss where "ev = Call t iss" and "pl_calls \<sigma> t = None"
      and "\<sigma>' = \<sigma>\<lparr>pl_calls := (pl_calls \<sigma>)(t \<mapsto> (iss, LockMap))\<rparr>"
  | t iss pc pc' c where "ev = Move t" and "moved env c t iss pc pc' \<sigma> \<sigma>'"
  | k n where "ev = Outside k n" and "pl_tick \<sigma> \<le> k" and "pl_net \<sigma> \<le> n"
      and "\<sigma>' = \<sigma>\<lparr>pl_tick := k, pl_net := n\<rparr>"
  using assms
proof cases
  case (call t iss)
  with that(1) show ?thesis by simp
next
  case (move t iss pc c pc' \<sigma>1)
  then have "moved env c t iss pc pc' \<sigma> \<sigma>'" by (auto simp: moved_def)
  with move that(2) show ?thesis by simp
next
  case (outside k n)
  with that(3) show ?thesis by simp
qed

lemma move_mu_ok: "moved env c t iss pc pc' \<sigma> \<sigma>' \<Longrightarrow> mu_ok \<sigma> \<Longrightarrow> mu_ok \<sigma>'"
  unfolding moved_def
proof (elim conjE exE)
  fix \<sigma>1
  assume t: "pl_calls \<sigma> t = Some (iss, pc)" and step: "turn env c t iss pc \<sigma> = Some (pc', \<sigma>1)"
    and s: "\<sigma>' = \<sigma>1\<lparr>pl_calls := (pl_calls \<sigma>)(t \<mapsto> (iss, pc'))\<rparr>" and ok: "mu_ok \<sigma>"
  have here: "in_map pc \<Longrightarrow> pl_mu \<sigma> = Some t" using ok t unfolding mu_ok_def by blast
  from step have "pl_mu \<sigma>1 = (if in_map pc' then Some t else if in_map pc then None else pl_mu \<sigma>)
      \<and> (in_map pc' \<longrightarrow> \<not> in_map pc \<longrightarrow> pl_mu \<sigma> = None)"
  proof (cases rule: turn_cases)
    case (work a e' s')
    with entry_step_frame [OF work(3)] show ?thesis by (auto dest!: inside_not_in_map)
  qed (use here in \<open>auto split: option.split\<close>)
  then show ?thesis by (intro mu_ok_move [OF ok t, of \<sigma>' pc']) (simp_all add: s)
qed

lemma move_owner_ok: "moved env c t iss pc pc' \<sigma> \<sigma>' \<Longrightarrow> owner_ok \<sigma> \<Longrightarrow> owner_ok \<sigma>'"
  unfolding moved_def
proof (elim conjE exE)
  fix \<sigma>1
  assume t: "pl_calls \<sigma> t = Some (iss, pc)" and step: "turn env c t iss pc \<sigma> = Some (pc', \<sigma>1)"
    and s: "\<sigma>' = \<sigma>1\<lparr>pl_calls := (pl_calls \<sigma>)(t \<mapsto> (iss, pc'))\<rparr>" and ok: "owner_ok \<sigma>"
  have same: "owner_ok \<sigma>'" if "pl_owner \<sigma>1 = pl_owner \<sigma>" "inside pc' = inside pc"
    by (rule owner_ok_move [OF ok t, of \<sigma>' pc']) (use that s in simp_all)
  from step show ?thesis
  proof (cases rule: turn_cases)
    case (work a e' s')
    with entry_step_frame [OF work(3)] show ?thesis by (intro same) auto
  next
    case (lock_entry a)
    have "inside q \<noteq> Some a" if "pl_calls \<sigma> u = Some (j, q)" for u j q
      using ok that lock_entry(2) unfolding owner_ok_def by (metis option.distinct(1))
    with lock_entry ok t show ?thesis unfolding owner_ok_def s by auto
  next
    case (unlock a r)
    then have "pl_owner \<sigma> a = Some t" using ok t unfolding owner_ok_def by fastforce
    then have "inside q \<noteq> Some a" if "pl_calls \<sigma> u = Some (j, q)" "u \<noteq> t" for u j q
      using ok that unfolding owner_ok_def by (metis option.inject)
    with unlock ok t show ?thesis unfolding owner_ok_def s by auto
  qed (auto intro!: same split: option.split)
qed

lemma move_map:
  assumes "moved env c t iss pc pc' \<sigma> \<sigma>'" and "insert_ok \<sigma>" and "address_ok \<sigma>"
  shows "if pc = Insert then pl_providers \<sigma> iss = None \<and> pc' = UnlockMap (pl_next \<sigma>)
        \<and> pl_providers \<sigma>' = (pl_providers \<sigma>)(iss \<mapsto> pl_next \<sigma>) \<and> pl_next \<sigma>' = pl_next \<sigma> + 1
      else pl_providers \<sigma>' = pl_providers \<sigma> \<and> pl_next \<sigma>' = pl_next \<sigma>
        \<and> (pc' = Insert \<longrightarrow> pc = Lookup \<and> pl_providers \<sigma> iss = None)
        \<and> (address pc' \<noteq> None \<longrightarrow> pl_providers \<sigma> iss = address pc')"
proof -
  obtain \<sigma>1 where t: "pl_calls \<sigma> t = Some (iss, pc)" and step: "turn env c t iss pc \<sigma> = Some (pc', \<sigma>1)"
    and s: "\<sigma>' = \<sigma>1\<lparr>pl_calls := (pl_calls \<sigma>)(t \<mapsto> (iss, pc'))\<rparr>"
    using assms(1) unfolding moved_def by blast
  have addr: "address pc = Some a \<Longrightarrow> pl_providers \<sigma> iss = Some a" for a
    using assms(3) t unfolding address_ok_def by blast
  have ins: "pc = Insert \<Longrightarrow> pl_providers \<sigma> iss = None"
    using assms(2) t unfolding insert_ok_def by blast
  from step show ?thesis
  proof (cases rule: turn_cases)
    case (work a e' s')
    with entry_step_frame [OF work(3,2)] inside_address [of pc' a] inside_address [of pc a] addr s
    show ?thesis by auto
  qed (use addr ins s in \<open>auto split: option.split\<close>)
qed

lemma move_address_ok:
  assumes "moved env c t iss pc pc' \<sigma> \<sigma>'" and "insert_ok \<sigma>" and "address_ok \<sigma>"
  shows "address_ok \<sigma>'"
proof (rule address_ok_move [OF assms(3)])
  show t: "pl_calls \<sigma> t = Some (iss, pc)" and s: "pl_calls \<sigma>' = (pl_calls \<sigma>)(t \<mapsto> (iss, pc'))"
    using assms(1) by (auto simp: moved_def)
qed (use move_map [OF assms] in \<open>auto split: if_split_asm\<close>)

lemma move_map_ok:
  assumes "moved env c t iss pc pc' \<sigma> \<sigma>'" and "insert_ok \<sigma>" and "address_ok \<sigma>" and "map_ok \<sigma>"
  shows "map_ok \<sigma>'"
proof (cases "pc = Insert")
  case True
  with move_map [OF assms(1-3)] have "pl_providers \<sigma>' = (pl_providers \<sigma>)(iss \<mapsto> pl_next \<sigma>)"
    "pl_next \<sigma>' = pl_next \<sigma> + 1" by simp_all
  moreover have "i < pl_next \<sigma>" if "pl_providers \<sigma> j = Some i" for i j
    using assms(4) that unfolding map_ok_def by blast
  moreover have "\<forall>i j a. pl_providers \<sigma> i = Some a \<longrightarrow> pl_providers \<sigma> j = Some a \<longrightarrow> i = j"
    using assms(4) unfolding map_ok_def by blast
  ultimately show ?thesis unfolding map_ok_def by (fastforce split: if_split_asm)
next
  case False
  with move_map [OF assms(1-3)] assms(4) show ?thesis unfolding map_ok_def by simp
qed

lemma move_insert_ok:
  assumes "moved env c t iss pc pc' \<sigma> \<sigma>'" and "insert_ok \<sigma>" and "address_ok \<sigma>" and "mu_ok \<sigma>"
  shows "insert_ok \<sigma>'"
proof -
  have t: "pl_calls \<sigma> t = Some (iss, pc)" and s: "pl_calls \<sigma>' = (pl_calls \<sigma>)(t \<mapsto> (iss, pc'))"
    using assms(1) by (auto simp: moved_def)
  show ?thesis
  proof (cases "pc = Insert")
    case True
    have alone: "u = t" if "pl_calls \<sigma> u = Some (j, Insert)" for u j
      using one_in_map [OF assms(4) t _ that] True by simp
    have "pc' \<noteq> Insert" using move_map [OF assms(1-3)] True by simp
    with alone show ?thesis by (auto simp: insert_ok_def s)
  next
    case False
    with move_map [OF assms(1-3)] show ?thesis
      by (intro insert_ok_move [OF assms(2) t s]) auto
  qed
qed

lemma pool_step_inv:
  assumes "pool_step env \<sigma> ev \<sigma>'" and "pool_inv \<sigma>"
  shows "pool_inv \<sigma>'"
  using assms(1)
proof (cases rule: pool_step_cases)
  case (call t iss)
  then show ?thesis using assms(2) unfolding pool_inv_defs by auto
next
  case (move t iss pc pc' c)
  note m = move(2)
  from assms(2) show ?thesis
    using move_mu_ok [OF m] move_owner_ok [OF m] move_address_ok [OF m] move_map_ok [OF m]
      move_insert_ok [OF m]
    by (simp add: pool_inv_def)
next
  case (outside k n)
  then show ?thesis using assms(2) unfolding pool_inv_defs by simp
qed

lemma pool_reachable_inv: "steps (pool_step env) pool_init evs \<sigma> \<Longrightarrow> pool_inv \<sigma>"
  by (erule steps_invariant [where P = pool_inv]) (auto simp: pool_init_inv intro: pool_step_inv)

text \<open>Mutual exclusion: an issuer's entry is worked on by one call at a time.\<close>

lemma one_inside:
  assumes "pool_inv \<sigma>" and "pl_calls \<sigma> t = Some (iss, pc)" and "inside pc \<noteq> None"
    and "pl_calls \<sigma> u = Some (iss, pc')" and "inside pc' \<noteq> None"
  shows "u = t"
proof -
  obtain a b where ab: "inside pc = Some a" "inside pc' = Some b" using assms by blast
  with assms inside_address have "pl_providers \<sigma> iss = Some a" "pl_providers \<sigma> iss = Some b"
    unfolding pool_inv_def address_ok_def by metis+
  then have "a = b" by simp
  with ab assms have "pl_owner \<sigma> a = Some t" "pl_owner \<sigma> a = Some u"
    unfolding pool_inv_def owner_ok_def by blast+
  then show ?thesis by simp
qed

end
