(* ===== verification/ProviderProgress.thy ===== *)
theory ProviderProgress
  imports ProviderLocks
begin

text \<open>
  Calls of \<open>provider\<close> return: every step brings a call nearer to its end, and as long as one
  has not returned some step is possible, for the call itself or for the holder of the lock
  it waits for.  Since a call that is in discovery holds only the lock of its own issuer's
  entry, the calls for other issuers need none of its steps.
\<close>

section \<open>The steps a call has left\<close>

fun steps_left :: "'p pc \<Rightarrow> nat" where
  "steps_left LockMap = 14"
| "steps_left Lookup = 13"
| "steps_left Insert = 12"
| "steps_left (UnlockMap a) = 11"
| "steps_left (LockEntry a) = 10"
| "steps_left (Fresh a) = 9"
| "steps_left (Backoff a) = 8"
| "steps_left (Discover a) = 7"
| "steps_left (Failed a x) = 6"
| "steps_left (MarkFailed a x) = 5"
| "steps_left (Stale a x) = 4"
| "steps_left (Store a p) = 6"
| "steps_left (MarkFetched a p) = 5"
| "steps_left (ClearErr a p) = 4"
| "steps_left (Unlock a r) = 1"
| "steps_left (Returned r) = 0"

fun returned :: "'p pc \<Rightarrow> bool" where
  "returned (Returned r) = True"
| "returned pc = False"

lemma returned_iff: "returned pc \<longleftrightarrow> (\<exists>r. pc = Returned r)"
  by (cases pc) simp_all

lemma steps_left_bound: "steps_left pc \<le> 14"
  by (cases pc) simp_all

lemma entry_step_left:
  "entry_step env c iss pc e s = (pc', e', s') \<Longrightarrow> working pc \<Longrightarrow> steps_left pc' < steps_left pc"
  by (cases pc) (auto split: if_splits prod.splits sum.splits)

lemma turn_left: "turn env c t iss pc \<sigma> = Some (pc', \<sigma>') \<Longrightarrow> steps_left pc' < steps_left pc"
  by (erule turn_cases) (auto dest: entry_step_left split: option.split)

text \<open>All calls together, when there are finitely many.\<close>

definition calls_left :: "'p pool \<Rightarrow> nat" where
  "calls_left \<sigma> = (\<Sum>t \<in> dom (pl_calls \<sigma>). steps_left (snd (the (pl_calls \<sigma> t))))"

definition pool_ok :: "'p pool \<Rightarrow> bool" where
  "pool_ok \<sigma> \<longleftrightarrow> pool_inv \<sigma> \<and> finite (dom (pl_calls \<sigma>))"

lemma moved_left:
  assumes "moved env c t iss pc pc' \<sigma> \<sigma>'" and "finite (dom (pl_calls \<sigma>))"
  shows "calls_left \<sigma>' < calls_left \<sigma>"
proof -
  obtain \<sigma>1 where t: "pl_calls \<sigma> t = Some (iss, pc)" "turn env c t iss pc \<sigma> = Some (pc', \<sigma>1)"
    "pl_calls \<sigma>' = (pl_calls \<sigma>)(t \<mapsto> (iss, pc'))"
    using assms(1) by (auto simp: moved_def)
  have "calls_left \<sigma>' + steps_left pc = calls_left \<sigma> + steps_left pc'"
    using sum_map_update [OF assms(2) t(1), of "\<lambda>x. steps_left (snd x)" "(iss, pc')"]
    by (simp only: calls_left_def t(3) snd_conv)
  with turn_left [OF t(2)] show ?thesis by linarith
qed

lemma pool_step_ok: "pool_step env \<sigma> ev \<sigma>' \<Longrightarrow> pool_ok \<sigma> \<Longrightarrow> pool_ok \<sigma>'"
  using pool_step_inv [of env \<sigma> ev \<sigma>']
  by (auto simp: pool_ok_def moved_def elim!: pool_step_cases)

lemma pool_reachable_ok: "steps (pool_step env) pool_init evs \<sigma> \<Longrightarrow> pool_ok \<sigma>"
proof (erule steps_invariant [where P = pool_ok])
  show "pool_ok pool_init" by (simp add: pool_ok_def pool_init_inv) (simp add: pool_init_def)
qed (rule pool_step_ok)

section \<open>Some step is possible\<close>

lemma turn_possible:
  assumes "\<not> returned pc" and "pc = LockMap \<Longrightarrow> pl_mu \<sigma> = None"
    and "\<And>a. pc = LockEntry a \<Longrightarrow> pl_owner \<sigma> a = None"
  shows "\<exists>pc' \<sigma>'. turn env c t iss pc \<sigma> = Some (pc', \<sigma>')"
proof (cases "working pc")
  case True
  then obtain a where "turn env c t iss pc \<sigma>
      = (case entry_step env c iss pc (pl_heap \<sigma> a) (counters \<sigma>) of (pc', e', s') \<Rightarrow>
      Some (pc', \<sigma>\<lparr>pl_heap := (pl_heap \<sigma>)(a := e'), pl_tick := vs_tick s', pl_net := vs_net s'\<rparr>))"
    by (rule turn_working)
  then show ?thesis by (simp split: prod.split)
qed (use assms in \<open>cases pc; simp\<close>)

text \<open>A step that the goroutine \<open>t\<close> can take, \<open>t\<close> being a call for \<open>iss\<close> or one that is not
  in the middle of discovery.\<close>

definition not_remote :: "string \<Rightarrow> 'p pool \<Rightarrow> nat \<Rightarrow> bool" where
  "not_remote iss \<sigma> t \<longleftrightarrow> (\<forall>i a. pl_calls \<sigma> t = Some (i, Discover a) \<longrightarrow> i = iss)"

lemma step_possible:
  assumes "pl_calls \<sigma> t = Some (iss, pc)" and "\<not> returned pc"
    and "pc = LockMap \<Longrightarrow> pl_mu \<sigma> = None" and "\<And>a. pc = LockEntry a \<Longrightarrow> pl_owner \<sigma> a = None"
  shows "\<exists>\<sigma>'. pool_step env \<sigma> (Move t) \<sigma>'"
  using turn_possible [OF assms(2-4), of env False t iss] assms(1) pool_step.move by blast

lemma helper_possible:
  assumes "pool_inv \<sigma>" and "pl_calls \<sigma> t = Some (iss, pc)" and "\<not> returned pc"
  shows "\<exists>u \<sigma>'. not_remote iss \<sigma> u \<and> pool_step env \<sigma> (Move u) \<sigma>'"
proof (cases "pc = LockMap \<and> pl_mu \<sigma> \<noteq> None")
  case True
  then obtain u where "pl_mu \<sigma> = Some u" by blast
  then obtain j q where u: "pl_calls \<sigma> u = Some (j, q)" "in_map q"
    using assms(1) unfolding pool_inv_def mu_ok_def by blast
  then have "\<exists>\<sigma>'. pool_step env \<sigma> (Move u) \<sigma>'"
    by (intro step_possible [OF u(1)]) (cases q; simp)+
  moreover have "not_remote iss \<sigma> u" using u by (auto simp: not_remote_def)
  ultimately show ?thesis by blast
next
  case not_map: False
  show ?thesis
  proof (cases "\<exists>a. pc = LockEntry a \<and> pl_owner \<sigma> a \<noteq> None")
    case True
    then obtain a u where a: "pc = LockEntry a" "pl_owner \<sigma> a = Some u" by blast
    then obtain j q where u: "pl_calls \<sigma> u = Some (j, q)" "inside q = Some a"
      using assms(1) unfolding pool_inv_def owner_ok_def by blast
    have "pl_providers \<sigma> iss = Some a" "pl_providers \<sigma> j = Some a"
      using assms(1,2) a(1) u inside_address [OF u(2)] unfolding pool_inv_def address_ok_def
      by fastforce+
    then have "j = iss" using assms(1) unfolding pool_inv_def map_ok_def by blast
    then have "not_remote iss \<sigma> u" using u(1) by (simp add: not_remote_def)
    moreover have "\<exists>\<sigma>'. pool_step env \<sigma> (Move u) \<sigma>'"
      using u(2) by (intro step_possible [OF u(1)]) (cases q; simp)+
    ultimately show ?thesis by blast
  next
    case False
    with not_map have "\<exists>\<sigma>'. pool_step env \<sigma> (Move t) \<sigma>'"
      by (intro step_possible [OF assms(2,3)]) auto
    moreover have "not_remote iss \<sigma> t" using assms(2) by (simp add: not_remote_def)
    ultimately show ?thesis by blast
  qed
qed

section \<open>Runs end with every call returned\<close>

text \<open>The steps of the calls that are under way, no new call coming in.\<close>

definition work_step :: "'p oidc_env \<Rightarrow> 'p pool \<Rightarrow> nat \<Rightarrow> 'p pool \<Rightarrow> bool" where
  "work_step env \<sigma> t \<sigma>' \<longleftrightarrow> pool_step env \<sigma> (Move t) \<sigma>'"

definition all_returned :: "'p pool \<Rightarrow> bool" where
  "all_returned \<sigma> \<longleftrightarrow> (\<forall>t iss pc. pl_calls \<sigma> t = Some (iss, pc) \<longrightarrow> returned pc)"

text \<open>The same with every call that is in discovery for another issuer held up for good.\<close>

definition patient_step :: "'p oidc_env \<Rightarrow> string \<Rightarrow> 'p pool \<Rightarrow> nat \<Rightarrow> 'p pool \<Rightarrow> bool" where
  "patient_step env iss \<sigma> t \<sigma>' \<longleftrightarrow> not_remote iss \<sigma> t \<and> pool_step env \<sigma> (Move t) \<sigma>'"

definition call_for :: "nat \<Rightarrow> string \<Rightarrow> 'p pool \<Rightarrow> bool" where
  "call_for t iss \<sigma> \<longleftrightarrow> pool_ok \<sigma> \<and> (\<exists>pc. pl_calls \<sigma> t = Some (iss, pc))"

definition call_returned :: "nat \<Rightarrow> 'p pool \<Rightarrow> bool" where
  "call_returned t \<sigma> \<longleftrightarrow> (\<exists>iss r. pl_calls \<sigma> t = Some (iss, Returned r))"

lemma work_step_left: "work_step env \<sigma> t \<sigma>' \<Longrightarrow> pool_ok \<sigma> \<Longrightarrow> calls_left \<sigma>' < calls_left \<sigma>"
  using moved_left by (auto simp: work_step_def pool_ok_def elim!: pool_step_cases)

lemma pool_step_keeps_call:
  "pool_step env \<sigma> ev \<sigma>' \<Longrightarrow> pl_calls \<sigma> t = Some (iss, pc) \<Longrightarrow> \<exists>pc'. pl_calls \<sigma>' t = Some (iss, pc')"
  by (auto simp: moved_def elim!: pool_step_cases)

interpretation all_calls: finishing_system "work_step env" pool_ok calls_left all_returned for env
proof
  fix \<sigma> :: "'a pool"
  assume "pool_ok \<sigma>" and "\<not> all_returned \<sigma>"
  then obtain t iss pc where "pool_inv \<sigma>" "pl_calls \<sigma> t = Some (iss, pc)" "\<not> returned pc"
    by (auto simp: all_returned_def pool_ok_def)
  from helper_possible [OF this, of env] show "\<exists>l s'. work_step env \<sigma> l s'"
    by (auto simp: work_step_def)
qed (auto simp: work_step_def intro: pool_step_ok work_step_left [unfolded work_step_def])

interpretation one_call: finishing_system "patient_step env iss" "call_for t iss" calls_left "call_returned t"
  for env t iss
proof
  fix \<sigma> :: "'a pool"
  assume "call_for t iss \<sigma>" and "\<not> call_returned t \<sigma>"
  then obtain pc where "pool_inv \<sigma>" "pl_calls \<sigma> t = Some (iss, pc)" "\<not> returned pc"
    by (auto simp: call_for_def call_returned_def pool_ok_def returned_iff)
  from helper_possible [OF this, of env] show "\<exists>l s'. patient_step env iss \<sigma> l s'"
    by (auto simp: patient_step_def)
qed (auto simp: patient_step_def call_for_def intro: pool_step_ok work_step_left [unfolded work_step_def]
    dest: pool_step_keeps_call)

end
