(* ===== verification/ProviderRefine.thy ===== *)
theory ProviderRefine
  imports ProviderLocks
begin

text \<open>
  Concurrent calls of \<open>provider\<close> against the sequential function: the calls with the locks of
  \<open>ProviderLocks\<close> act on the cells of their issuers in the order in which they release them,
  each as \<open>provider\<close> of \<open>Verifier\<close> does alone.  \<open>atomic_call\<close> describes the effect of a call by
  cases; \<open>provider_call\<close> is a run of \<open>provider\<close>.
\<close>

section \<open>The specification of a call\<close>

text \<open>The cell of an issuer: its entry, and how far clock and network had got when the last
  call left it.\<close>

record 'p cell =
  cl_entry :: "'p providerEntry"
  cl_tick :: nat
  cl_net :: nat

definition empty_cell :: "'p cell" where
  "empty_cell = \<lparr>cl_entry = empty_entry, cl_tick = 0, cl_net = 0\<rparr>"

text \<open>The two conditions at the clock reading \<open>k\<close>.\<close>

definition fresh_at :: "'p oidc_env \<Rightarrow> 'p providerEntry \<Rightarrow> nat \<Rightarrow> bool" where
  "fresh_at env e k \<longleftrightarrow> sint (Sub (env_clock env k) (ent_fetchedAt e)) < sint jwksTTL"

definition waiting_at :: "'p oidc_env \<Rightarrow> 'p providerEntry \<Rightarrow> nat \<Rightarrow> bool" where
  "waiting_at env e k \<longleftrightarrow> sint (Sub (env_clock env k) (ent_failedAt e)) < sint discoveryRetryDelay"

text \<open>What a call saw between \<open>C\<close> and the counters \<open>K\<close> and \<open>N\<close>, one clock reading after the
  other: an entry that is not fresh, then an entry without a recent failure, then the time that
  it notes; and a result of discovery.\<close>

definition expired :: "'p oidc_env \<Rightarrow> 'p cell \<Rightarrow> nat \<Rightarrow> bool" where
  "expired env C K \<longleftrightarrow> cl_tick C \<le> K \<and> (ent_provider (cl_entry C) = None
     \<or> (\<exists>k. cl_tick C \<le> k \<and> k < K \<and> \<not> fresh_at env (cl_entry C) k))"

definition may_retry :: "'p oidc_env \<Rightarrow> 'p cell \<Rightarrow> nat \<Rightarrow> bool" where
  "may_retry env C K \<longleftrightarrow> (\<exists>J \<le> K. expired env C J \<and> (ent_err (cl_entry C) = None
     \<or> (\<exists>k. J \<le> k \<and> k < K \<and> \<not> waiting_at env (cl_entry C) k)))"

definition stamped :: "'p oidc_env \<Rightarrow> 'p cell \<Rightarrow> nat \<Rightarrow> gotime \<Rightarrow> bool" where
  "stamped env C K t \<longleftrightarrow> (\<exists>J k. may_retry env C J \<and> J \<le> k \<and> k < K \<and> t = env_clock env k)"

definition discovered ::
  "'p oidc_env \<Rightarrow> string \<Rightarrow> 'p cell \<Rightarrow> nat \<Rightarrow> (provider_error, 'p) result \<Rightarrow> bool" where
  "discovered env iss C N d \<longleftrightarrow>
     (\<exists>s s'. cl_net C \<le> vs_net s \<and> discoverProvider env iss s = (d, s') \<and> vs_net s' \<le> N)"

definition answer :: "'p providerEntry \<Rightarrow> provider_error \<Rightarrow> (provider_error, 'p) result" where
  "answer e err = (case ent_provider e of Some q \<Rightarrow> Inr q | None \<Rightarrow> Inl err)"

inductive atomic_call ::
  "'p oidc_env \<Rightarrow> string \<Rightarrow> 'p cell \<Rightarrow> (provider_error, 'p) result \<Rightarrow> 'p cell \<Rightarrow> bool"
  for env iss C where
  ac_fresh: "ent_provider (cl_entry C) = Some p \<Longrightarrow> cl_tick C \<le> k \<Longrightarrow> k < K \<Longrightarrow>
    fresh_at env (cl_entry C) k \<Longrightarrow> cl_net C \<le> N \<Longrightarrow>
    atomic_call env iss C (Inr p) \<lparr>cl_entry = cl_entry C, cl_tick = K, cl_net = N\<rparr>"
| ac_wait: "expired env C J \<Longrightarrow> ent_err (cl_entry C) = Some err \<Longrightarrow> J \<le> k \<Longrightarrow> k < K \<Longrightarrow>
    waiting_at env (cl_entry C) k \<Longrightarrow> cl_net C \<le> N \<Longrightarrow>
    atomic_call env iss C (answer (cl_entry C) err) \<lparr>cl_entry = cl_entry C, cl_tick = K, cl_net = N\<rparr>"
| ac_cancelled: "may_retry env C K \<Longrightarrow> discovered env iss C N (Inl err) \<Longrightarrow>
    atomic_call env iss C (answer (cl_entry C) err) \<lparr>cl_entry = cl_entry C, cl_tick = K, cl_net = N\<rparr>"
| ac_failed: "stamped env C K t \<Longrightarrow> discovered env iss C N (Inl err) \<Longrightarrow>
    atomic_call env iss C (answer (cl_entry C) err)
      \<lparr>cl_entry = (cl_entry C)\<lparr>ent_err := Some err, ent_failedAt := t\<rparr>, cl_tick = K, cl_net = N\<rparr>"
| ac_fetched: "stamped env C K t \<Longrightarrow> discovered env iss C N (Inr p) \<Longrightarrow>
    atomic_call env iss C (Inr p)
      \<lparr>cl_entry = (cl_entry C)\<lparr>ent_provider := Some p, ent_fetchedAt := t, ent_err := None\<rparr>,
       cl_tick = K, cl_net = N\<rparr>"

text \<open>A sequence of calls, each with its goroutine, its issuer and its result.\<close>

type_synonym 'p history = "(nat \<times> string \<times> (provider_error, 'p) result) list"

inductive atomic_calls ::
  "'p oidc_env \<Rightarrow> 'p history \<Rightarrow> (string \<Rightarrow> 'p cell) \<Rightarrow> bool" for env where
  none_yet: "atomic_calls env [] (\<lambda>_. empty_cell)"
| one_more: "atomic_calls env hs A \<Longrightarrow> atomic_call env iss (A iss) r C \<Longrightarrow>
    atomic_calls env (hs @ [(t, iss, r)]) (A(iss := C))"

text \<open>The calls that have returned after the events of a run, in the order in which they released
  the lock of their entry.\<close>

inductive released ::
  "'p oidc_env \<Rightarrow> pool_event list \<Rightarrow> 'p history \<Rightarrow> 'p pool \<Rightarrow> bool" for env where
  rl_start: "released env [] [] pool_init"
| rl_quiet: "released env evs hs \<sigma> \<Longrightarrow> pool_step env \<sigma> ev \<sigma>' \<Longrightarrow>
    (\<And>t iss a r. ev = Move t \<Longrightarrow> pl_calls \<sigma> t \<noteq> Some (iss, Unlock a r)) \<Longrightarrow>
    released env (evs @ [ev]) hs \<sigma>'"
| rl_release: "released env evs hs \<sigma> \<Longrightarrow> pool_step env \<sigma> (Move t) \<sigma>' \<Longrightarrow>
    pl_calls \<sigma> t = Some (iss, Unlock a r) \<Longrightarrow>
    released env (evs @ [Move t]) (hs @ [(t, iss, r)]) \<sigma>'"

section \<open>Windows grow\<close>

lemma expired_mono: "expired env C K \<Longrightarrow> K \<le> K' \<Longrightarrow> expired env C K'"
  unfolding expired_def by (meson less_le_trans order_trans)

lemma may_retry_mono: "may_retry env C K \<Longrightarrow> K \<le> K' \<Longrightarrow> may_retry env C K'"
  unfolding may_retry_def by (meson less_le_trans order_trans)

lemma stamped_mono: "stamped env C K t \<Longrightarrow> K \<le> K' \<Longrightarrow> stamped env C K' t"
  unfolding stamped_def by (elim exE conjE, intro exI conjI) (assumption | erule (1) less_le_trans)+

lemma discovered_mono: "discovered env iss C N d \<Longrightarrow> N \<le> N' \<Longrightarrow> discovered env iss C N' d"
  unfolding discovered_def by (meson order_trans)

lemmas window_mono = expired_mono may_retry_mono stamped_mono discovered_mono

lemma may_retryI:
  "expired env C K \<Longrightarrow> ent_err (cl_entry C) = None \<Longrightarrow> may_retry env C K"
  "expired env C K \<Longrightarrow> \<not> waiting_at env (cl_entry C) K \<Longrightarrow> may_retry env C (Suc K)"
  unfolding may_retry_def by (blast, intro exI [of _ K]) auto

lemma stampedI: "may_retry env C K \<Longrightarrow> stamped env C (Suc K) (env_clock env K)"
  unfolding stamped_def by blast

lemma atomic_call_widen:
  assumes "atomic_call env iss C r \<lparr>cl_entry = e, cl_tick = K, cl_net = N\<rparr>" and "K \<le> K'" and "N \<le> N'"
  shows "atomic_call env iss C r \<lparr>cl_entry = e, cl_tick = K', cl_net = N'\<rparr>"
  using assms(1)
proof cases
  case (ac_fresh p k)
  with assms(2,3) show ?thesis by (auto intro!: atomic_call.ac_fresh)
next
  case (ac_wait J err k)
  then have "k < K'" "cl_net C \<le> N'" using assms(2,3) by simp_all
  with ac_wait show ?thesis by (auto intro: atomic_call.ac_wait)
next
  case (ac_cancelled err)
  with assms(2,3) show ?thesis by (auto intro!: atomic_call.ac_cancelled intro: window_mono)
next
  case (ac_failed t err)
  with assms(2,3) show ?thesis by (auto intro!: atomic_call.ac_failed intro: window_mono)
next
  case (ac_fetched t p)
  with assms(2,3) show ?thesis by (auto intro!: atomic_call.ac_fetched intro: window_mono)
qed

section \<open>The sequential function\<close>

lemma cache_fresh_true:
  "cache_fresh env e s = (True, s') \<longleftrightarrow> ent_provider e \<noteq> None \<and> fresh_at env e (vs_tick s)
     \<and> s' = s\<lparr>vs_tick := vs_tick s + 1\<rparr>"
  by (auto simp: cache_fresh_def fresh_at_def read_clock_def)

lemma cache_fresh_false:
  "cache_fresh env e s = (False, s') \<longleftrightarrow>
     (if ent_provider e = None then s' = s
      else \<not> fresh_at env e (vs_tick s) \<and> s' = s\<lparr>vs_tick := vs_tick s + 1\<rparr>)"
  by (auto simp: cache_fresh_def fresh_at_def read_clock_def)

lemma backing_off_true:
  "backing_off env e s = (True, s') \<longleftrightarrow> ent_err e \<noteq> None \<and> waiting_at env e (vs_tick s)
     \<and> s' = s\<lparr>vs_tick := vs_tick s + 1\<rparr>"
  by (auto simp: backing_off_def waiting_at_def read_clock_def)

lemma backing_off_false:
  "backing_off env e s = (False, s') \<longleftrightarrow>
     (if ent_err e = None then s' = s
      else \<not> waiting_at env e (vs_tick s) \<and> s' = s\<lparr>vs_tick := vs_tick s + 1\<rparr>)"
  by (auto simp: backing_off_def waiting_at_def read_clock_def)

lemmas condition_iff = cache_fresh_true cache_fresh_false backing_off_true backing_off_false

text \<open>A run of \<open>provider\<close> from one cell to the next: it reads the clock at some of the moments
  between the two, in their order, talks to the network between the two, and its request may be
  cancelled or not.\<close>

definition replay :: "'p oidc_env \<Rightarrow> nat list \<Rightarrow> bool \<Rightarrow> 'p oidc_env" where
  "replay env ks cancelled =
     env\<lparr>env_clock := (\<lambda>j. env_clock env (ks ! j)), env_ctx_err := (\<lambda>_. cancelled)\<rparr>"

definition moments :: "nat \<Rightarrow> nat \<Rightarrow> nat list \<Rightarrow> bool" where
  "moments a b ks \<longleftrightarrow> sorted_wrt (<) ks \<and> set ks \<subseteq> {a..<b}"

definition provider_call ::
  "'p oidc_env \<Rightarrow> string \<Rightarrow> 'p cell \<Rightarrow> (provider_error, 'p) result \<Rightarrow> 'p cell \<Rightarrow> bool" where
  "provider_call env iss C r C' \<longleftrightarrow> (\<exists>ks cancelled s s'.
     provider (replay env ks cancelled) iss s = (r, s')
     \<and> entry s iss = cl_entry C \<and> entry s' iss = cl_entry C'
     \<and> vs_tick s = 0 \<and> vs_tick s' = length ks \<and> moments (cl_tick C) (cl_tick C') ks
     \<and> cl_net C \<le> vs_net s \<and> vs_net s' \<le> cl_net C')"

text \<open>Discovery reads neither clock nor cache, and the conditions read only the clock.\<close>

lemma checkJWKS_replay:
  assumes "checkJWKS env uri s = (d, s')" and "vs_net t = vs_net s"
  shows "checkJWKS (replay env ks c) uri t = (d, t\<lparr>vs_net := vs_net s'\<rparr>)"
  using assms
  by (auto simp: checkJWKS_def replay_def use_net_def Let_def split: option.splits sum.splits prod.splits if_splits)

lemma discover_replay:
  assumes "discoverProvider env iss s = (d, s')" and "vs_net t = vs_net s"
  shows "discoverProvider (replay env ks c) iss t = (d, t\<lparr>vs_net := vs_net s'\<rparr>)"
proof -
  have same: "env_new_provider (replay env ks c) = env_new_provider env"
    "env_jwks_uri (replay env ks c) = env_jwks_uri env" by (simp_all add: replay_def)
  show ?thesis
  proof (cases "\<exists>p uri. env_new_provider env (vs_net s) iss = Inr p \<and> env_jwks_uri env p = Inr uri \<and> uri \<noteq> []")
    case True
    then obtain p uri where p: "env_new_provider env (vs_net s) iss = Inr p" "env_jwks_uri env p = Inr uri" "uri \<noteq> []"
      by blast
    obtain d1 s1 where c: "checkJWKS env uri (s\<lparr>vs_net := vs_net s + 1\<rparr>) = (d1, s1)" by fastforce
    have "checkJWKS (replay env ks c) uri (t\<lparr>vs_net := vs_net s + 1\<rparr>) = (d1, t\<lparr>vs_net := vs_net s1\<rparr>)"
      using checkJWKS_replay [OF c, of "t\<lparr>vs_net := vs_net s + 1\<rparr>"] by simp
    with assms p c show ?thesis
      by (cases d1) (auto simp: discoverProvider_def same use_net_def)
  qed (use assms in \<open>auto simp: discoverProvider_def same use_net_def split: sum.splits\<close>)
qed

lemma moments_snoc: "moments a b ks \<Longrightarrow> a \<le> b \<Longrightarrow> b \<le> k \<Longrightarrow> k < c \<Longrightarrow> moments a c (ks @ [k])"
  by (fastforce simp: moments_def sorted_wrt_append)

lemma moments_mono: "moments a b ks \<Longrightarrow> b \<le> c \<Longrightarrow> moments a c ks"
  by (auto simp: moments_def)

lemma replay_clock: "env_clock (replay env (ks @ k # ls) c) (length ks) = env_clock env k"
  by (simp add: replay_def)

lemma at_replay:
  "fresh_at (replay env (ks @ k # ls) c) e (length ks) = fresh_at env e k"
  "waiting_at (replay env (ks @ k # ls) c) e (length ks) = waiting_at env e k"
  by (simp_all add: fresh_at_def waiting_at_def replay_clock)

lemma may_retry_from: "may_retry env C K \<Longrightarrow> cl_tick C \<le> K"
  by (auto simp: may_retry_def expired_def)

lemma expired_replay:
  assumes "expired env C J"
  obtains ks where "moments (cl_tick C) J ks"
    and "\<And>s ls c. vs_tick s = 0 \<Longrightarrow>
      cache_fresh (replay env (ks @ ls) c) (cl_entry C) s = (False, s\<lparr>vs_tick := length ks\<rparr>)"
proof (cases "ent_provider (cl_entry C) = None")
  case True
  show thesis by (rule that [of "[]"]) (use True in \<open>simp_all add: moments_def cache_fresh_false\<close>)
next
  case False
  then obtain k where k: "cl_tick C \<le> k" "k < J" "\<not> fresh_at env (cl_entry C) k"
    using assms False by (auto simp: expired_def)
  show thesis
    by (rule that [of "[k]"])
      (use False k at_replay(1) [of env "[]" k] in \<open>auto simp: moments_def cache_fresh_false\<close>)
qed

lemma may_retry_replay:
  assumes "may_retry env C K"
  obtains ks where "moments (cl_tick C) K ks"
    and "\<And>s ls c. vs_tick s = 0 \<Longrightarrow> \<exists>s1. cache_fresh (replay env (ks @ ls) c) (cl_entry C) s = (False, s1)
      \<and> backing_off (replay env (ks @ ls) c) (cl_entry C) s1 = (False, s\<lparr>vs_tick := length ks\<rparr>)"
proof -
  obtain J where J: "J \<le> K" "expired env C J"
    and w: "ent_err (cl_entry C) = None \<or> (\<exists>k. J \<le> k \<and> k < K \<and> \<not> waiting_at env (cl_entry C) k)"
    using assms unfolding may_retry_def by blast
  from J(2) obtain ks where ks: "moments (cl_tick C) J ks" and
    fresh: "\<And>s ls c. vs_tick s = 0 \<Longrightarrow>
      cache_fresh (replay env (ks @ ls) c) (cl_entry C) s = (False, s\<lparr>vs_tick := length ks\<rparr>)"
    by (rule expired_replay) blast
  show thesis
  proof (cases "ent_err (cl_entry C) = None")
    case True
    show thesis
      by (rule that [of ks]) (use True fresh moments_mono [OF ks J(1)] in \<open>simp_all add: backing_off_false\<close>)
  next
    case False
    then obtain k where k: "J \<le> k" "k < K" "\<not> waiting_at env (cl_entry C) k" using w False by auto
    have "cl_tick C \<le> J" using J(2) by (simp add: expired_def)
    from moments_snoc [OF ks this k(1,2)] show thesis
      by (rule that [of "ks @ [k]"]) (use False fresh k(3) in \<open>auto simp: backing_off_false at_replay\<close>)
  qed
qed

text \<open>The run starts with nothing but the entry of the issuer.\<close>

definition alone :: "string \<Rightarrow> 'p providerEntry \<Rightarrow> nat \<Rightarrow> 'p verifier_state" where
  "alone iss e n = \<lparr>vs_tick = 0, vs_net = n, vs_providers = [iss \<mapsto> e]\<rparr>"

lemma alone_simps [simp]:
  "vs_tick (alone iss e n) = 0" "vs_net (alone iss e n) = n" "entry (alone iss e n) iss = e"
  "put_entry (alone iss e n) iss e = alone iss e n"
  "entry ((alone iss e n)\<lparr>vs_tick := k, vs_net := m\<rparr>) iss = e"
  "put_entry ((alone iss e n)\<lparr>vs_tick := k, vs_net := m\<rparr>) iss e' = (alone iss e' n)\<lparr>vs_tick := k, vs_net := m\<rparr>"
  "put_entry ((alone iss e n)\<lparr>vs_net := m, vs_tick := k\<rparr>) iss e' = (alone iss e' n)\<lparr>vs_tick := k, vs_net := m\<rparr>"
  "(alone iss e n)\<lparr>vs_tick := k, vs_net := n\<rparr> = (alone iss e n)\<lparr>vs_tick := k\<rparr>"
  by (simp_all add: alone_def entry_def put_entry_def)

lemma provider_refreshes:
  assumes "\<exists>s1. cache_fresh E e (alone iss e n) = (False, s1)
    \<and> backing_off E e s1 = (False, (alone iss e n)\<lparr>vs_tick := k\<rparr>)"
  shows "provider E iss (alone iss e n) = refresh E iss e ((alone iss e n)\<lparr>vs_tick := k\<rparr>)"
  using assms by (auto simp: provider_def)

lemma discovered_replay:
  assumes "discovered env iss C N d"
  obtains n n' where "cl_net C \<le> n" and "n' \<le> N"
    and "\<And>ks c k. discoverProvider (replay env ks c) iss ((alone iss e n)\<lparr>vs_tick := k\<rparr>)
      = (d, (alone iss e n)\<lparr>vs_tick := k, vs_net := n'\<rparr>)"
proof -
  obtain s s' where s: "cl_net C \<le> vs_net s" "discoverProvider env iss s = (d, s')" "vs_net s' \<le> N"
    using assms unfolding discovered_def by blast
  have "discoverProvider (replay env ks c) iss ((alone iss e (vs_net s))\<lparr>vs_tick := k\<rparr>)
      = (d, (alone iss e (vs_net s))\<lparr>vs_tick := k, vs_net := vs_net s'\<rparr>)" for ks c k
    using discover_replay [OF s(2), of "(alone iss e (vs_net s))\<lparr>vs_tick := k\<rparr>" ks c] by simp
  with s(1,3) show thesis by (rule that)
qed

text \<open>A sequence of such runs.\<close>

inductive provider_calls ::
  "'p oidc_env \<Rightarrow> 'p history \<Rightarrow> (string \<Rightarrow> 'p cell) \<Rightarrow> bool" for env where
  pc_none: "provider_calls env [] (\<lambda>_. empty_cell)"
| pc_more: "provider_calls env hs A \<Longrightarrow> provider_call env iss (A iss) r C \<Longrightarrow>
    provider_calls env (hs @ [(t, iss, r)]) (A(iss := C))"

lemma provider_callI:
  assumes "provider (replay env ks c) iss (alone iss (cl_entry C) n)
      = (r, (alone iss e' n)\<lparr>vs_tick := length ks, vs_net := n'\<rparr>)"
    and "moments (cl_tick C) K ks" and "cl_net C \<le> n" and "n' \<le> N"
  shows "provider_call env iss C r \<lparr>cl_entry = e', cl_tick = K, cl_net = N\<rparr>"
  unfolding provider_call_def
  by (intro exI [of _ ks] exI [of _ c] exI [of _ "alone iss (cl_entry C) n"]
      exI [of _ "(alone iss e' n)\<lparr>vs_tick := length ks, vs_net := n'\<rparr>"])
    (use assms in simp)

lemma atomic_call_provider:
  assumes "atomic_call env iss C r C'"
  shows "provider_call env iss C r C'"
  using assms
proof cases
  case (ac_fresh p k K N)
  let ?E = "replay env [k] False" and ?s = "alone iss (cl_entry C) (cl_net C)"
  have "fresh_at ?E (cl_entry C) 0" using ac_fresh(6) at_replay(1) [of env "[]" k "[]"] by simp
  then have "cache_fresh ?E (cl_entry C) ?s = (True, ?s\<lparr>vs_tick := 1\<rparr>)"
    using ac_fresh(3) by (simp add: cache_fresh_true)
  then have "provider ?E iss ?s = (Inr p, ?s\<lparr>vs_tick := length [k], vs_net := cl_net C\<rparr>)"
    using ac_fresh(3) by (simp add: provider_def)
  moreover have "moments (cl_tick C) K [k]" using ac_fresh(4,5) by (simp add: moments_def)
  ultimately show ?thesis using provider_callI ac_fresh(1,2,7) by blast
next
  case (ac_wait J err k K N)
  obtain ks where ks: "moments (cl_tick C) J ks" and
    fresh: "\<And>s ls c. vs_tick s = 0 \<Longrightarrow>
      cache_fresh (replay env (ks @ ls) c) (cl_entry C) s = (False, s\<lparr>vs_tick := length ks\<rparr>)"
    using ac_wait(3) by (rule expired_replay) blast
  let ?E = "replay env (ks @ [k]) False" and ?s = "alone iss (cl_entry C) (cl_net C)"
  have "backing_off ?E (cl_entry C) (?s\<lparr>vs_tick := length ks\<rparr>) = (True, ?s\<lparr>vs_tick := length ks + 1\<rparr>)"
    using ac_wait(4,7) by (simp add: backing_off_true at_replay)
  then have "provider ?E iss ?s = (r, ?s\<lparr>vs_tick := length (ks @ [k]), vs_net := cl_net C\<rparr>)"
    using ac_wait(1,4) fresh [of ?s "[k]" False]
    by (simp add: provider_def answer_def split: option.split)
  moreover have "cl_tick C \<le> J" using ac_wait(3) by (simp add: expired_def)
  with ks ac_wait(5,6) have "moments (cl_tick C) K (ks @ [k])" by (intro moments_snoc)
  ultimately show ?thesis using provider_callI ac_wait(2,8) by blast
next
  case (ac_cancelled K N err)
  obtain ks where ks: "moments (cl_tick C) K ks" and
    run: "\<And>s ls c. vs_tick s = 0 \<Longrightarrow> \<exists>s1. cache_fresh (replay env (ks @ ls) c) (cl_entry C) s = (False, s1)
      \<and> backing_off (replay env (ks @ ls) c) (cl_entry C) s1 = (False, s\<lparr>vs_tick := length ks\<rparr>)"
    using ac_cancelled(3) by (rule may_retry_replay) blast
  obtain n n' where n: "cl_net C \<le> n" "n' \<le> N" and d:
    "\<And>ks c k. discoverProvider (replay env ks c) iss ((alone iss (cl_entry C) n)\<lparr>vs_tick := k\<rparr>)
      = (Inl err, (alone iss (cl_entry C) n)\<lparr>vs_tick := k, vs_net := n'\<rparr>)"
    using ac_cancelled(4) by (rule discovered_replay) blast
  let ?E = "replay env ks True" and ?s = "alone iss (cl_entry C) n"
  have cancelled: "env_ctx_err ?E n'" by (simp add: replay_def)
  have "provider ?E iss ?s = refresh ?E iss (cl_entry C) (?s\<lparr>vs_tick := length ks\<rparr>)"
    using run [of ?s "[]" True] by (intro provider_refreshes) simp
  also have "\<dots> = (r, ?s\<lparr>vs_tick := length ks, vs_net := n'\<rparr>)"
    using ac_cancelled(1) cancelled by (simp add: refresh_def d answer_def split: option.split)
  finally show ?thesis using provider_callI ks n ac_cancelled(2) by blast
next
  case (ac_failed K t N err)
  from ac_failed(3) obtain J k where J: "may_retry env C J" "J \<le> k" "k < K" "t = env_clock env k"
    unfolding stamped_def by blast
  from J(1) obtain ks where ks: "moments (cl_tick C) J ks" and
    run: "\<And>s ls c. vs_tick s = 0 \<Longrightarrow> \<exists>s1. cache_fresh (replay env (ks @ ls) c) (cl_entry C) s = (False, s1)
      \<and> backing_off (replay env (ks @ ls) c) (cl_entry C) s1 = (False, s\<lparr>vs_tick := length ks\<rparr>)"
    by (rule may_retry_replay) blast
  obtain n n' where n: "cl_net C \<le> n" "n' \<le> N" and d:
    "\<And>ks c k. discoverProvider (replay env ks c) iss ((alone iss (cl_entry C) n)\<lparr>vs_tick := k\<rparr>)
      = (Inl err, (alone iss (cl_entry C) n)\<lparr>vs_tick := k, vs_net := n'\<rparr>)"
    using ac_failed(4) by (rule discovered_replay) blast
  let ?E = "replay env (ks @ [k]) False" and ?s = "alone iss (cl_entry C) n"
  let ?e = "(cl_entry C)\<lparr>ent_err := Some err, ent_failedAt := t\<rparr>"
  have "\<not> env_ctx_err ?E n'" "env_clock ?E (length ks) = t" using J(4) by (simp_all add: replay_def)
  moreover have "provider ?E iss ?s = refresh ?E iss (cl_entry C) (?s\<lparr>vs_tick := length ks\<rparr>)"
    using run [of ?s "[k]" False] by (intro provider_refreshes) simp
  ultimately have "provider ?E iss ?s = (r, (alone iss ?e n)\<lparr>vs_tick := length (ks @ [k]), vs_net := n'\<rparr>)"
    using ac_failed(1) by (simp add: refresh_def d answer_def Let_def read_clock_def split: option.split)
  moreover have "moments (cl_tick C) K (ks @ [k])" using ks may_retry_from [OF J(1)] J(2,3) by (intro moments_snoc)
  ultimately show ?thesis using provider_callI n ac_failed(2) by blast
next
  case (ac_fetched K t N p)
  from ac_fetched(3) obtain J k where J: "may_retry env C J" "J \<le> k" "k < K" "t = env_clock env k"
    unfolding stamped_def by blast
  from J(1) obtain ks where ks: "moments (cl_tick C) J ks" and
    run: "\<And>s ls c. vs_tick s = 0 \<Longrightarrow> \<exists>s1. cache_fresh (replay env (ks @ ls) c) (cl_entry C) s = (False, s1)
      \<and> backing_off (replay env (ks @ ls) c) (cl_entry C) s1 = (False, s\<lparr>vs_tick := length ks\<rparr>)"
    by (rule may_retry_replay) blast
  obtain n n' where n: "cl_net C \<le> n" "n' \<le> N" and d:
    "\<And>ks c k. discoverProvider (replay env ks c) iss ((alone iss (cl_entry C) n)\<lparr>vs_tick := k\<rparr>)
      = (Inr p, (alone iss (cl_entry C) n)\<lparr>vs_tick := k, vs_net := n'\<rparr>)"
    using ac_fetched(4) by (rule discovered_replay) blast
  let ?E = "replay env (ks @ [k]) False" and ?s = "alone iss (cl_entry C) n"
  let ?e = "(cl_entry C)\<lparr>ent_provider := Some p, ent_fetchedAt := t, ent_err := None\<rparr>"
  have "env_clock ?E (length ks) = t" using J(4) by (simp add: replay_def)
  moreover have "provider ?E iss ?s = refresh ?E iss (cl_entry C) (?s\<lparr>vs_tick := length ks\<rparr>)"
    using run [of ?s "[k]" False] by (intro provider_refreshes) simp
  ultimately have "provider ?E iss ?s = (Inr p, (alone iss ?e n)\<lparr>vs_tick := length (ks @ [k]), vs_net := n'\<rparr>)"
    by (simp add: refresh_def d Let_def read_clock_def)
  moreover have "moments (cl_tick C) K (ks @ [k])" using ks may_retry_from [OF J(1)] J(2,3) by (intro moments_snoc)
  ultimately show ?thesis using provider_callI n ac_fetched(1,2) by blast
qed

lemma atomic_calls_provider: "atomic_calls env hs A \<Longrightarrow> provider_calls env hs A"
  by (induction rule: atomic_calls.induct) (intro pc_none, intro pc_more atomic_call_provider)

section \<open>The calls with locks\<close>

text \<open>What holds of the entry at each program point under its lock, \<open>C\<close> being the cell as it
  was when the lock was taken.\<close>

fun section_ok ::
  "'p oidc_env \<Rightarrow> string \<Rightarrow> 'p cell \<Rightarrow> nat \<Rightarrow> nat \<Rightarrow> 'p pc \<Rightarrow> 'p providerEntry \<Rightarrow> bool" where
  "section_ok env iss C K N (Fresh a) e \<longleftrightarrow> e = cl_entry C"
| "section_ok env iss C K N (Backoff a) e \<longleftrightarrow> e = cl_entry C \<and> expired env C K"
| "section_ok env iss C K N (Discover a) e \<longleftrightarrow> e = cl_entry C \<and> may_retry env C K"
| "section_ok env iss C K N (Failed a x) e \<longleftrightarrow> e = cl_entry C \<and> may_retry env C K
     \<and> discovered env iss C N (Inl x)"
| "section_ok env iss C K N (MarkFailed a x) e \<longleftrightarrow> e = (cl_entry C)\<lparr>ent_err := Some x\<rparr>
     \<and> may_retry env C K \<and> discovered env iss C N (Inl x)"
| "section_ok env iss C K N (Stale a x) e \<longleftrightarrow> discovered env iss C N (Inl x)
     \<and> (e = cl_entry C \<and> may_retry env C K
        \<or> (\<exists>t. stamped env C K t \<and> e = (cl_entry C)\<lparr>ent_err := Some x, ent_failedAt := t\<rparr>))"
| "section_ok env iss C K N (Store a p) e \<longleftrightarrow> e = cl_entry C \<and> may_retry env C K
     \<and> discovered env iss C N (Inr p)"
| "section_ok env iss C K N (MarkFetched a p) e \<longleftrightarrow> e = (cl_entry C)\<lparr>ent_provider := Some p\<rparr>
     \<and> may_retry env C K \<and> discovered env iss C N (Inr p)"
| "section_ok env iss C K N (ClearErr a p) e \<longleftrightarrow> discovered env iss C N (Inr p)
     \<and> (\<exists>t. stamped env C K t \<and> e = (cl_entry C)\<lparr>ent_provider := Some p, ent_fetchedAt := t\<rparr>)"
| "section_ok env iss C K N (Unlock a r) e \<longleftrightarrow>
     atomic_call env iss C r \<lparr>cl_entry = e, cl_tick = K, cl_net = N\<rparr>"
| "section_ok env iss C K N pc e \<longleftrightarrow> False"

lemma section_ok_inside: "section_ok env iss C K N pc e \<Longrightarrow> inside pc \<noteq> None"
  by (cases pc) simp_all

lemma section_ok_mono:
  "section_ok env iss C K N pc e \<Longrightarrow> K \<le> K' \<Longrightarrow> N \<le> N' \<Longrightarrow> section_ok env iss C K' N' pc e"
  by (cases pc) (auto intro: window_mono atomic_call_widen)

lemma section_step:
  assumes "section_ok env iss C (vs_tick s) (vs_net s) pc e" and "working pc"
    and "entry_step env c iss pc e s = (pc', e', s')"
    and "cl_tick C \<le> vs_tick s" and "cl_net C \<le> vs_net s"
  shows "section_ok env iss C (vs_tick s') (vs_net s') pc' e'"
proof (cases pc)
  case (Fresh a)
  obtain b s1 where c: "cache_fresh env e s = (b, s1)" by (cases "cache_fresh env e s")
  show ?thesis
  proof (cases b)
    case True
    with c obtain p where "ent_provider e = Some p" "fresh_at env e (vs_tick s)"
      "s1 = s\<lparr>vs_tick := vs_tick s + 1\<rparr>" by (auto simp: condition_iff)
    with ac_fresh [of C p "vs_tick s" "vs_tick s + 1" env "vs_net s" iss] assms c True Fresh show ?thesis
      by auto
  next
    case False
    have "expired env C (vs_tick s1)"
      using assms c False Fresh by (auto simp: condition_iff expired_def split: if_splits)
    with assms c Fresh False show ?thesis by auto
  qed
next
  case (Backoff a)
  obtain w s1 where d: "backing_off env e s = (w, s1)" by (cases "backing_off env e s")
  have e: "e = cl_entry C" "expired env C (vs_tick s)" using assms(1) Backoff by simp_all
  show ?thesis
  proof (cases w)
    case True
    with d obtain err where "ent_err e = Some err" "waiting_at env e (vs_tick s)"
      "s1 = s\<lparr>vs_tick := vs_tick s + 1\<rparr>" by (auto simp: condition_iff)
    then show ?thesis
      using ac_wait [OF e(2), of err "vs_tick s" "vs_tick s + 1" "vs_net s" iss] assms d True Backoff
      by (auto simp: answer_def split: option.splits)
  next
    case False
    have "may_retry env C (vs_tick s1)"
      using e d False by (auto simp: condition_iff intro: may_retryI split: if_splits)
    with assms d Backoff False show ?thesis by auto
  qed
next
  case (Discover a)
  obtain d s1 where d: "discoverProvider env iss s = (d, s1)" by (cases "discoverProvider env iss s")
  have "discovered env iss C (vs_net s1) d" using d assms(5) unfolding discovered_def by blast
  with assms d discoverProvider_state [OF d] Discover show ?thesis by (cases d) auto
next
  case (MarkFailed a x)
  with assms stampedI [of env C "vs_tick s"] show ?thesis by (fastforce simp: read_clock_def)
next
  case (MarkFetched a p)
  with assms stampedI [of env C "vs_tick s"] show ?thesis by (fastforce simp: read_clock_def)
next
  case (Stale a x)
  define e1 where "e1 = cl_entry C"
  have "answer e x = answer e1 x"
    using assms(1) Stale by (auto simp: answer_def e1_def)
  then have "pc' = Unlock a (answer e1 x)" "e' = e" "s' = s"
    using assms(3) Stale by (auto simp: answer_def)
  with assms(1) Stale show ?thesis by (auto simp: e1_def intro: ac_cancelled ac_failed)
next
  case (ClearErr a p)
  with assms show ?thesis by (auto intro: ac_fetched)
qed (use assms in \<open>auto split: if_splits\<close>)


section \<open>The simulation\<close>

text \<open>A pool against the cells: an entry that no call works on is that of its cell, and one
  that a call works on is what its program point says; the calls that have returned are those
  of the history.\<close>

definition cells_ok :: "'p oidc_env \<Rightarrow> 'p pool \<Rightarrow> (string \<Rightarrow> 'p cell) \<Rightarrow> bool" where
  "cells_ok env \<sigma> A \<longleftrightarrow>
     (\<forall>iss. cl_tick (A iss) \<le> pl_tick \<sigma> \<and> cl_net (A iss) \<le> pl_net \<sigma>
       \<and> (case pl_providers \<sigma> iss of
            None \<Rightarrow> cl_entry (A iss) = empty_entry
          | Some a \<Rightarrow>
              (case pl_owner \<sigma> a of
                 None \<Rightarrow> pl_heap \<sigma> a = cl_entry (A iss)
               | Some t \<Rightarrow> \<exists>pc. pl_calls \<sigma> t = Some (iss, pc)
                   \<and> section_ok env iss (A iss) (pl_tick \<sigma>) (pl_net \<sigma>) pc (pl_heap \<sigma> a))))"

definition results_ok :: "'p pool \<Rightarrow> 'p history \<Rightarrow> bool" where
  "results_ok \<sigma> hs \<longleftrightarrow> distinct (map fst hs)
     \<and> (\<forall>t iss r. pl_calls \<sigma> t = Some (iss, Returned r) \<longleftrightarrow> (t, iss, r) \<in> set hs)"

lemma results_ok_move:
  assumes "results_ok \<sigma> hs" and "pl_calls \<sigma> t = Some (iss, pc)" and "\<forall>r. pc \<noteq> Returned r"
    and "pl_calls \<sigma>' = (pl_calls \<sigma>)(t \<mapsto> (iss, pc'))"
  shows "results_ok \<sigma>' (case pc' of Returned r \<Rightarrow> hs @ [(t, iss, r)] | _ \<Rightarrow> hs)"
proof -
  have "t \<notin> fst ` set hs" using assms(1,2,3) unfolding results_ok_def by force
  with assms show ?thesis unfolding results_ok_def by (cases pc') (force split: if_split_asm)+
qed

text \<open>One call moves without touching entries or locks of entries.\<close>

lemma cells_ok_move:
  assumes "cells_ok env \<sigma> A" and "pl_calls \<sigma> t = Some (iss, pc)" and "inside pc = None"
    and "pl_calls \<sigma>' = (pl_calls \<sigma>)(t \<mapsto> (iss, pc'))"
    and "pl_providers \<sigma>' = pl_providers \<sigma>" "pl_heap \<sigma>' = pl_heap \<sigma>" "pl_owner \<sigma>' = pl_owner \<sigma>"
      "pl_tick \<sigma>' = pl_tick \<sigma>" "pl_net \<sigma>' = pl_net \<sigma>"
  shows "cells_ok env \<sigma>' A"
  unfolding cells_ok_def
proof
  fix i
  have "\<not> section_ok env i C K N pc e" for C K N e
    using section_ok_inside assms(3) by blast
  then show "cl_tick (A i) \<le> pl_tick \<sigma>' \<and> cl_net (A i) \<le> pl_net \<sigma>'
       \<and> (case pl_providers \<sigma>' i of
            None \<Rightarrow> cl_entry (A i) = empty_entry
          | Some a \<Rightarrow>
              (case pl_owner \<sigma>' a of
                 None \<Rightarrow> pl_heap \<sigma>' a = cl_entry (A i)
               | Some t \<Rightarrow> \<exists>pc. pl_calls \<sigma>' t = Some (i, pc)
                   \<and> section_ok env i (A i) (pl_tick \<sigma>') (pl_net \<sigma>') pc (pl_heap \<sigma>' a)))"
    using assms(1) [unfolded cells_ok_def, THEN spec, of i] assms(2,4-)
    by (auto split: option.splits)
qed

lemma cells_ok_at:
  "cells_ok env \<sigma> A \<Longrightarrow> cl_tick (A i) \<le> pl_tick \<sigma> \<and> cl_net (A i) \<le> pl_net \<sigma>
     \<and> (pl_providers \<sigma> i = None \<longrightarrow> cl_entry (A i) = empty_entry)
     \<and> (\<forall>a. pl_providers \<sigma> i = Some a \<longrightarrow> pl_owner \<sigma> a = None \<longrightarrow> pl_heap \<sigma> a = cl_entry (A i))
     \<and> (\<forall>a t pc. pl_providers \<sigma> i = Some a \<longrightarrow> pl_owner \<sigma> a = Some t \<longrightarrow> pl_calls \<sigma> t = Some (i, pc)
          \<longrightarrow> section_ok env i (A i) (pl_tick \<sigma>) (pl_net \<sigma>) pc (pl_heap \<sigma> a))"
  unfolding cells_ok_def by (drule spec [of _ i]) (auto split: option.splits)

lemma cells_okI:
  assumes "\<And>i. cl_tick (A i) \<le> pl_tick \<sigma> \<and> cl_net (A i) \<le> pl_net \<sigma>"
    and "\<And>i. pl_providers \<sigma> i = None \<Longrightarrow> cl_entry (A i) = empty_entry"
    and "\<And>i a. pl_providers \<sigma> i = Some a \<Longrightarrow> pl_owner \<sigma> a = None \<Longrightarrow> pl_heap \<sigma> a = cl_entry (A i)"
    and "\<And>i a t. pl_providers \<sigma> i = Some a \<Longrightarrow> pl_owner \<sigma> a = Some t \<Longrightarrow>
      \<exists>pc. pl_calls \<sigma> t = Some (i, pc) \<and> section_ok env i (A i) (pl_tick \<sigma>) (pl_net \<sigma>) pc (pl_heap \<sigma> a)"
  shows "cells_ok env \<sigma> A"
  using assms by (auto simp: cells_ok_def split: option.splits)

text \<open>In a valid pool the holder of an entry's lock is a call of that issuer.\<close>

lemma owner_call:
  assumes "pool_inv \<sigma>" and "pl_providers \<sigma> i = Some a" and "pl_owner \<sigma> a = Some t"
  shows "\<exists>pc. pl_calls \<sigma> t = Some (i, pc) \<and> inside pc = Some a"
proof -
  obtain j pc where j: "pl_calls \<sigma> t = Some (j, pc)" "inside pc = Some a"
    using assms(1,3) unfolding pool_inv_def owner_ok_def by blast
  then have "pl_providers \<sigma> j = Some a"
    using assms(1) inside_address [OF j(2)] unfolding pool_inv_def address_ok_def by blast
  then have "j = i" using assms(1,2) unfolding pool_inv_def map_ok_def by blast
  with j show ?thesis by blast
qed

lemma inside_owner:
  assumes "pool_inv \<sigma>" and "pl_calls \<sigma> t = Some (i, pc)" and "inside pc = Some a"
  shows "pl_providers \<sigma> i = Some a \<and> pl_owner \<sigma> a = Some t"
  using assms inside_address [OF assms(3)]
  unfolding pool_inv_def address_ok_def owner_ok_def by blast

lemma unshared:
  assumes "pool_inv \<sigma>" and "pl_providers \<sigma> i = Some a" and "pl_providers \<sigma> j = Some a"
  shows "i = j"
  using assms unfolding pool_inv_def map_ok_def by blast

text \<open>A step outside discovery and unlocking.\<close>

lemma work_cells:
  assumes "pool_inv \<sigma>" and "cells_ok env \<sigma> A" and t: "pl_calls \<sigma> t = Some (iss, pc)"
    and w: "working pc" "inside pc = Some a"
    and e: "entry_step env c iss pc (pl_heap \<sigma> a) (counters \<sigma>) = (pc', e', s')"
    and s: "\<sigma>' = \<sigma>\<lparr>pl_heap := (pl_heap \<sigma>)(a := e'), pl_tick := vs_tick s', pl_net := vs_net s',
      pl_calls := (pl_calls \<sigma>)(t \<mapsto> (iss, pc'))\<rparr>"
  shows "cells_ok env \<sigma>' A"
proof -
  note here = inside_owner [OF assms(1) t w(2)]
  note grow = entry_step_frame [OF e w(2)]
  have step: "section_ok env iss (A iss) (vs_tick s') (vs_net s') pc' e'"
    using section_step [OF _ w(1) e, of "A iss"] cells_ok_at [OF assms(2), of iss] here t by auto
  show ?thesis
  proof (rule cells_okI)
    fix i b u
    assume i: "pl_providers \<sigma>' i = Some b" and u: "pl_owner \<sigma>' b = Some u"
    show "\<exists>pc. pl_calls \<sigma>' u = Some (i, pc)
      \<and> section_ok env i (A i) (pl_tick \<sigma>') (pl_net \<sigma>') pc (pl_heap \<sigma>' b)"
    proof (cases "b = a")
      case True
      with i unshared [OF assms(1), of i a iss] here s u step show ?thesis by simp
    next
      case False
      from i u s owner_call [OF assms(1), of i b u] obtain q
        where q: "pl_calls \<sigma> u = Some (i, q)" "inside q = Some b" by auto
      then have "u \<noteq> t" using False t w(2) by auto
      moreover have "section_ok env i (A i) (pl_tick \<sigma>) (pl_net \<sigma>) q (pl_heap \<sigma> b)"
        using cells_ok_at [OF assms(2), of i] i u s q by simp
      ultimately show ?thesis using q s False grow
        by (auto intro!: section_ok_mono [where K = "pl_tick \<sigma>" and N = "pl_net \<sigma>"])
    qed
  next
    fix i b
    assume "pl_providers \<sigma>' i = Some b" "pl_owner \<sigma>' b = None"
    then show "pl_heap \<sigma>' b = cl_entry (A i)"
      using cells_ok_at [OF assms(2), of i] here s by auto
  qed (use cells_ok_at [OF assms(2)] s grow in \<open>auto intro: order_trans\<close>)
qed

text \<open>Inserting an entry: it is empty, and no call works on it yet.\<close>

lemma insert_cells:
  assumes "pool_inv \<sigma>" and "cells_ok env \<sigma> A" and t: "pl_calls \<sigma> t = Some (iss, Insert)"
    and s: "\<sigma>' = \<sigma>\<lparr>pl_next := pl_next \<sigma> + 1, pl_heap := (pl_heap \<sigma>)(pl_next \<sigma> := empty_entry),
      pl_providers := (pl_providers \<sigma>)(iss \<mapsto> pl_next \<sigma>), pl_calls := (pl_calls \<sigma>)(t \<mapsto> (iss, pc'))\<rparr>"
  shows "cells_ok env \<sigma>' A"
proof -
  have new: "pl_providers \<sigma> iss = None"
    using assms(1) t unfolding pool_inv_def insert_ok_def by blast
  have bound: "b < pl_next \<sigma>" if "pl_providers \<sigma> i = Some b" for i b
    using assms(1) that unfolding pool_inv_def map_ok_def by blast
  have free: "pl_owner \<sigma> (pl_next \<sigma>) = None"
  proof (rule ccontr)
    assume "pl_owner \<sigma> (pl_next \<sigma>) \<noteq> None"
    then obtain u i q where u: "pl_calls \<sigma> u = Some (i, q)" "inside q = Some (pl_next \<sigma>)"
      using assms(1) unfolding pool_inv_def owner_ok_def by blast
    from inside_owner [OF assms(1) u] bound show False by blast
  qed
  show ?thesis
  proof (rule cells_okI)
    fix i b
    assume "pl_providers \<sigma>' i = Some b" "pl_owner \<sigma>' b = None"
    then show "pl_heap \<sigma>' b = cl_entry (A i)"
      using cells_ok_at [OF assms(2), of i] new bound [of i b] s by (auto split: if_split_asm)
  next
    fix i b u
    assume i: "pl_providers \<sigma>' i = Some b" and u: "pl_owner \<sigma>' b = Some u"
    then have "b \<noteq> pl_next \<sigma>" using free s by auto
    with i s have "pl_providers \<sigma> i = Some b" by (auto split: if_split_asm)
    with u s owner_call [OF assms(1), of i b u] obtain q
      where q: "pl_calls \<sigma> u = Some (i, q)" "inside q = Some b" by auto
    then have "u \<noteq> t" using t by auto
    with q cells_ok_at [OF assms(2), of i] \<open>b \<noteq> pl_next \<sigma>\<close> \<open>pl_providers \<sigma> i = Some b\<close> u s
    show "\<exists>pc. pl_calls \<sigma>' u = Some (i, pc)
      \<and> section_ok env i (A i) (pl_tick \<sigma>') (pl_net \<sigma>') pc (pl_heap \<sigma>' b)"
      by simp
  qed (use cells_ok_at [OF assms(2)] s in \<open>auto split: if_split_asm\<close>)
qed

lemma lock_cells:
  assumes "pool_inv \<sigma>" and "cells_ok env \<sigma> A" and t: "pl_calls \<sigma> t = Some (iss, LockEntry a)"
    and free: "pl_owner \<sigma> a = None"
    and s: "\<sigma>' = \<sigma>\<lparr>pl_owner := (pl_owner \<sigma>)(a \<mapsto> t), pl_calls := (pl_calls \<sigma>)(t \<mapsto> (iss, Fresh a))\<rparr>"
  shows "cells_ok env \<sigma>' A"
proof -
  have a: "pl_providers \<sigma> iss = Some a"
    using assms(1) t unfolding pool_inv_def address_ok_def by fastforce
  show ?thesis
  proof (rule cells_okI)
    fix i b u
    assume i: "pl_providers \<sigma>' i = Some b" and u: "pl_owner \<sigma>' b = Some u"
    show "\<exists>pc. pl_calls \<sigma>' u = Some (i, pc)
      \<and> section_ok env i (A i) (pl_tick \<sigma>') (pl_net \<sigma>') pc (pl_heap \<sigma>' b)"
    proof (cases "b = a")
      case True
      with i s a unshared [OF assms(1), of i a iss] have "i = iss" by simp
      with True u s a free cells_ok_at [OF assms(2), of iss] show ?thesis by simp
    next
      case False
      with i u s owner_call [OF assms(1), of i b u] obtain q
        where q: "pl_calls \<sigma> u = Some (i, q)" "inside q = Some b" by auto
      then have "u \<noteq> t" using t by auto
      with q cells_ok_at [OF assms(2), of i] False i u s show ?thesis by simp
    qed
  qed (use cells_ok_at [OF assms(2)] s in \<open>auto split: if_split_asm\<close>)
qed

text \<open>Unlocking is where a call takes effect on its cell.\<close>

lemma unlock_cells:
  assumes "pool_inv \<sigma>" and "cells_ok env \<sigma> A" and t: "pl_calls \<sigma> t = Some (iss, Unlock a r)"
    and s: "\<sigma>' = \<sigma>\<lparr>pl_owner := (pl_owner \<sigma>)(a := None), pl_calls := (pl_calls \<sigma>)(t \<mapsto> (iss, Returned r))\<rparr>"
  defines "C \<equiv> \<lparr>cl_entry = pl_heap \<sigma> a, cl_tick = pl_tick \<sigma>, cl_net = pl_net \<sigma>\<rparr>"
  shows "atomic_call env iss (A iss) r C" and "cells_ok env \<sigma>' (A(iss := C))"
proof -
  have here: "pl_providers \<sigma> iss = Some a" "pl_owner \<sigma> a = Some t"
    using inside_owner [OF assms(1) t, of a] by simp_all
  with cells_ok_at [OF assms(2), of iss] t show "atomic_call env iss (A iss) r C"
    by (force simp: C_def)
  show "cells_ok env \<sigma>' (A(iss := C))"
  proof (rule cells_okI)
    fix i b u
    assume i: "pl_providers \<sigma>' i = Some b" and u: "pl_owner \<sigma>' b = Some u"
    then have "b \<noteq> a" using s by auto
    with i s here have "i \<noteq> iss" by auto
    from i u s \<open>b \<noteq> a\<close> owner_call [OF assms(1), of i b u] obtain q
      where q: "pl_calls \<sigma> u = Some (i, q)" "inside q = Some b" by auto
    then have "u \<noteq> t" using \<open>b \<noteq> a\<close> t by auto
    with q cells_ok_at [OF assms(2), of i] \<open>b \<noteq> a\<close> \<open>i \<noteq> iss\<close> i u s
    show "\<exists>pc. pl_calls \<sigma>' u = Some (i, pc)
      \<and> section_ok env i ((A(iss := C)) i) (pl_tick \<sigma>') (pl_net \<sigma>') pc (pl_heap \<sigma>' b)"
      by simp
  next
    fix i b
    assume i: "pl_providers \<sigma>' i = Some b" "pl_owner \<sigma>' b = None"
    show "pl_heap \<sigma>' b = cl_entry ((A(iss := C)) i)"
    proof (cases "i = iss")
      case True
      with i here s show ?thesis by (simp add: C_def)
    next
      case False
      with i s here unshared [OF assms(1), of i b iss] have "b \<noteq> a" by auto
      with i False s cells_ok_at [OF assms(2), of i] show ?thesis by simp
    qed
  qed (use cells_ok_at [OF assms(2)] here s in \<open>auto simp: C_def\<close>)
qed

text \<open>Windows only grow when others read the clock or use the network.\<close>

lemma outside_cells:
  assumes "cells_ok env \<sigma> A" and "pl_tick \<sigma> \<le> k" and "pl_net \<sigma> \<le> n" and "pool_inv \<sigma>"
  shows "cells_ok env (\<sigma>\<lparr>pl_tick := k, pl_net := n\<rparr>) A"
proof (rule cells_okI)
  fix i
  show "cl_tick (A i) \<le> pl_tick (\<sigma>\<lparr>pl_tick := k, pl_net := n\<rparr>)
      \<and> cl_net (A i) \<le> pl_net (\<sigma>\<lparr>pl_tick := k, pl_net := n\<rparr>)"
    using cells_ok_at [OF assms(1), of i] assms(2,3) by simp
next
  fix i a t
  assume "pl_providers (\<sigma>\<lparr>pl_tick := k, pl_net := n\<rparr>) i = Some a"
    and "pl_owner (\<sigma>\<lparr>pl_tick := k, pl_net := n\<rparr>) a = Some t"
  then have at: "pl_providers \<sigma> i = Some a" "pl_owner \<sigma> a = Some t" by simp_all
  obtain pc where pc: "pl_calls \<sigma> t = Some (i, pc)" using owner_call [OF assms(4) at] by blast
  then have "section_ok env i (A i) (pl_tick \<sigma>) (pl_net \<sigma>) pc (pl_heap \<sigma> a)"
    using cells_ok_at [OF assms(1), of i] at by blast
  from section_ok_mono [OF this assms(2,3)] pc
  show "\<exists>pc. pl_calls (\<sigma>\<lparr>pl_tick := k, pl_net := n\<rparr>) t = Some (i, pc)
      \<and> section_ok env i (A i) (pl_tick (\<sigma>\<lparr>pl_tick := k, pl_net := n\<rparr>))
          (pl_net (\<sigma>\<lparr>pl_tick := k, pl_net := n\<rparr>)) pc (pl_heap (\<sigma>\<lparr>pl_tick := k, pl_net := n\<rparr>) a)"
    by simp
qed (use cells_ok_at [OF assms(1)] in simp_all)

lemma moved_refines:
  assumes "moved env c t iss pc pc' \<sigma> \<sigma>'" and "pool_inv \<sigma>" and "atomic_calls env hs A"
    and "cells_ok env \<sigma> A" and "results_ok \<sigma> hs"
  shows "(\<forall>a r. pc \<noteq> Unlock a r) \<Longrightarrow> results_ok \<sigma>' hs \<and> cells_ok env \<sigma>' A"
    and "pc = Unlock a r \<Longrightarrow> results_ok \<sigma>' (hs @ [(t, iss, r)])
      \<and> (\<exists>A'. atomic_calls env (hs @ [(t, iss, r)]) A' \<and> cells_ok env \<sigma>' A')"
proof -
  obtain \<sigma>1 where t: "pl_calls \<sigma> t = Some (iss, pc)" and step: "turn env c t iss pc \<sigma> = Some (pc', \<sigma>1)"
    and s: "\<sigma>' = \<sigma>1\<lparr>pl_calls := (pl_calls \<sigma>)(t \<mapsto> (iss, pc'))\<rparr>"
    using assms(1) unfolding moved_def by blast
  have "pl_calls \<sigma>' = (pl_calls \<sigma>)(t \<mapsto> (iss, pc'))" "\<forall>r. pc \<noteq> Returned r"
    using s step by auto
  note results = results_ok_move [OF assms(5) t this(2,1)]
  show "results_ok \<sigma>' (hs @ [(t, iss, r)])
      \<and> (\<exists>A'. atomic_calls env (hs @ [(t, iss, r)]) A' \<and> cells_ok env \<sigma>' A')" if "pc = Unlock a r"
  proof -
    have u: "pc' = Returned r" "\<sigma>1 = \<sigma>\<lparr>pl_owner := (pl_owner \<sigma>)(a := None)\<rparr>" using step that by auto
    with unlock_cells [OF assms(2,4) t [unfolded that], of \<sigma>'] s one_more [OF assms(3), of iss r _ t] results
    show ?thesis by auto
  qed
  show "results_ok \<sigma>' hs \<and> cells_ok env \<sigma>' A" if "\<forall>a r. pc \<noteq> Unlock a r"
  proof -
    have silent: ?thesis if "cells_ok env \<sigma>' A" "\<forall>r. pc' \<noteq> Returned r"
      using that results by (cases pc') auto
    note unmoved = cells_ok_move [OF assms(4) t, of \<sigma>' pc']
    from step show ?thesis
    proof (cases rule: turn_cases)
      case (unlock a r)
      with that show ?thesis by blast
    next
      case insert
      show ?thesis
        by (rule silent) (use insert_cells [OF assms(2,4) t [unfolded insert(1)], of \<sigma>' pc'] insert s in auto)
    next
      case (lock_entry a)
      show ?thesis
        by (rule silent) (use lock_cells [OF assms(2,4) t [unfolded lock_entry(1)], of \<sigma>'] lock_entry s in auto)
    next
      case (work a e' s')
      have "\<forall>r. pc' \<noteq> Returned r" using entry_step_frame [OF work(3,2)] by auto
      then show ?thesis
        by (intro silent) (use work_cells [OF assms(2,4) t work(1-3), of \<sigma>'] work s in auto)
    next
      case lock_map
      show ?thesis by (rule silent [OF unmoved]) (use lock_map s in simp_all)
    next
      case lookup
      show ?thesis
        by (rule silent [OF unmoved]) (use lookup s in \<open>simp_all split: option.split\<close>)
    next
      case (unlock_map a)
      show ?thesis by (rule silent [OF unmoved]) (use unlock_map s in simp_all)
    qed
  qed
qed

lemma quiet_step_refines:
  assumes "pool_step env \<sigma> ev \<sigma>'" and quiet: "\<And>t iss a r. ev = Move t \<Longrightarrow> pl_calls \<sigma> t \<noteq> Some (iss, Unlock a r)"
    and inv: "pool_inv \<sigma>" and h: "atomic_calls env hs A" "cells_ok env \<sigma> A" "results_ok \<sigma> hs"
  shows "results_ok \<sigma>' hs \<and> cells_ok env \<sigma>' A"
  using assms(1)
proof (cases rule: pool_step_cases)
  case (call t iss)
  have "cells_ok env \<sigma>' A"
    by (rule cells_okI)
      (use call cells_ok_at [OF h(2)] owner_call [of \<sigma>] inv in \<open>fastforce+\<close>)
  moreover have "(t, i, r) \<notin> set hs" for i r
    using h(3) call(2) unfolding results_ok_def by (metis option.distinct(1))
  with h(3) call have "results_ok \<sigma>' hs" unfolding results_ok_def by auto
  ultimately show ?thesis by blast
next
  case (move t iss pc pc' c)
  have "pl_calls \<sigma> t = Some (iss, pc)" using move(2) unfolding moved_def by blast
  then have "\<forall>a r. pc \<noteq> Unlock a r" using quiet [OF move(1)] by blast
  then show ?thesis by (rule moved_refines(1) [OF move(2) inv h])
next
  case (outside k n)
  with outside_cells [OF h(2)] inv have "cells_ok env \<sigma>' A" by simp
  with h(3) outside show ?thesis unfolding results_ok_def by auto
qed

lemma released_refines:
  "released env evs hs \<sigma> \<Longrightarrow>
     steps (pool_step env) pool_init evs \<sigma> \<and> pool_inv \<sigma> \<and> results_ok \<sigma> hs
     \<and> (\<exists>A. atomic_calls env hs A \<and> cells_ok env \<sigma> A)"
proof (induction rule: released.induct)
  case rl_start
  have "cells_ok env pool_init (\<lambda>_. empty_cell)" "results_ok pool_init []"
    by (simp_all add: cells_ok_def results_ok_def pool_init_def empty_cell_def)
  then show ?case using none_yet pool_init_inv by (auto intro: steps_none)
next
  case (rl_quiet evs hs \<sigma> ev \<sigma>')
  have inv: "pool_inv \<sigma>" and res: "results_ok \<sigma> hs" using rl_quiet.IH by blast+
  from rl_quiet.IH obtain A where A: "atomic_calls env hs A" "cells_ok env \<sigma> A" by blast
  have "results_ok \<sigma>' hs \<and> cells_ok env \<sigma>' A"
    by (rule quiet_step_refines [OF rl_quiet.hyps(2) _ inv A res]) (rule rl_quiet.hyps(3))
  moreover have "pool_inv \<sigma>'" using pool_step_inv [OF rl_quiet.hyps(2) inv] .
  moreover have "steps (pool_step env) pool_init (evs @ [ev]) \<sigma>'"
    using rl_quiet.IH rl_quiet.hyps(2) unfolding steps_append steps_Cons_iff steps_Nil_iff by blast
  ultimately show ?case using A by blast
next
  case (rl_release evs hs \<sigma> t \<sigma>' iss a r)
  have inv: "pool_inv \<sigma>" and res: "results_ok \<sigma> hs" using rl_release.IH by blast+
  from rl_release.IH obtain A where A: "atomic_calls env hs A" "cells_ok env \<sigma> A" by blast
  from rl_release.hyps(2) obtain c pc' where m: "moved env c t iss (Unlock a r) pc' \<sigma> \<sigma>'"
    using rl_release.hyps(3) by (cases rule: pool_step_cases) (auto simp: moved_def)
  moreover have "pool_inv \<sigma>'" using pool_step_inv [OF rl_release.hyps(2) inv] .
  moreover have "steps (pool_step env) pool_init (evs @ [Move t]) \<sigma>'"
    using rl_release.IH rl_release.hyps(2) unfolding steps_append steps_Cons_iff steps_Nil_iff by blast
  ultimately show ?case using moved_refines(2) [OF m inv A res refl] by blast
qed

text \<open>Every run has its history, and what has returned at some moment of it comes first.\<close>

lemma steps_released:
  "steps (pool_step env) pool_init evs \<sigma> \<Longrightarrow> \<exists>hs. released env evs hs \<sigma>"
proof (induction evs arbitrary: \<sigma> rule: rev_induct)
  case Nil
  then show ?case using rl_start by auto
next
  case (snoc ev evs)
  then obtain \<sigma>1 where "steps (pool_step env) pool_init evs \<sigma>1" and step: "pool_step env \<sigma>1 ev \<sigma>"
    unfolding steps_append steps_Cons_iff steps_Nil_iff by blast
  with snoc.IH obtain hs where hs: "released env evs hs \<sigma>1" by blast
  show ?case
  proof (cases "\<exists>t iss a r. ev = Move t \<and> pl_calls \<sigma>1 t = Some (iss, Unlock a r)")
    case True
    with rl_release [OF hs] step show ?thesis by blast
  next
    case False
    with rl_quiet [OF hs step] show ?thesis by blast
  qed
qed

lemma released_prefix:
  "released env evs hs \<sigma> \<Longrightarrow> evs = evs1 @ evs2 \<Longrightarrow>
     \<exists>hs1 hs2 \<sigma>1. hs = hs1 @ hs2 \<and> released env evs1 hs1 \<sigma>1 \<and> steps (pool_step env) \<sigma>1 evs2 \<sigma>"
proof (induction arbitrary: evs2 rule: released.induct)
  case rl_start
  then show ?case using released.rl_start by auto
next
  case (rl_quiet evs hs \<sigma> ev \<sigma>')
  show ?case
  proof (cases evs2 rule: rev_cases)
    case Nil
    have "released env evs1 hs \<sigma>'" using released.rl_quiet [OF rl_quiet.hyps] rl_quiet.prems Nil by simp
    with Nil show ?thesis by (intro exI [of _ hs] exI [of _ "[]"] exI [of _ \<sigma>']) simp
  next
    case (snoc evs3 x)
    with rl_quiet.prems have x: "evs = evs1 @ evs3" "x = ev" by simp_all
    from rl_quiet.IH [OF x(1)] obtain hs1 hs2 \<sigma>1
      where h: "hs = hs1 @ hs2" "released env evs1 hs1 \<sigma>1" "steps (pool_step env) \<sigma>1 evs3 \<sigma>" by blast
    from h(3) rl_quiet.hyps(2) have "steps (pool_step env) \<sigma>1 evs2 \<sigma>'"
      unfolding snoc x(2) steps_append steps_Cons_iff steps_Nil_iff by blast
    with h(1,2) show ?thesis by blast
  qed
next
  case (rl_release evs hs \<sigma> t \<sigma>' iss a r)
  show ?case
  proof (cases evs2 rule: rev_cases)
    case Nil
    have "released env evs1 (hs @ [(t, iss, r)]) \<sigma>'"
      using released.rl_release [OF rl_release.hyps] rl_release.prems Nil by simp
    with Nil show ?thesis by (intro exI [of _ "hs @ [(t, iss, r)]"] exI [of _ "[]"] exI [of _ \<sigma>']) simp
  next
    case (snoc evs3 x)
    with rl_release.prems have x: "evs = evs1 @ evs3" "x = Move t" by simp_all
    from rl_release.IH [OF x(1)] obtain hs1 hs2 \<sigma>1
      where h: "hs = hs1 @ hs2" "released env evs1 hs1 \<sigma>1" "steps (pool_step env) \<sigma>1 evs3 \<sigma>" by blast
    from h(3) rl_release.hyps(2) have "steps (pool_step env) \<sigma>1 evs2 \<sigma>'"
      unfolding snoc x(2) steps_append steps_Cons_iff steps_Nil_iff by blast
    moreover have "hs @ [(t, iss, r)] = hs1 @ (hs2 @ [(t, iss, r)])" using h(1) by simp
    ultimately show ?thesis using h(2) by blast
  qed
qed

lemma pool_refines:
  assumes "steps (pool_step env) pool_init evs \<sigma>"
  shows "\<exists>hs A. atomic_calls env hs A \<and> cells_ok env \<sigma> A \<and> results_ok \<sigma> hs"
  using steps_released [OF assms] released_refines by blast

section \<open>What the history guarantees\<close>

text \<open>The invariant of the sequential cache, for the cells.\<close>

lemma discovered_obtained: "discovered env iss C N (Inr p) \<Longrightarrow> obtained env iss p"
  by (auto simp: discovered_def dest: discoverProvider_obtained)

lemma atomic_call_obtained:
  assumes "atomic_call env iss C r C'" and "\<And>p. ent_provider (cl_entry C) = Some p \<Longrightarrow> obtained env iss p"
  shows "(\<forall>p. ent_provider (cl_entry C') = Some p \<longrightarrow> obtained env iss p)
    \<and> (\<forall>p. r = Inr p \<longrightarrow> obtained env iss p)"
  using assms by cases (auto simp: answer_def dest: discovered_obtained split: option.splits)

lemma atomic_calls_obtained:
  "atomic_calls env hs A \<Longrightarrow>
     (\<forall>i p. ent_provider (cl_entry (A i)) = Some p \<longrightarrow> obtained env i p)
     \<and> (\<forall>t i p. (t, i, Inr p) \<in> set hs \<longrightarrow> obtained env i p)"
proof (induction rule: atomic_calls.induct)
  case none_yet
  show ?case by (simp add: empty_cell_def empty_entry_def)
next
  case (one_more hs A iss r C t)
  with atomic_call_obtained [OF one_more.hyps(2)] show ?case by auto
qed

lemma returned_obtained:
  assumes "steps (pool_step env) pool_init evs \<sigma>" and "pl_calls \<sigma> t = Some (iss, Returned (Inr p))"
  shows "obtained env iss p"
proof -
  obtain hs A where "atomic_calls env hs A" "results_ok \<sigma> hs" using pool_refines [OF assms(1)] by blast
  with atomic_calls_obtained [of env hs A] assms(2) show ?thesis unfolding results_ok_def by blast
qed

text \<open>An error that a call returns is that of a discovery for its issuer, by this call or by
  the one whose failure is waited out.\<close>

definition fetch_failed :: "'p oidc_env \<Rightarrow> string \<Rightarrow> provider_error \<Rightarrow> bool" where
  "fetch_failed env iss err \<longleftrightarrow> (\<exists>s s'. discoverProvider env iss s = (Inl err, s'))"

lemma discovered_failed: "discovered env iss C N (Inl err) \<Longrightarrow> fetch_failed env iss err"
  unfolding discovered_def fetch_failed_def by blast

lemma atomic_call_failed:
  assumes "atomic_call env iss C r C'" and "\<And>e. ent_err (cl_entry C) = Some e \<Longrightarrow> fetch_failed env iss e"
  shows "(\<forall>e. ent_err (cl_entry C') = Some e \<longrightarrow> fetch_failed env iss e)
    \<and> (\<forall>e. r = Inl e \<longrightarrow> fetch_failed env iss e)"
  using assms by cases (auto simp: answer_def dest: discovered_failed split: option.splits)

lemma atomic_calls_failed:
  "atomic_calls env hs A \<Longrightarrow>
     (\<forall>i e. ent_err (cl_entry (A i)) = Some e \<longrightarrow> fetch_failed env i e)
     \<and> (\<forall>t i e. (t, i, Inl e) \<in> set hs \<longrightarrow> fetch_failed env i e)"
proof (induction rule: atomic_calls.induct)
  case none_yet
  show ?case by (simp add: empty_cell_def empty_entry_def)
next
  case (one_more hs A iss r C t)
  with atomic_call_failed [OF one_more.hyps(2)] show ?case by auto
qed

lemma returned_failed:
  assumes "steps (pool_step env) pool_init evs \<sigma>" and "pl_calls \<sigma> t = Some (iss, Returned (Inl e))"
  shows "fetch_failed env iss e"
proof -
  obtain hs A where "atomic_calls env hs A" "results_ok \<sigma> hs" using pool_refines [OF assms(1)] by blast
  with atomic_calls_failed [of env hs A] assms(2) show ?thesis unfolding results_ok_def by blast
qed

end
