(* ===== verification/LockClaims.thy ===== *)
theory LockClaims
  imports TokenClaims ProviderProgress ProviderRefine
begin

text \<open>
  Properties of the provider cache under concurrent calls, with a scheduler that runs given
  steps, by which they are applied to concrete runs.
\<close>

section \<open>Runs by schedule\<close>

fun schedule :: "'p oidc_env \<Rightarrow> pool_event list \<Rightarrow> 'p pool \<Rightarrow> 'p pool option" where
  "schedule env [] \<sigma> = Some \<sigma>"
| "schedule env (Call t iss # evs) \<sigma> =
     (if pl_calls \<sigma> t = None
      then schedule env evs (\<sigma>\<lparr>pl_calls := (pl_calls \<sigma>)(t \<mapsto> (iss, LockMap))\<rparr>) else None)"
| "schedule env (Move t # evs) \<sigma> =
     (case pl_calls \<sigma> t of
        None \<Rightarrow> None
      | Some (iss, pc) \<Rightarrow>
          (case turn env False t iss pc \<sigma> of
             None \<Rightarrow> None
           | Some (pc', \<sigma>1) \<Rightarrow> schedule env evs (\<sigma>1\<lparr>pl_calls := (pl_calls \<sigma>)(t \<mapsto> (iss, pc'))\<rparr>)))"
| "schedule env (Outside k n # evs) \<sigma> =
     (if pl_tick \<sigma> \<le> k \<and> pl_net \<sigma> \<le> n
      then schedule env evs (\<sigma>\<lparr>pl_tick := k, pl_net := n\<rparr>) else None)"

lemma schedule_steps: "schedule env evs \<sigma> = Some \<sigma>' \<Longrightarrow> steps (pool_step env) \<sigma> evs \<sigma>'"
  by (induction env evs \<sigma> rule: schedule.induct)
    (auto split: if_splits option.splits prod.splits intro: steps.intros pool_step.intros)

text \<open>Two calls for different issuers, of which the second one is in discovery, and two for
  the same issuer.\<close>

definition demo_slow :: "string pool option" where
  "demo_slow = schedule demo_oidc (Call 1 ''j'' # replicate 7 (Move 1) @ [Call 0 ''i'']) pool_init"

definition demo_pair :: "string pool option" where
  "demo_pair = schedule demo_oidc
     (Call 0 ''i'' # Call 1 ''i'' # replicate 7 (Move 0) @ replicate 3 (Move 1)) pool_init"

lemma demo_slow_state:
  "\<exists>\<sigma>. demo_slow = Some \<sigma> \<and> pl_calls \<sigma> 1 = Some (''j'', Discover 0) \<and> pl_calls \<sigma> 0 = Some (''i'', LockMap)"
  by (simp add: demo_slow_def pool_init_def numeral_eq_Suc turn_def cache_fresh_def backing_off_def
      empty_entry_def counters_def)

lemma demo_pair_state:
  "\<exists>\<sigma>. demo_pair = Some \<sigma> \<and> pl_calls \<sigma> 0 = Some (''i'', Discover 0) \<and> pl_calls \<sigma> 1 = Some (''i'', LockEntry 0)"
  by (simp add: demo_pair_def pool_init_def numeral_eq_Suc turn_def cache_fresh_def backing_off_def
      empty_entry_def counters_def)

section \<open>Calls act one at a time\<close>

text \<open>C5: Concurrent calls of \<open>provider\<close> are linearisable, in the order in which they release
  the locks of their entries: for every run, with calls coming at any time and their steps
  interleaved in any way, the sequence of the calls that returned, in that order, is a sequence of
  runs of the sequential function, each from the entry that the one before left for its issuer,
  with its result, and with clock readings and network exchanges between those of its
  predecessor and its own release; at every moment of the run the calls that have returned are
  those that come first; and what the sequence leads to is what the entries hold that no
  call is working on.\<close>

theorem provider_calls_linearize:
  assumes "steps (pool_step env) pool_init evs \<sigma>"
  shows "\<exists>hs A. released env evs hs \<sigma> \<and> provider_calls env hs A \<and> distinct (map fst hs)
    \<and> (\<forall>t iss r. pl_calls \<sigma> t = Some (iss, Returned r) \<longleftrightarrow> (t, iss, r) \<in> set hs)
    \<and> (\<forall>evs1 evs2. evs = evs1 @ evs2 \<longrightarrow>
        (\<exists>hs1 hs2 \<sigma>1. hs = hs1 @ hs2 \<and> released env evs1 hs1 \<sigma>1 \<and> steps (pool_step env) \<sigma>1 evs2 \<sigma>
          \<and> (\<forall>t iss r. pl_calls \<sigma>1 t = Some (iss, Returned r) \<longleftrightarrow> (t, iss, r) \<in> set hs1)))
    \<and> (\<forall>iss. case pl_providers \<sigma> iss of None \<Rightarrow> cl_entry (A iss) = empty_entry
        | Some a \<Rightarrow> pl_owner \<sigma> a = None \<longrightarrow> pl_heap \<sigma> a = cl_entry (A iss))"
proof -
  obtain hs where hs: "released env evs hs \<sigma>" using steps_released [OF assms] by blast
  then obtain A where A: "atomic_calls env hs A" "cells_ok env \<sigma> A" and res: "results_ok \<sigma> hs"
    using released_refines by blast
  have "\<exists>hs1 hs2 \<sigma>1. hs = hs1 @ hs2 \<and> released env evs1 hs1 \<sigma>1 \<and> steps (pool_step env) \<sigma>1 evs2 \<sigma>
      \<and> (\<forall>t iss r. pl_calls \<sigma>1 t = Some (iss, Returned r) \<longleftrightarrow> (t, iss, r) \<in> set hs1)"
    if "evs = evs1 @ evs2" for evs1 evs2
    using released_prefix [OF hs that] released_refines unfolding results_ok_def by blast
  moreover have "case pl_providers \<sigma> iss of None \<Rightarrow> cl_entry (A iss) = empty_entry
      | Some a \<Rightarrow> pl_owner \<sigma> a = None \<longrightarrow> pl_heap \<sigma> a = cl_entry (A iss)" for iss
    using cells_ok_at [OF A(2), of iss] by (simp split: option.split)
  ultimately show ?thesis
    using hs atomic_calls_provider [OF A(1)] res unfolding results_ok_def
    by (intro exI [of _ hs] exI [of _ A]) simp
qed

definition demo_clocked :: "string oidc_env" where
  "demo_clocked = demo_oidc\<lparr>env_clock := (\<lambda>n. demo_at 1000)\<rparr>"

lemma demo_clocked_discovery:
  "discoverProvider demo_clocked iss s = (Inr iss, s\<lparr>vs_net := vs_net s + 2\<rparr>)"
  using demo_jwks
  by (simp add: discoverProvider_def use_net_def checkJWKS_def demo_clocked_def demo_oidc_def
      read_limited_def jwksMaxResponseBytes_def)

lemma demo_clocked_fresh: "sint (Sub (demo_at 1000) (demo_at 1000)) < sint jwksTTL"
  by (rule elapsed_less_delays) (simp add: elapsed_less_def demo_at_def ns_per_s_def)

lemma demo_pair_returned:
  "\<exists>\<sigma> evs. steps (pool_step demo_clocked) pool_init evs \<sigma>
     \<and> pl_calls \<sigma> 0 = Some (''i'', Returned (Inr ''i'')) \<and> pl_calls \<sigma> 1 = Some (''i'', Returned (Inr ''i''))"
proof -
  have clock: "env_clock demo_clocked k = demo_at 1000" for k by (simp add: demo_clocked_def)
  have "\<exists>\<sigma>. schedule demo_clocked (Call 0 ''i'' # Call 1 ''i'' # replicate 7 (Move 0) @ replicate 3 (Move 1)
      @ replicate 5 (Move 0) @ replicate 3 (Move 1)) pool_init = Some \<sigma>
    \<and> pl_calls \<sigma> 0 = Some (''i'', Returned (Inr ''i'')) \<and> pl_calls \<sigma> 1 = Some (''i'', Returned (Inr ''i''))"
    using demo_clocked_discovery demo_clocked_fresh clock
    by (simp add: pool_init_def numeral_eq_Suc turn_def cache_fresh_def backing_off_def
        empty_entry_def counters_def read_clock_def)
  then show ?thesis using schedule_steps by blast
qed

lemma provider_calls_linearize_demo:
  "\<exists>hs A. provider_calls demo_clocked hs A \<and> {(0, ''i'', Inr ''i''), (1, ''i'', Inr ''i'')} \<subseteq> set hs"
proof -
  obtain \<sigma> evs where run: "steps (pool_step demo_clocked) pool_init evs \<sigma>"
    and r: "pl_calls \<sigma> 0 = Some (''i'', Returned (Inr ''i''))" "pl_calls \<sigma> 1 = Some (''i'', Returned (Inr ''i''))"
    using demo_pair_returned by blast
  obtain hs A where "provider_calls demo_clocked hs A"
    and "\<forall>t iss r. pl_calls \<sigma> t = Some (iss, Returned r) \<longleftrightarrow> (t, iss, r) \<in> set hs"
    using provider_calls_linearize [OF run] by (elim exE conjE) blast
  with r show ?thesis by blast
qed

text \<open>C23: Whatever the interleaving, a provider that a call returns was given by a discovery
  for the issuer of that call, with a usable address of its keys.\<close>

theorem concurrent_provider_is_discovered:
  assumes "steps (pool_step env) pool_init evs \<sigma>" and "pl_calls \<sigma> t = Some (iss, Returned (Inr p))"
  shows "obtained env iss p"
  by (rule returned_obtained [OF assms])

lemma concurrent_provider_is_discovered_demo: "obtained demo_clocked ''i'' ''i''"
proof -
  obtain \<sigma> evs where run: "steps (pool_step demo_clocked) pool_init evs \<sigma>"
    and r: "pl_calls \<sigma> 1 = Some (''i'', Returned (Inr ''i''))"
    using demo_pair_returned by blast
  show ?thesis by (rule concurrent_provider_is_discovered [OF run r])
qed

section \<open>The locks\<close>

text \<open>C14: Single flight: in every reachable state at most one call for an issuer is at a
  statement between the locking and the unlocking of the issuer's entry, so that at most one
  discovery for an issuer is under way and nobody else touches its entry meanwhile; that call
  holds the lock of the entry that the map has for the issuer, and not the lock of the map.\<close>

theorem single_flight:
  assumes "steps (pool_step env) pool_init evs \<sigma>"
    and "pl_calls \<sigma> t = Some (iss, pc)" and "inside pc = Some a"
  shows "(\<forall>u pc'. pl_calls \<sigma> u = Some (iss, pc') \<and> inside pc' \<noteq> None \<longrightarrow> u = t)
    \<and> (\<forall>u i pc'. pl_calls \<sigma> u = Some (i, pc') \<and> inside pc' = Some a \<longrightarrow> u = t)
    \<and> pl_providers \<sigma> iss = Some a \<and> pl_owner \<sigma> a = Some t \<and> pl_mu \<sigma> \<noteq> Some t"
proof -
  have ok: "pool_inv \<sigma>" by (rule pool_reachable_inv [OF assms(1)])
  have "pl_mu \<sigma> \<noteq> Some t"
  proof
    assume "pl_mu \<sigma> = Some t"
    then obtain i q where "pl_calls \<sigma> t = Some (i, q)" "in_map q"
      using ok unfolding pool_inv_def mu_ok_def by blast
    with assms(2) inside_not_in_map [OF assms(3)] show False by simp
  qed
  moreover have owner: "pl_providers \<sigma> iss = Some a \<and> pl_owner \<sigma> a = Some t"
    by (rule inside_owner [OF ok assms(2,3)])
  moreover have "u = t" if "pl_calls \<sigma> u = Some (i, pc')" "inside pc' = Some a" for u i pc'
    using inside_owner [OF ok that] owner by simp
  ultimately show ?thesis using one_inside [OF ok assms(2)] assms(3) by blast
qed

text \<open>One call is in discovery, and another one waits for the lock.\<close>

lemma single_flight_demo:
  "\<exists>\<sigma>. demo_pair = Some \<sigma> \<and> pl_calls \<sigma> 1 = Some (''i'', LockEntry 0) \<and> pl_owner \<sigma> 0 = Some 0"
proof -
  obtain \<sigma> where p: "demo_pair = Some \<sigma>" "pl_calls \<sigma> 0 = Some (''i'', Discover 0)"
    "pl_calls \<sigma> 1 = Some (''i'', LockEntry 0)"
    using demo_pair_state by blast
  have "inside (Discover 0 :: string pc) = Some 0" by simp
  from single_flight [OF schedule_steps [OF p(1) [unfolded demo_pair_def]] p(2) this] p show ?thesis by blast
qed

section \<open>Every call returns\<close>

lemma calls_left_bound: "calls_left \<sigma> \<le> 14 * card (dom (pl_calls \<sigma>))"
  using sum_bounded_above [of "dom (pl_calls \<sigma>)" "\<lambda>t. steps_left (snd (the (pl_calls \<sigma> t)))" 14,
      OF steps_left_bound]
  by (simp add: calls_left_def mult.commute)

text \<open>Termination: from every reachable state the calls that are under way make at most
  14 steps each, and when none of them can make another one they have all returned, so no
  schedule deadlocks.\<close>

theorem provider_calls_return:
  assumes "steps (pool_step env) pool_init evs \<sigma>" and "steps (work_step env) \<sigma> ts \<sigma>'"
  shows "length ts \<le> 14 * card (dom (pl_calls \<sigma>))
    \<and> ((\<forall>t \<sigma>''. \<not> work_step env \<sigma>' t \<sigma>'') \<longrightarrow> all_returned \<sigma>')"
proof -
  have ok: "pool_ok \<sigma>" by (rule pool_reachable_ok [OF assms(1)])
  with all_calls.work_steps [OF assms(2)] calls_left_bound [of \<sigma>]
  have "length ts \<le> 14 * card (dom (pl_calls \<sigma>))" by linarith
  with all_calls.stuck_goal [OF all_calls.valid_steps [OF assms(2) ok], of env] show ?thesis by blast
qed

lemma provider_calls_return_demo:
  "\<exists>\<sigma>. demo_pair = Some \<sigma> \<and> (\<forall>ts \<sigma>'. steps (work_step demo_oidc) \<sigma> ts \<sigma>' \<longrightarrow>
     length ts \<le> 14 * card (dom (pl_calls \<sigma>)))"
proof -
  obtain \<sigma> where p: "demo_pair = Some \<sigma>" using demo_pair_state by blast
  with provider_calls_return [OF schedule_steps [OF p [unfolded demo_pair_def]]] show ?thesis by blast
qed

text \<open>C7: A slow issuer delays only its own callers: even if every call that is in discovery
  for another issuer is never scheduled again, each call for this issuer can still run to its
  return, with at most 14 steps of each call.\<close>

theorem slow_issuer_delays_only_its_own:
  assumes "steps (pool_step env) pool_init evs \<sigma>" and "pl_calls \<sigma> t = Some (iss, pc)"
  shows "\<exists>ts \<sigma>' r. steps (patient_step env iss) \<sigma> ts \<sigma>' \<and> pl_calls \<sigma>' t = Some (iss, Returned r)
    \<and> length ts \<le> 14 * card (dom (pl_calls \<sigma>))"
proof -
  have ok: "call_for t iss \<sigma>" using pool_reachable_ok [OF assms(1)] assms(2) by (simp add: call_for_def)
  with one_call.reaches_goal [where env = env] obtain ts \<sigma>'
    where run: "steps (patient_step env iss) \<sigma> ts \<sigma>'" and goal: "call_returned t \<sigma>'" "call_for t iss \<sigma>'"
    by blast
  from goal obtain r where "pl_calls \<sigma>' t = Some (iss, Returned r)"
    by (auto simp: call_returned_def call_for_def)
  moreover have "length ts \<le> 14 * card (dom (pl_calls \<sigma>))"
    using one_call.work_steps [OF run ok] calls_left_bound [of \<sigma>] by linarith
  ultimately show ?thesis using run by blast
qed

lemma slow_issuer_delays_only_its_own_demo:
  "\<exists>\<sigma> ts \<sigma>' r. demo_slow = Some \<sigma> \<and> pl_calls \<sigma> 1 = Some (''j'', Discover 0)
     \<and> steps (patient_step demo_oidc ''i'') \<sigma> ts \<sigma>' \<and> pl_calls \<sigma>' 0 = Some (''i'', Returned r)"
proof -
  obtain \<sigma> where p: "demo_slow = Some \<sigma>" "pl_calls \<sigma> 1 = Some (''j'', Discover 0)"
    "pl_calls \<sigma> 0 = Some (''i'', LockMap)"
    using demo_slow_state by blast
  from slow_issuer_delays_only_its_own [OF schedule_steps [OF p(1) [unfolded demo_slow_def]] p(3)] p
  show ?thesis by blast
qed

end
