(* ===== verification/IssuerClaims.thy ===== *)
theory IssuerClaims
  imports Demo
begin

text \<open>
  The properties of \<open>internal/issuer\<close>: the CA key, the client's key, the options of a
  certificate and its lifetime.
\<close>

section \<open>Keys\<close>

lemma private_bits: "(p :: 32 word) AND 63 = 0 \<longleftrightarrow> (\<forall>n < 6. \<not> bit p n)"
proof -
  have m: "(63 :: 32 word) = Bit_Operations.mask 6" by (simp add: mask_eq_exp_minus_1)
  have small: "n < 6 \<Longrightarrow> n < 32" for n :: nat by simp
  show ?thesis unfolding m
    by (auto simp: bit_eq_iff bit_and_iff bit_mask_iff) (use small in blast)
qed

definition key_material :: "os \<Rightarrow> string \<Rightarrow> bool \<Rightarrow> string \<Rightarrow> bool" where
  "key_material sys path skip pem \<longleftrightarrow>
     (\<exists>f. os_open sys path = Inr f \<and> file_stat_error f = None \<and> file_regular f
        \<and> (skip \<or> (\<forall>n < 6. \<not> bit (file_perm f) n)) \<and> file_read f = Inr pem \<and> pem \<noteq> [])"

lemma readKeyFile_material: "readKeyFile sys path skip = Inr pem \<longleftrightarrow> key_material sys path skip pem"
  by (simp add: readKeyFile_iff key_material_def private_bits)

text \<open>C25: The CA key loads exactly when one of the three sources is configured and no other,
  and what that source holds parses as an ed25519 key; a file must be regular and, unless the
  check is skipped, have none of the six permission bits of group and others.  Whatever the
  outcome, no byte of the key material is left in the buffer.\<close>

theorem ca_key_loads_iff:
  "(fst (LoadCAKey lib sys flagPath skip) = Inr m \<longleftrightarrow>
     length (filter (\<lambda>s. s \<noteq> []) [flagPath, os_getenv sys EnvKeyFile, os_getenv sys EnvKey]) = 1
     \<and> (\<exists>pem sk. (flagPath \<noteq> [] \<and> key_material sys flagPath skip pem
          \<or> os_getenv sys EnvKeyFile \<noteq> [] \<and> key_material sys (os_getenv sys EnvKeyFile) skip pem
          \<or> os_getenv sys EnvKey \<noteq> [] \<and> pem = os_getenv sys EnvKey)
        \<and> lib_ParsePrivateKey lib pem = Inr sk
        \<and> lib_Type lib (lib_PublicKey lib sk) = ''ssh-ed25519'' \<and> m = NewMemorySigner sk))
   \<and> set (snd (LoadCAKey lib sys flagPath skip)) \<subseteq> {CHR 0x00}"
proof
  show "set (snd (LoadCAKey lib sys flagPath skip)) \<subseteq> {CHR 0x00}"
    by (auto simp: LoadCAKey_def scrub_def Let_def split: list.splits sum.splits)
qed (unfold LoadCAKey_iff key_sources_def readKeyFile_material [symmetric],
  cases "flagPath = []"; cases "os_getenv sys EnvKeyFile = []"; cases "os_getenv sys EnvKey = []";
  simp add: Let_def)

section \<open>Certificates\<close>

text \<open>The extensions of a certificate are exactly the enabled ones, each with an empty
  value, and the five flags can be read back from it.\<close>

theorem extensions_exact:
  "(extensionMap e k = Some v \<longleftrightarrow> v = [] \<and>
      (k = ''permit-pty'' \<and> ext_PermitPTY e
       \<or> k = ''permit-port-forwarding'' \<and> ext_PermitPortForwarding e
       \<or> k = ''permit-agent-forwarding'' \<and> ext_PermitAgentForwarding e
       \<or> k = ''permit-X11-forwarding'' \<and> ext_PermitX11Forwarding e
       \<or> k = ''permit-user-rc'' \<and> ext_PermitUserRC e))
   \<and> (extensionMap e = extensionMap e' \<longleftrightarrow> e = e')"
  using extensionMap_inject by (auto simp: extensionMap_apply split: if_splits)

text \<open>C11: Under a valid policy whose ceiling does not exceed what a \<open>time.Duration\<close> holds in
  seconds, a certificate expires exactly the rule's lifetime after the signing time, and so
  within the ceiling, and it starts at the configured offset.\<close>

theorem certificate_lifetime:
  assumes "policy_ok pol" and "r \<in> set (pol_Rules pol)" and "central now"
    and "sint (MaxValidForSeconds pol) \<le> max_seconds"
    and "- max_seconds \<le> sint (ValidAfterOffsetSeconds pol)"
    and "sint (ValidAfterOffsetSeconds pol) \<le> max_seconds"
  shows "sint (crt_ValidBefore (unsigned_cert serial (cert_request pol r pub keyID now)))
      = sint (Unix now) + sint (ValidForSecondsFor pol r)
    \<and> sint (Unix now) < sint (crt_ValidBefore (unsigned_cert serial (cert_request pol r pub keyID now)))
    \<and> sint (crt_ValidBefore (unsigned_cert serial (cert_request pol r pub keyID now)))
      \<le> sint (Unix now) + sint (MaxValidForSeconds pol)
    \<and> sint (crt_ValidAfter (unsigned_cert serial (cert_request pol r pub keyID now)))
      = sint (Unix now) + sint (ValidAfterOffsetSeconds pol)"
proof -
  have "cert_for pol r keyID pub now (unsigned_cert serial (cert_request pol r pub keyID now))"
    by (simp add: cert_for_def unsigned_cert_def cert_request_def criticalOptionMap_apply)
  from cert_lifetime [OF assms(1,2) this assms(3,4)] Unix_Add_seconds [OF assms(3,5,6)]
  show ?thesis by (simp add: unsigned_cert_def cert_request_def)
qed

lemma certificate_lifetime_demo:
  "sint (crt_ValidBefore (unsigned_cert 7 (cert_request demo_policy demo_rule ''k'' ''ci-s'' demo_now))) = 1200"
proof -
  have "demo_rule \<in> set (pol_Rules demo_policy)" by (simp add: demo_policy_def)
  note ct = certificate_lifetime [OF demo_policy_ok this demo_now_facts(3)]
  have "sint (Unix demo_now) = 900" by (simp add: Unix_def demo_now_def time_Unix_def)
  moreover have "ValidForSecondsFor demo_policy demo_rule = 300"
    "MaxValidForSeconds demo_policy = DefaultMaxValidForSeconds"
    "ValidAfterOffsetSeconds demo_policy = DefaultValidAfterOffsetSeconds"
    by (simp_all add: effective_defs demo_policy_defs)
  moreover have "sint DefaultMaxValidForSeconds \<le> max_seconds"
    "- max_seconds \<le> sint DefaultValidAfterOffsetSeconds"
    "sint DefaultValidAfterOffsetSeconds \<le> max_seconds"
    by (simp_all add: max_seconds_def DefaultMaxValidForSeconds_def DefaultValidAfterOffsetSeconds_def)
  ultimately show ?thesis using ct [of 7 "''k''" "''ci-s''"] by simp
qed

section \<open>Lifetimes beyond a duration\<close>

text \<open>The nanoseconds of a number of seconds, as a signed 64-bit integer has them.\<close>

definition wrapped_ns :: "int \<Rightarrow> int" where
  "wrapped_ns n = (n * ns_per_s + 2 ^ 63) mod 2 ^ 64 - 2 ^ 63"

lemma sint_seconds_wrapped: "sint (seconds n) = wrapped_ns (sint n)"
proof -
  have "sint (n * 1000000000) = signed_take_bit 63 (sint n * 1000000000)"
    by (simp add: sint_word_ariths)
  then show ?thesis
    by (simp add: seconds_def wrapped_ns_def ns_per_s_def signed_take_bit_eq_take_bit_shift take_bit_eq_mod)
qed

lemma wrapped_ns_id: 
  assumes "0 < n"
  shows "wrapped_ns n = n * ns_per_s \<longleftrightarrow> n \<le> max_seconds"
proof -
  have "0 \<le> (n * ns_per_s + 2 ^ 63) mod 2 ^ 64" "(n * ns_per_s + 2 ^ 63) mod 2 ^ 64 < 2 ^ 64" by simp_all
  moreover have "(n * ns_per_s + 2 ^ 63) mod 2 ^ 64 = n * ns_per_s + 2 ^ 63" if "n \<le> max_seconds"
    using that assms by (intro mod_pos_pos_trivial) (simp_all add: max_seconds_def ns_per_s_def)
  ultimately show ?thesis unfolding wrapped_ns_def max_seconds_def ns_per_s_def by auto
qed

lemma Unix_Add:
  assumes "central now"
  shows "sint (Unix (Add now d)) = (unix_ns now + sint d) div ns_per_s"
proof -
  let ?t = "Add now d"
  have w: "ns ?t = ns now + sint d" "wf_time ?t" using Add_exact [OF assms] by simp_all
  have r: "\<bar>sint (t_sec ?t) * ns_per_s + t_nsec ?t - (sint (t_sec now) * ns_per_s + t_nsec now)\<bar> \<le> 2 ^ 63"
    using w(1) sint64_range [of d] unfolding ns_def by linarith
  have c: "\<bar>sint (t_sec now)\<bar> \<le> 2 ^ 62" "0 \<le> t_nsec now" "t_nsec now < ns_per_s" "0 \<le> t_nsec ?t" "t_nsec ?t < ns_per_s"
    using assms w(2) by (simp_all add: central_def wf_time_def)
  have "\<bar>sint (t_sec ?t)\<bar> \<le> 2 ^ 62 + 9223372038"
    using r c unfolding ns_per_s_def abs_le_iff by auto
  then have "sint (Unix ?t) = sint (t_sec ?t) - 62135596800"
    unfolding Unix_def by (subst sint64_sub) (simp_all add: unix_epoch abs_le_iff)
  also have "\<dots> = (unix_ns ?t) div ns_per_s"
    using c(4,5) unfolding unix_ns_def ns_def ns_per_s_def by linarith
  also have "unix_ns ?t = unix_ns now + sint d" using w(1) by (simp add: unix_ns_def)
  finally show ?thesis .
qed

text \<open>The policy with another ceiling, and that lifetime in every rule.\<close>

definition with_lifetime :: "go_int \<Rightarrow> Policy \<Rightarrow> Policy" where
  "with_lifetime m pol = pol\<lparr>pol_Defaults := (pol_Defaults pol)\<lparr>def_MaxValidForSeconds := Some m\<rparr>,
     pol_Rules := map (\<lambda>r. r\<lparr>rule_Certificate := (rule_Certificate r)\<lparr>cert_ValidForSeconds := Some m\<rparr>\<rparr>) (pol_Rules pol)\<rparr>"

lemma with_lifetime_ok:
  assumes "policy_ok pol" and "sint (MaxValidForSeconds pol) \<le> sint m"
  shows "policy_ok (with_lifetime m pol)"
proof -
  let ?q = "with_lifetime m pol"
  have m: "0 < sint m" using assms by (simp add: policy_ok_def)
  have q: "pol_Version ?q = pol_Version pol" "MaxValidForSeconds ?q = m"
    "AllowedPublicKeyTypes ?q = AllowedPublicKeyTypes pol" "pol_Rules ?q = [] \<longleftrightarrow> pol_Rules pol = []"
    "map rule_Name (pol_Rules ?q) = map rule_Name (pol_Rules pol)"
    by (simp_all add: with_lifetime_def effective_defs comp_def)
  have d: "defaults_ok ?q"
    using assms by (fastforce simp: policy_ok_def defaults_ok_def with_lifetime_def effective_defs)
  have "rule_ok ?q t" if t: "t \<in> set (pol_Rules ?q)" for t
  proof -
    from t obtain r where r: "r \<in> set (pol_Rules pol)"
      and t: "t = r\<lparr>rule_Certificate := (rule_Certificate r)\<lparr>cert_ValidForSeconds := Some m\<rparr>\<rparr>"
      by (auto simp: with_lifetime_def)
    have e: "ValidForSecondsFor ?q t = m" "KeyIDTemplateFor ?q t = KeyIDTemplateFor pol r"
      "SourceAddressFor ?q t = SourceAddressFor pol r"
      by (simp_all add: t with_lifetime_def effective_defs)
    show ?thesis using policy_ok_rule [OF assms(1) r] m q(2) e
      by (simp add: rule_ok_def certificate_ok_def) (simp add: t)
  qed
  with d m q assms(1) show ?thesis by (simp add: policy_ok_def)
qed

text \<open>C40: Which expiry a certificate gets when the lifetime of its rule does not fit a
  \<open>time.Duration\<close>.  The nanoseconds wrap to a signed 64-bit number, which they do exactly from
  \<open>max_seconds\<close> on, and the expiry is the clock plus the wrapped number, rounded down to a
  second.  In the first range beyond \<open>max_seconds\<close> it is a date before 1970, which the
  certificate has as an unsigned number of at least \<open>2 ^ 63\<close>: it never expires.  \<open>Validate\<close> does
  not stop this: it accepts the policy with any larger ceiling and lifetime.\<close>

theorem huge_lifetime_wraps:
  assumes "policy_ok pol" and "r \<in> set (pol_Rules pol)" and "central now"
  shows "let n = sint (ValidForSecondsFor pol r);
       expiry = crt_ValidBefore (unsigned_cert serial (cert_request pol r pub keyID now)) in
     sint expiry = (unix_ns now + wrapped_ns n) div ns_per_s
     \<and> (wrapped_ns n = n * ns_per_s \<longleftrightarrow> n \<le> max_seconds)
     \<and> (max_seconds < n \<longrightarrow> 0 \<le> unix_ns now \<longrightarrow> unix_ns now + n * ns_per_s < 2 ^ 64 \<longrightarrow> 2 ^ 63 \<le> uint expiry)
     \<and> (\<forall>m. sint (MaxValidForSeconds pol) \<le> sint m \<longrightarrow> Validate (with_lifetime m pol) = Inr ())"
proof -
  define n where "n = sint (ValidForSecondsFor pol r)"
  define e where "e = crt_ValidBefore (unsigned_cert serial (cert_request pol r pub keyID now))"
  have e: "sint e = (unix_ns now + wrapped_ns n) div ns_per_s"
    using Unix_Add [OF assms(3)]
    by (simp add: e_def n_def unsigned_cert_def cert_request_def sint_seconds_wrapped)
  have n: "0 < n" using policy_ok_ttl(1) [OF assms(1,2)] by (simp add: n_def)
  have "2 ^ 63 \<le> uint e" if h: "max_seconds < n" "0 \<le> unix_ns now" "unix_ns now + n * ns_per_s < 2 ^ 64"
  proof -
    have "(n * ns_per_s + 2 ^ 63) mod 2 ^ 64 = (n * ns_per_s + 2 ^ 63 - 2 ^ 64) mod 2 ^ 64"
      by (simp only: minus_mod_self2)
    also have "\<dots> = n * ns_per_s + 2 ^ 63 - 2 ^ 64"
      using h by (intro mod_pos_pos_trivial) (simp_all add: max_seconds_def ns_per_s_def)
    finally have "wrapped_ns n = n * ns_per_s - 2 ^ 64" by (simp add: wrapped_ns_def)
    then have "sint e < 0" using h(3) unfolding e ns_per_s_def by linarith
    then have "0 \<le> sint e + 2 ^ 64" "sint e + 2 ^ 64 < 2 ^ 64" using sint64_range(1) [of e] by simp_all
    from mod_pos_pos_trivial [OF this] have "sint e mod 2 ^ 64 = sint e + 2 ^ 64" by (simp only: mod_add_self2)
    then have "uint e = sint e + 2 ^ 64" by (simp add: uint_sint take_bit_eq_mod)
    then show ?thesis using sint64_range(1) [of e] by simp
  qed
  then show ?thesis
    using e wrapped_ns_id [OF n] with_lifetime_ok [OF assms(1)] unfolding Let_def n_def [symmetric] e_def [symmetric]
    by (simp add: Validate_ok_iff)
qed

lemma huge_lifetime_wraps_demo:
  "2 ^ 63 \<le> uint (crt_ValidBefore (unsigned_cert 7 (cert_request (with_lifetime 10000000000 demo_policy)
      (hd (pol_Rules (with_lifetime 10000000000 demo_policy))) ''k'' ''ci-s'' demo_now)))"
proof -
  let ?p = "with_lifetime 10000000000 demo_policy"
  have "sint (MaxValidForSeconds demo_policy) \<le> sint (10000000000 :: go_int)"
    by (simp add: effective_defs demo_policy_defs DefaultMaxValidForSeconds_def)
  from with_lifetime_ok [OF demo_policy_ok this] have ok: "policy_ok ?p" .
  have r: "hd (pol_Rules ?p) \<in> set (pol_Rules ?p)" by (simp add: with_lifetime_def demo_policy_def)
  have "ValidForSecondsFor ?p (hd (pol_Rules ?p)) = 10000000000"
    by (simp add: with_lifetime_def demo_policy_def effective_defs)
  then have "sint (ValidForSecondsFor ?p (hd (pol_Rules ?p))) = 10000000000" by simp
  with huge_lifetime_wraps [OF ok r demo_now_facts(3), of 7 "''k''" "''ci-s''"] show ?thesis
    by (simp add: Let_def demo_now_facts max_seconds_def ns_per_s_def)
qed

end
