(* ===== verification/AuditLines.thy ===== *)
theory AuditLines
  imports AuditLog GoJson
begin

text \<open>
  What the JSON handler of \<open>slog\<close> writes for an event of \<open>internal/audit\<close>: one object on one
  line.  \<open>log_quote\<close> is its quoting of strings, and, with the short escapes, that of
  \<open>encoding/json\<close> without HTML escapes, which the handler uses for slices.  The text of an
  error and the formatted time are parameters.
\<close>

section \<open>Quoting\<close>

definition escape_ascii :: "bool \<Rightarrow> char \<Rightarrow> string" where
  "escape_ascii short c =
     (if c = CHR 0x22 \<or> c = CHR 0x5C then [CHR 0x5C, c]
      else if byte c = 10 then [CHR 0x5C, CHR ''n''] else if byte c = 13 then [CHR 0x5C, CHR ''r'']
      else if byte c = 9 then [CHR 0x5C, CHR ''t'']
      else if short \<and> byte c = 8 then [CHR 0x5C, CHR ''b'']
      else if short \<and> byte c = 12 then [CHR 0x5C, CHR ''f'']
      else if byte c < 0x20 then [CHR 0x5C, CHR ''u'', CHR ''0'', CHR ''0''] @ hex2 (byte c)
      else [c])"

text \<open>A byte that starts no valid sequence becomes an escaped U+FFFD, and the two line
  separators of JavaScript are escaped; other runes are copied.\<close>

function log_escape :: "bool \<Rightarrow> string \<Rightarrow> string" where
  "log_escape short [] = []"
| "log_escape short (c # s) =
     (if byte c < 0x80 then escape_ascii short c @ log_escape short s
      else (case decode_rune c s of
          (r, w) \<Rightarrow>
            (if r = 0xFFFD \<and> w = 1 then [CHR 0x5C, CHR ''u'', CHR ''f'', CHR ''f'', CHR ''f'', CHR ''d'']
             else if r = 0x2028 then [CHR 0x5C, CHR ''u'', CHR ''2'', CHR ''0'', CHR ''2'', CHR ''8'']
             else if r = 0x2029 then [CHR 0x5C, CHR ''u'', CHR ''2'', CHR ''0'', CHR ''2'', CHR ''9'']
             else c # take (w - 1) s)
            @ log_escape short (drop (w - 1) s)))"
  by pat_completeness auto
termination
  by (relation "measure (\<lambda>(short, s). length s)") auto

declare log_escape.simps(2) [simp del]

definition log_quote :: "bool \<Rightarrow> string \<Rightarrow> string" where
  "log_quote short s = CHR 0x22 # log_escape short s @ [CHR 0x22]"

text \<open>The text with every invalid byte replaced by U+FFFD, that is, valid UTF-8.\<close>

definition repair :: "string \<Rightarrow> string" where
  "repair s = concat (map encode_rune (runes s))"

lemma repair_Cons: "decode_rune c s = (r, w) \<Longrightarrow> repair (c # s) = encode_rune r @ repair (drop (w - 1) s)"
  by (simp add: repair_def)

lemma repair_ascii:
  assumes "\<forall>c \<in> set s. byte c < 0x80"
  shows "repair s = s"
  using assms
proof (induction s)
  case (Cons c s)
  then have "encode_rune (byte c) = [c]" by (simp add: encode_rune_def chr_def)
  with Cons show ?case by (simp add: repair_Cons [OF decode_rune_ascii])
qed (simp add: repair_def)

section \<open>The quoted text lexes back\<close>

lemma hex_nibble_digit: "n < 16 \<Longrightarrow> hex_nibble (hex_digit n) = Some n"
proof -
  have "\<forall>n \<in> set [0..<16]. hex_nibble (hex_digit n) = Some n"
    by (simp add: upt_rec [of _ 16] hex_digit_def hex_nibble_def char_class_defs)
  then show "n < 16 \<Longrightarrow> ?thesis" by simp
qed

lemma unicode_escape_ascii:
  assumes "n < 0x80"
  shows "unicode_escape (CHR ''0'' # CHR ''0'' # hex2 n @ u) = Some ([chr n], u)"
proof -
  have "hex_nibble (hex_digit (n div 16)) = Some (n div 16)" "hex_nibble (hex_digit (n mod 16)) = Some (n mod 16)"
    using assms by (intro hex_nibble_digit; simp)+
  moreover have "hex_nibble (CHR ''0'') = Some 0" by (simp add: hex_nibble_def char_class_defs)
  moreover have "n div 16 * 16 + n mod 16 = n" by simp
  ultimately have "hex4 (CHR ''0'' # CHR ''0'' # hex2 n @ u) = Some (n, u)" by (simp add: hex2_def)
  with assms show ?thesis by (simp add: unicode_escape_def is_surrogate_def encode_rune_def)
qed

lemma lex_unicode_ascii:
  assumes "byte c < 0x80"
  shows "lex_string ([CHR 0x5C, CHR ''u'', CHR ''0'', CHR ''0''] @ hex2 (byte c) @ u) = prepend [c] (lex_string u)"
  using unicode_escape_ascii [OF assms, of u]
  by (simp add: lex_string.simps(2) [of "CHR 0x5C"] chr_def)

lemma lex_simple_escape:
  assumes "simple_escape e = Some c"
  shows "lex_string (CHR 0x5C # e # u) = prepend [c] (lex_string u)"
proof -
  have "e \<noteq> CHR ''u''" using assms by (auto simp: simple_escape_def)
  with assms show ?thesis by (simp add: lex_string.simps(2) [of "CHR 0x5C"])
qed

lemma chr_byte: "chr (byte c) = c"
  by (simp add: chr_def)

lemma simple_escapes:
  "byte c = 8 \<Longrightarrow> simple_escape (CHR ''b'') = Some c" "byte c = 9 \<Longrightarrow> simple_escape (CHR ''t'') = Some c"
  "byte c = 10 \<Longrightarrow> simple_escape (CHR ''n'') = Some c" "byte c = 12 \<Longrightarrow> simple_escape (CHR ''f'') = Some c"
  "byte c = 13 \<Longrightarrow> simple_escape (CHR ''r'') = Some c"
  using chr_byte [of c] by (simp_all add: simple_escape_def)

lemma lex_escape_ascii:
  assumes "byte c < 0x80"
  shows "lex_string (escape_ascii short c @ u) = prepend [c] (lex_string u)"
proof (cases "byte c < 0x20 \<or> c = CHR 0x22 \<or> c = CHR 0x5C")
  case True
  then show ?thesis
    using lex_unicode_ascii [OF assms, of u]
    by (auto simp: escape_ascii_def simple_escape_def intro!: lex_simple_escape simple_escapes)
next
  case False
  with assms have "encode_rune (byte c) = [c]" by (simp add: encode_rune_def chr_def)
  with False assms show ?thesis
    by (simp add: escape_ascii_def lex_string.simps(2) [of c] decode_rune_ascii)
qed

lemma decode_rune_width: "decode_rune c s = (r, w) \<Longrightarrow> 1 \<le> w \<and> w - 1 \<le> length s"
  by (auto simp: decode_rune_def Let_def split: prod.splits if_splits list.splits)

lemma decode_rune_local:
  assumes "decode_rune c s = (r, w)" and "\<not> (r = 0xFFFD \<and> w = 1)"
  shows "decode_rune c (take (w - 1) s @ t) = (r, w)"
  using assms
  by (auto simp: decode_rune_def Let_def split: prod.splits if_splits list.splits)

lemma unicode_escape_fixed:
  "unicode_escape (CHR ''f'' # CHR ''f'' # CHR ''f'' # CHR ''d'' # u) = Some (encode_rune 0xFFFD, u)"
  "unicode_escape (CHR ''2'' # CHR ''0'' # CHR ''2'' # CHR ''8'' # u) = Some (encode_rune 0x2028, u)"
  "unicode_escape (CHR ''2'' # CHR ''0'' # CHR ''2'' # CHR ''9'' # u) = Some (encode_rune 0x2029, u)"
  by (simp_all add: unicode_escape_def hex_nibble_def char_class_defs is_surrogate_def)

lemma lex_copied:
  assumes "decode_rune c s = (r, w)" and "\<not> (r = 0xFFFD \<and> w = 1)" and "0x80 \<le> byte c"
  shows "lex_string (c # take (w - 1) s @ u) = prepend (encode_rune r) (lex_string u)"
proof -
  have "c \<noteq> CHR 0x22" "c \<noteq> CHR 0x5C" using assms(3) by auto
  then show ?thesis
    using decode_rune_local [OF assms(1,2), of u] decode_rune_width [OF assms(1)] assms(3)
    by (simp add: lex_string.simps(2) [of c])
qed

lemma lex_log_escape: "lex_string (log_escape short s @ CHR 0x22 # t) = Some (repair s, t)"
proof (induction short s rule: log_escape.induct)
  case (1 short)
  then show ?case by (simp add: lex_string.simps(2) repair_def)
next
  case (2 short c s)
  obtain r w where d: "decode_rune c s = (r, w)" by (cases "decode_rune c s")
  show ?case
  proof (cases "byte c < 0x80")
    case True
    then have "encode_rune (byte c) = [c]" by (simp add: encode_rune_def chr_byte)
    moreover have "r = byte c" "w = 1" using d True by (simp_all add: decode_rune_ascii)
    ultimately show ?thesis using True "2.IH"(1) [OF True] d
      by (simp add: log_escape.simps(2) lex_escape_ascii repair_Cons prepend_def)
  next
    case False
    note IH = "2.IH"(2) [OF False d [symmetric]]
    let ?rest = "log_escape short (drop (w - 1) s) @ CHR 0x22 # t"
    have "lex_string (log_escape short (c # s) @ CHR 0x22 # t) = prepend (encode_rune r) (lex_string ?rest)"
      using False d lex_copied [OF d, of ?rest]
      by (simp add: log_escape.simps(2) lex_string.simps(2) [of "CHR 0x5C"] unicode_escape_fixed)
    with IH show ?thesis by (simp add: repair_Cons [OF d] prepend_def)
  qed
qed

lemma lex_log_quote: "lex (log_quote short s @ t) = map_option (\<lambda>ks. TStr (repair s) # ks) (lex t)"
  using lex_log_escape [of short s t]
  by (simp add: log_quote_def lex.simps(2) is_json_space_def lex_token_def punctuation_def)

text \<open>No control character, so no line break, is left in quoted text.\<close>

lemma escape_ascii_chars: "d \<in> set (escape_ascii short c) \<Longrightarrow> 0x20 \<le> byte d"
proof -
  have "byte (hex_digit (byte c div 16)) \<ge> 0x20" "byte (hex_digit (byte c mod 16)) \<ge> 0x20" if "byte c < 0x20"
  proof -
    have "\<forall>e \<in> set ''0123456789abcdef''. 0x20 \<le> byte e" by simp
    moreover have "hex_digit (byte c div 16) \<in> set ''0123456789abcdef''"
      "hex_digit (byte c mod 16) \<in> set ''0123456789abcdef''"
      using that by (intro hex_digit_in; simp)+
    ultimately show "byte (hex_digit (byte c div 16)) \<ge> 0x20" "byte (hex_digit (byte c mod 16)) \<ge> 0x20"
      by blast+
  qed
  then show "d \<in> set (escape_ascii short c) \<Longrightarrow> 0x20 \<le> byte d"
    by (auto simp: escape_ascii_def hex2_def split: if_split_asm)
qed

lemma log_escape_chars: "d \<in> set (log_escape short s) \<Longrightarrow> 0x20 \<le> byte d"
proof (induction short s rule: log_escape.induct)
  case (2 short c s)
  obtain r w where d: "decode_rune c s = (r, w)" by (cases "decode_rune c s")
  show ?case
  proof (cases "byte c < 0x80")
    case True
    with 2 show ?thesis by (auto simp: log_escape.simps(2) dest: escape_ascii_chars)
  next
    case False
    with decode_rune_nonascii [OF _ d] have "\<forall>e \<in> set (take (w - 1) s). 0x20 \<le> byte e" by force
    with False d 2 show ?thesis by (auto simp: log_escape.simps(2) split: if_split_asm)
  qed
qed simp

lemma log_quote_chars: "d \<in> set (log_quote short s) \<Longrightarrow> 0x20 \<le> byte d"
  by (auto simp: log_quote_def dest: log_escape_chars)

section \<open>Numbers\<close>

text \<open>\<open>strconv.AppendInt\<close> in base ten.\<close>

fun show_nat :: "nat \<Rightarrow> string" where
  "show_nat n = (if n < 10 then [chr (48 + n)] else show_nat (n div 10) @ [chr (48 + n mod 10)])"

declare show_nat.simps [simp del]

definition show_int :: "int \<Rightarrow> string" where
  "show_int i = (if i < 0 then CHR ''-'' # show_nat (nat (- i)) else show_nat (nat i))"

lemma is_digit_chr: "n < 10 \<Longrightarrow> is_digit (chr (48 + n))"
  by (simp add: char_class_defs chr_def)

lemma show_nat_digits: "\<forall>c \<in> set (show_nat n). is_digit c"
proof (induction n rule: show_nat.induct)
  case (1 n)
  then show ?case
    by (cases "n < 10") (simp_all add: show_nat.simps [of n] is_digit_chr)
qed

lemma show_nat_hd: "show_nat n \<noteq> [] \<and> (hd (show_nat n) = CHR ''0'' \<longrightarrow> n = 0)"
proof (induction n rule: show_nat.induct)
  case (1 n)
  show ?case
  proof (cases "n < 10")
    case True
    then have "byte (chr (48 + n)) = 48 + n" by (simp add: chr_def)
    moreover have "byte (CHR ''0'') = 48" by simp
    ultimately have "chr (48 + n) = CHR ''0'' \<Longrightarrow> n = 0" by (metis add_cancel_left_right)
    with True show ?thesis by (simp add: show_nat.simps [of n])
  next
    case False
    with 1 have "show_nat (n div 10) \<noteq> [] \<and> hd (show_nat (n div 10)) \<noteq> CHR ''0''" by force
    with False show ?thesis by (simp add: show_nat.simps [of n])
  qed
qed

text \<open>What may follow a value inside an object.\<close>

definition value_end :: "string \<Rightarrow> bool" where
  "value_end t \<longleftrightarrow> (case t of [] \<Rightarrow> True | c # _ \<Rightarrow> c \<in> set '',]}'')"

lemma value_end_not_digit: "value_end t \<Longrightarrow> takeWhile is_digit t = [] \<and> dropWhile is_digit t = t"
  by (cases t) (auto simp: value_end_def char_class_defs)

lemma lex_tail: "value_end t \<Longrightarrow> lex_frac t = Some ([], t) \<and> lex_exp t = Some ([], t)"
  by (cases t) (auto simp: value_end_def lex_frac_def lex_exp_def)

lemma lex_int_show:
  assumes "value_end t"
  shows "lex_int (show_nat n @ t) = Some (show_nat n, t)"
proof -
  obtain c cs where n: "show_nat n = c # cs" using show_nat_hd [of n] by (cases "show_nat n") auto
  show ?thesis
  proof (cases "c = CHR ''0''")
    case True
    with show_nat_hd [of n] n have "n = 0" by simp
    then have "show_nat n = [CHR ''0'']" using chr_byte [of "CHR ''0''"] by (simp add: show_nat.simps)
    then show ?thesis by (simp add: lex_int_def)
  next
    case False
    have "takeWhile is_digit (show_nat n @ t) = show_nat n \<and> dropWhile is_digit (show_nat n @ t) = t"
      using show_nat_digits [of n] value_end_not_digit [OF assms]
      by (simp add: takeWhile_append2 dropWhile_append2)
    then have "lex_digits (show_nat n @ t) = Some (show_nat n, t)"
      using n by (simp add: lex_digits_def split_while_def)
    with False n show ?thesis by (simp add: lex_int_def)
  qed
qed

lemma lex_number_show:
  assumes "value_end t"
  shows "lex_number (show_int i @ t) = Some (show_int i, t)"
proof -
  have "hd (show_nat n) \<noteq> CHR ''-''" for n
    using show_nat_digits [of n] show_nat_hd [of n]
    by (cases "show_nat n") (auto simp: char_class_defs)
  then show ?thesis
    using lex_int_show [OF assms] lex_tail [OF assms] show_nat_hd
    by (simp add: lex_number_def show_int_def Let_def)
qed

lemma lex_show_int:
  assumes "value_end t"
  shows "lex (show_int i @ t) = map_option (\<lambda>ks. TNum (show_int i) # ks) (lex t)"
proof -
  obtain c cs where i: "show_int i = c # cs" "is_digit c \<or> c = CHR ''-''"
    using show_nat_hd [of "nat i"] show_nat_digits [of "nat i"]
    by (cases "i < 0"; cases "show_nat (nat i)") (auto simp: show_int_def)
  then have "punctuation c = None" "\<not> is_json_space c" "c \<noteq> CHR 0x22"
    by (auto simp: punctuation_def is_json_space_def char_class_defs)
  with i lex_number_show [OF assms, of i] show ?thesis
    by (simp add: lex.simps(2) lex_token_def)
qed

section \<open>Values and lines\<close>

text \<open>\<open>err\<close> is the text of an error.\<close>

fun join_values :: "string list \<Rightarrow> string" where
  "join_values [] = []"
| "join_values [v] = v"
| "join_values (v # w # vs) = v @ '','' @ join_values (w # vs)"

fun value_text :: "('d \<Rightarrow> string) \<Rightarrow> 'd attr_value \<Rightarrow> string" where
  "value_text err (AttrString s) = log_quote False s"
| "value_text err (AttrStrings ss) = ''['' @ join_values (map (log_quote True) ss) @ '']''"
| "value_text err (AttrInt n) = show_int (sint n)"
| "value_text err (AttrBool b) = (if b then ''true'' else ''false'')"
| "value_text err (AttrDetail d) = log_quote False (err d)"

fun level_text :: "level \<Rightarrow> string" where
  "level_text LevelInfo = ''INFO''"
| "level_text LevelWarn = ''WARN''"
| "level_text LevelError = ''ERROR''"

definition member_text :: "string \<Rightarrow> string \<Rightarrow> string" where
  "member_text k v = log_quote False k @ '':'' @ v"

text \<open>The line of an event logged at the (formatted) time \<open>ts\<close>.\<close>

definition log_line :: "('d \<Rightarrow> string) \<Rightarrow> string \<Rightarrow> 'd event \<Rightarrow> string" where
  "log_line err ts e = ''{'' @ join_values
     ([member_text ''time'' (CHR 0x22 # ts @ [CHR 0x22]),
       member_text ''level'' (log_quote False (level_text (ev_level e))),
       member_text ''msg'' (log_quote False (ev_msg e))]
      @ map (\<lambda>(k, v). member_text k (value_text err v)) (ev_attrs e)) @ ''}'' @ [CHR 0x0A]"

text \<open>What a reader of the line gets.\<close>

fun value_json :: "('d \<Rightarrow> string) \<Rightarrow> 'd attr_value \<Rightarrow> json" where
  "value_json err (AttrString s) = JStr (repair s)"
| "value_json err (AttrStrings ss) = JArr (map (\<lambda>s. JStr (repair s)) ss)"
| "value_json err (AttrInt n) = JNum (show_int (sint n))"
| "value_json err (AttrBool b) = JBool b"
| "value_json err (AttrDetail d) = JStr (repair (err d))"

text \<open>A text that lexes to the tokens of a value, whatever may follow the value.\<close>

definition writes :: "string \<Rightarrow> json \<Rightarrow> bool" where
  "writes s v \<longleftrightarrow> (\<forall>t. value_end t \<longrightarrow> lex (s @ t) = map_option (\<lambda>ks. tokens_of v @ ks) (lex t))"

lemma writes_quote: "writes (log_quote short s) (JStr (repair s))"
  by (simp add: writes_def lex_log_quote)

lemma writes_plain: "\<forall>c \<in> set s. plain_char c \<Longrightarrow> writes (CHR 0x22 # s @ [CHR 0x22]) (JStr s)"
  using lex_quote_plain [of s] by (simp add: writes_def quote_string_def quote_bytes_plain)

lemma lex_comma: "lex (CHR '','' # t) = map_option (\<lambda>ks. TComma # ks) (lex t)"
  by (rule lex_punctuation) (simp add: punctuation_def)

lemma writes_array_values:
  "value_end t \<Longrightarrow> lex (join_values (map (log_quote True) ss) @ t)
     = map_option (\<lambda>ks. array_tokens (map (\<lambda>s. JStr (repair s)) ss) @ ks) (lex t)"
proof (induction ss)
  case (Cons s ss)
  then show ?case
    by (cases ss) (simp_all add: lex_log_quote lex_comma option.map_comp comp_def)
next
  case Nil
  show ?case by (cases "lex t") simp_all
qed

lemma value_end_simps [simp]:
  "value_end []" "value_end (CHR '','' # t)" "value_end (CHR '']'' # t)" "value_end (CHR ''}'' # t)"
  by (simp_all add: value_end_def)

lemma writes_value: "writes (value_text err v) (value_json err v)"
proof (cases v)
  case (AttrStrings ss)
  have "lex (value_text err v @ t) = map_option (\<lambda>ks. tokens_of (value_json err v) @ ks) (lex t)" for t
    using writes_array_values [of "CHR '']'' # t" ss] AttrStrings
    by (simp add: lex_punctuation [of "CHR ''[''" TLBrack] lex_punctuation [of "CHR '']''" TRBrack]
        punctuation_def option.map_comp comp_def)
  then show ?thesis by (simp add: writes_def)
next
  case (AttrBool b)
  have "lex ((if b then ''true'' else ''false'') @ t)
      = map_option (\<lambda>ks. (if b then TTrue else TFalse) # ks) (lex t)" for t
    by (simp add: lex.simps(2) lex_token_def lex_keyword_def punctuation_def is_json_space_def
        char_class_defs)
  with AttrBool show ?thesis by (simp add: writes_def)
qed (simp_all add: writes_quote, simp add: writes_def lex_show_int)

section \<open>A line is one object\<close>

lemma lex_colon: "lex (CHR '':'' # t) = map_option (\<lambda>ks. TColon # ks) (lex t)"
  by (rule lex_punctuation) (simp add: punctuation_def)

lemma lex_member:
  "writes s v \<Longrightarrow> value_end t \<Longrightarrow>
     lex (member_text k s @ t) = map_option (\<lambda>ks. TStr (repair k) # TColon # tokens_of v @ ks) (lex t)"
  by (simp add: member_text_def lex_log_quote lex_colon writes_def option.map_comp comp_def)

lemma lex_members:
  "\<forall>(k, s, v) \<in> set ms. writes s v \<Longrightarrow> value_end t \<Longrightarrow>
     lex (join_values (map (\<lambda>(k, s, v). member_text k s) ms) @ t)
     = map_option (\<lambda>ks. object_tokens (map (\<lambda>(k, s, v). (repair k, v)) ms) @ ks) (lex t)"
proof (induction ms)
  case Nil
  show ?case by (cases "lex t") simp_all
next
  case (Cons m ms)
  obtain k s v where m: "m = (k, s, v)" by (cases m)
  with Cons.prems have w: "writes s v" by simp
  show ?case
  proof (cases ms)
    case Nil
    with m lex_member [OF w Cons.prems(2)] show ?thesis by simp
  next
    case (Cons m' ms')
    have "lex (join_values (map (\<lambda>(k, s, v). member_text k s) (m # ms)) @ t)
        = lex (member_text k s @ CHR '','' # join_values (map (\<lambda>(k, s, v). member_text k s) ms) @ t)"
      using m Cons by (simp split: prod.split)
    also have "\<dots> = map_option (\<lambda>ks. object_tokens (map (\<lambda>(k, s, v). (repair k, v)) (m # ms)) @ ks) (lex t)"
      using Cons.IH Cons.prems m local.Cons
      by (simp add: lex_member [OF w] lex_comma option.map_comp comp_def)
    finally show ?thesis .
  qed
qed

text \<open>The members of a line with the values they stand for.\<close>

definition line_members :: "('d \<Rightarrow> string) \<Rightarrow> string \<Rightarrow> 'd event \<Rightarrow> (string \<times> string \<times> json) list" where
  "line_members err ts e =
     [(''time'', CHR 0x22 # ts @ [CHR 0x22], JStr ts),
      (''level'', log_quote False (level_text (ev_level e)), JStr (repair (level_text (ev_level e)))),
      (''msg'', log_quote False (ev_msg e), JStr (repair (ev_msg e)))]
     @ map (\<lambda>(k, v). (k, value_text err v, value_json err v)) (ev_attrs e)"

definition line_json :: "('d \<Rightarrow> string) \<Rightarrow> string \<Rightarrow> 'd event \<Rightarrow> (string \<times> json) list" where
  "line_json err ts e =
     [(''time'', JStr ts), (''level'', JStr (level_text (ev_level e))), (''msg'', JStr (repair (ev_msg e)))]
     @ map (\<lambda>(k, v). (repair k, value_json err v)) (ev_attrs e)"

lemma log_line_members:
  "log_line err ts e =
     ''{'' @ join_values (map (\<lambda>(k, s, v). member_text k s) (line_members err ts e)) @ ''}'' @ [CHR 0x0A]"
  "map (\<lambda>(k, s, v). (repair k, v)) (line_members err ts e) = line_json err ts e"
  by (cases "ev_level e"; simp add: log_line_def line_members_def line_json_def split_def comp_def repair_ascii)+

lemma value_json_depth: "depth (value_json err v) \<le> 1"
proof (cases v)
  case (AttrStrings ss)
  have "list_depth (map (\<lambda>s. JStr (repair s)) ss) = 0" by (induction ss) auto
  with AttrStrings show ?thesis by simp
qed simp_all

lemma object_depth_bound: "\<forall>(k, v) \<in> set ms. depth v \<le> n \<Longrightarrow> object_depth ms \<le> n"
  by (induction ms) auto

lemma log_line_parses:
  assumes "\<forall>c \<in> set ts. plain_char c"
  shows "parse_json (log_line err ts e) = Some (JObj (line_json err ts e))"
proof (rule parse_tokens_of)
  let ?ms = "line_members err ts e"
  have "\<forall>(k, s, v) \<in> set ?ms. writes s v"
    using writes_plain [OF assms] writes_quote writes_value
    by (auto simp: line_members_def)
  moreover have "lex [CHR 0x0A] = Some []" by (simp add: lex.simps is_json_space_def)
  ultimately show "lex (log_line err ts e) = Some (tokens_of (JObj (line_json err ts e)))"
    using lex_members [of ?ms "CHR ''}'' # [CHR 0x0A]"]
    by (simp add: log_line_members lex_punctuation [of "CHR ''{''" TLBrace]
        lex_punctuation [of "CHR ''}''" TRBrace] punctuation_def)
  have "\<forall>(k, v) \<in> set (line_json err ts e). depth v \<le> 1"
    using value_json_depth by (auto simp: line_json_def)
  from object_depth_bound [OF this] show "depth (JObj (line_json err ts e)) \<le> max_depth"
    by (simp add: max_depth_def)
qed

text \<open>Its only line break is at its end.\<close>

lemma show_int_chars: "d \<in> set (show_int i) \<Longrightarrow> 0x20 \<le> byte d"
  using show_nat_digits [of "nat i"] show_nat_digits [of "nat (- i)"]
  by (cases "i < 0") (auto simp: show_int_def char_class_defs)

lemma join_values_chars:
  "d \<in> set (join_values vs) \<Longrightarrow> d = CHR '','' \<or> (\<exists>v \<in> set vs. d \<in> set v)"
  by (induction vs rule: join_values.induct) auto

lemma value_text_chars:
  assumes "d \<in> set (value_text err v)"
  shows "0x20 \<le> byte d"
proof (cases v)
  case (AttrStrings ss)
  with assms have "d \<in> set ''[,]'' \<or> (\<exists>s \<in> set ss. d \<in> set (log_quote True s))"
    by (auto dest!: join_values_chars)
  then show ?thesis using log_quote_chars by auto
next
  case (AttrBool b)
  with assms have "d \<in> set (if b then ''true'' else ''false'')" by simp
  then show ?thesis by (cases b) auto
qed (use assms in \<open>auto dest: log_quote_chars show_int_chars\<close>)

lemma member_chars:
  assumes "\<forall>c \<in> set ts. plain_char c" "(k, s, v) \<in> set (line_members err ts e)" "d \<in> set s"
  shows "0x20 \<le> byte d"
proof -
  have "0x20 \<le> byte d" if "d \<in> set ts"
    using bspec [OF assms(1) that] by (simp add: plain_char_def)
  moreover have "0x20 \<le> byte (CHR 0x22)" by simp
  ultimately have time: "0x20 \<le> byte d" if "d \<in> set (CHR 0x22 # ts @ [CHR 0x22])"
    using that by (cases "d = CHR 0x22") simp_all
  consider "s = CHR 0x22 # ts @ [CHR 0x22]" | t where "s = log_quote False t"
    | a where "s = value_text err a"
    using assms(2) unfolding line_members_def by auto
  then show ?thesis
    by cases (use assms(3) time in blast, use assms(3) log_quote_chars in blast,
      use assms(3) value_text_chars in blast)
qed

lemma log_line_one_line:
  assumes "\<forall>c \<in> set ts. plain_char c"
  shows "\<exists>body. log_line err ts e = body @ [CHR 0x0A] \<and> CHR 0x0A \<notin> set body"
proof -
  let ?ms = "line_members err ts e"
  let ?body = "''{'' @ join_values (map (\<lambda>(k, s, v). member_text k s) ?ms) @ ''}''"
  have member: "0x20 \<le> byte d" if "(k, s, v) \<in> set ?ms" "d \<in> set (member_text k s)" for d k s v
  proof -
    have "d \<in> set (log_quote False k) \<or> d = CHR '':'' \<or> d \<in> set s"
      using that(2) by (auto simp: member_text_def)
    then show ?thesis using log_quote_chars member_chars [OF assms that(1)] by auto
  qed
  have "0x20 \<le> byte d" if "d \<in> set (join_values (map (\<lambda>(k, s, v). member_text k s) ?ms))" for d
    using join_values_chars [OF that] member by auto
  then have "0x20 \<le> byte d" if "d \<in> set ?body" for d
    using that by auto
  then have "CHR 0x0A \<notin> set ?body" by force
  then show ?thesis by (intro exI [of _ ?body]) (simp add: log_line_members)
qed

end
