(* ===== verification/ServerClaims.thy ===== *)
theory ServerClaims
  imports Demo AuditLines
begin

text \<open>
  The properties of \<open>internal/server\<close> that hold for any signer and verifier: what a denied
  client sees and what the log holds.
\<close>

text \<open>C29: Every call of \<open>Sign\<close> writes one event with the request id of the response.  A
  denied client gets nothing but the generic body with that id, and the status of the reason
  that is logged, above the level of information.\<close>

theorem denial_is_generic_and_logged:
  assumes "Sign env s meth authHeader body = (resp, s')" and "rsp_Status resp \<noteq> 200"
  shows "rsp_Body resp = denied_body (rsp_RequestID resp)
    \<and> rsp_RequestID resp = fst (newRequestID env s)
    \<and> (\<exists>e reason. st_audit s' = st_audit s @ [e] \<and> ev_msg e = EventDenied \<and> LevelInfo < ev_level e
        \<and> attr e ''request_id'' = Some (AttrString (rsp_RequestID resp))
        \<and> attr e ''reason'' = Some (AttrString reason) \<and> (rsp_Status resp, reason) \<in> status_table)"
proof -
  note run = assms(1) [unfolded Sign_def]
  obtain e where "st_audit s' = st_audit s @ [e]"
    "attr e ''request_id'' = Some (AttrString (rsp_RequestID resp))"
    "ev_msg e = EventDenied \<and> LevelInfo < ev_level e
      \<and> (\<exists>rs. attr e ''reason'' = Some (AttrString rs) \<and> (rsp_Status resp, rs) \<in> status_table)"
    by (rule sign_with_audit [OF run]) (use assms(2) in blast)
  with sign_with_denied_body [OF run assms(2)] sign_with_request_id [OF run] show ?thesis by blast
qed

lemma demo_get: "Sign demo_env demo_state ''GET'' a b = deny
    (snd (newRequestID demo_env demo_state)) (fst (newRequestID demo_env demo_state))
    (Denial 405 reasonBadRequest (MethodNotAllowed ''GET'') [])"
  by (simp add: Sign_def sign_with_def sign_pipeline_def check_request_def case_prod_beta)

lemma denial_is_generic_and_logged_demo:
  "\<exists>resp s'. Sign demo_env demo_state ''GET'' [] [] = (resp, s')
     \<and> rsp_Body resp = denied_body (fst (newRequestID demo_env demo_state))"
proof -
  obtain resp s' where r: "Sign demo_env demo_state ''GET'' [] [] = (resp, s')"
    by (cases "Sign demo_env demo_state ''GET'' [] []")
  then have "rsp_Status resp = 405" by (auto simp: demo_get deny_def)
  then have "rsp_Status resp \<noteq> 200" by simp
  from denial_is_generic_and_logged [OF r this] r show ?thesis by auto
qed

lemma plain_pairs:
  assumes "\<forall>c \<in> set k. plain_char c" and "\<forall>c \<in> set v. plain_char c"
    and "\<forall>c \<in> set k'. plain_char c" and "\<forall>c \<in> set v'. plain_char c"
  shows "\<forall>(a, b) \<in> set [(k, v), (k', v')]. \<forall>c \<in> set a \<union> set b. plain_char c"
  using assms by auto

text \<open>The body of a denial is JSON; decoding it gives the fixed message and the request
  id, and nothing else.\<close>

theorem denied_body_decodes:
  "parse_json (denied_body (fst (newRequestID env s))) = Some (JObj
     [(''error'', JStr ''certificate request denied; contact your administrator with the request_id''),
      (''request_id'', JStr (fst (newRequestID env s)))])"
proof -
  have nl: "lex [CHR 0x0A] = Some []" by (simp add: lex.simps is_json_space_def)
  have m: "\<forall>c \<in> set ''certificate request denied; contact your administrator with the request_id''. plain_char c"
    and k: "\<forall>c \<in> set ''error''. plain_char c" "\<forall>c \<in> set ''request_id''. plain_char c"
    by (simp_all add: plain_char_def)
  show ?thesis
    unfolding denied_body_def
    using parse_marshal_map_then [OF plain_pairs [OF k(1) m k(2) newRequestID_chars] nl]
    by (simp only: list.map prod.case)
qed

lemma handler_routes:
  "Handler env s rq =
    (if hrq_Path rq = ''/sign'' then
       (case Sign env s (hrq_Method rq) (hrq_Authorization rq) (src_bytes (hrq_Body rq)) of
          (resp, s') \<Rightarrow> Some
            (\<lparr>hrp_Status = rsp_Status resp,
              hrp_Headers = [(''Content-Type'', rsp_ContentType resp), (''X-Request-Id'', rsp_RequestID resp)],
              hrp_Body = rsp_Body resp\<rparr>, s'))
     else if hrq_Path rq = ''/ca-public-key'' then Some (handleCAPub env rq, s)
     else None)"
  by (simp add: Handler_def handleSign_def read_limited_def Sign_def sign_with_take [simplified]
      split: prod.split)

text \<open>What \<open>/sign\<close> replies when \<open>Sign\<close> sees a body.\<close>

definition sign_reply ::
  "('pk, 'sk, 'vs) server_env \<Rightarrow> 'vs server_state \<Rightarrow> http_request \<Rightarrow> string
   \<Rightarrow> (http_reply \<times> 'vs server_state) option" where
  "sign_reply env s rq body =
     (case Sign env s (hrq_Method rq) (hrq_Authorization rq) body of
        (resp, s') \<Rightarrow> Some
          (\<lparr>hrp_Status = rsp_Status resp,
            hrp_Headers = [(''Content-Type'', rsp_ContentType resp), (''X-Request-Id'', rsp_RequestID resp)],
            hrp_Body = rsp_Body resp\<rparr>, s'))"

text \<open>C31: The handler routes two paths.  \<open>/sign\<close> reads at most one byte more than the limit,
  and that is enough: a body that arrives without a read error is answered as \<open>Sign\<close> answers
  the whole of it, whatever its size.  A body that is cut off by a read error is answered as
  the bytes before the error would be if they were all that the client sent: the error is
  dropped, and where those bytes are a complete request with a good token a certificate is
  issued.  (The comment in \<open>handleSign\<close> says that such a body is nil and is always denied.)
  \<open>/ca-public-key\<close> never changes the state, and no other path is served.\<close>

theorem handler_serves_two_routes:
  "(hrq_Path rq = ''/sign'' \<and> src_error (hrq_Body rq) = None
      \<longrightarrow> Handler env s rq = sign_reply env s rq (src_bytes (hrq_Body rq)))
   \<and> (\<forall>e. hrq_Path rq = ''/sign'' \<and> src_error (hrq_Body rq) = Some e
      \<longrightarrow> Handler env s rq = Handler env s (rq\<lparr>hrq_Body := \<lparr>src_bytes = src_bytes (hrq_Body rq), src_error = None\<rparr>\<rparr>))
   \<and> (\<forall>b :: body_source. take (MaxRequestBody + 1) (src_bytes b) = take (MaxRequestBody + 1) (src_bytes (hrq_Body rq))
      \<longrightarrow> Handler env s (rq\<lparr>hrq_Body := b\<rparr>) = Handler env s rq)
   \<and> (hrq_Path rq = ''/ca-public-key'' \<longrightarrow> Handler env s rq = Some (handleCAPub env rq, s))
   \<and> (hrq_Path rq \<notin> {''/sign'', ''/ca-public-key''} \<longrightarrow> Handler env s rq = None)"
proof (intro conjI allI impI)
  fix b :: body_source assume "take (MaxRequestBody + 1) (src_bytes b) = take (MaxRequestBody + 1) (src_bytes (hrq_Body rq))"
  then have "fst (read_limited (MaxRequestBody + 1) b) = fst (read_limited (MaxRequestBody + 1) (hrq_Body rq))"
    by (simp only: read_limited_def fst_conv)
  then have "handleSign env s (rq\<lparr>hrq_Body := b\<rparr>) = handleSign env s rq"
    by (simp add: handleSign_def)
  then show "Handler env s (rq\<lparr>hrq_Body := b\<rparr>) = Handler env s rq"
    by (simp add: Handler_def handleCAPub_def)
qed (simp_all add: handler_routes sign_reply_def handleCAPub_def)

text \<open>The demo request with a body that is cut off after its last byte gets its certificate.\<close>

lemma handler_serves_two_routes_demo:
  "map_option (\<lambda>(reply, s). hrp_Status reply)
     (Handler demo_env demo_state \<lparr>hrq_Method = ''POST'', hrq_Path = ''/sign'', hrq_Authorization = demo_auth,
        hrq_Body = \<lparr>src_bytes = demo_body, src_error = Some ''unexpected EOF''\<rparr>\<rparr>) = Some 200"
proof -
  let ?rq = "\<lambda>e. \<lparr>hrq_Method = ''POST'', hrq_Path = ''/sign'', hrq_Authorization = demo_auth,
      hrq_Body = \<lparr>src_bytes = demo_body, src_error = e\<rparr>\<rparr>"
  have path: "hrq_Path (?rq e) = ''/sign''" and body: "hrq_Body (?rq e) = \<lparr>src_bytes = demo_body, src_error = e\<rparr>" for e
    by (simp_all only: http_request.simps)
  note served = handler_serves_two_routes [of "?rq e" demo_env demo_state for e, unfolded path body body_source.simps]
  have "Handler demo_env demo_state (?rq (Some ''unexpected EOF'')) = Handler demo_env demo_state (?rq None)"
    using served(1) [THEN conjunct2, THEN conjunct1, THEN spec, THEN mp, of "Some ''unexpected EOF''" "''unexpected EOF''"]
    by (simp only: http_request.simps simp_thms)
  also have "\<dots> = sign_reply demo_env demo_state (?rq None) demo_body"
    using served(1) [THEN conjunct1, THEN mp, of None] by (simp only: simp_thms)
  finally show ?thesis
    using demo_sign by (auto simp: sign_reply_def split: prod.split)
qed

text \<open>A disabled policy stops issuance before anything of the request is looked at: the
  answer is 503, or 405 for a wrong method, and neither the verifier nor the clock is
  used.\<close>

theorem disabled_stops_issuance:
  assumes "pol_Disabled (st_policy s)"
  shows "rsp_Status (fst (Sign env s meth authHeader body)) = (if meth = ''POST'' then 503 else 405)
    \<and> st_verifier (snd (Sign env s meth authHeader body)) = st_verifier s
    \<and> st_tick (snd (Sign env s meth authHeader body)) = st_tick s"
  using assms
  by (simp add: Sign_def sign_with_def sign_pipeline_def check_request_def deny_def newRequestID_def)

lemma disabled_stops_issuance_demo:
  "rsp_Status (fst (Sign demo_env (SetPolicy (demo_policy\<lparr>pol_Disabled := True\<rparr>) demo_state)
     ''POST'' demo_auth demo_body)) = 503"
  using disabled_stops_issuance [of "SetPolicy (demo_policy\<lparr>pol_Disabled := True\<rparr>) demo_state" demo_env
      "''POST''" demo_auth demo_body]
  by (simp add: SetPolicy_def)

text \<open>The bearer token is what follows the scheme and one blank, and only a header with
  exactly that scheme and at least one byte behind it carries one.\<close>

theorem bearer_token_iff:
  "bearerToken h = Some tok \<longleftrightarrow> h = ''Bearer '' @ tok \<and> tok \<noteq> []"
  by (auto simp: bearerToken_def HasPrefix_def prefix_def)

section \<open>Exactly which requests get a certificate\<close>

text \<open>The randomness for the serial is there, and the signer signs.\<close>

definition issuable ::
  "('pk, 'sk, 'vs) server_env \<Rightarrow> 'vs server_state \<Rightarrow> Rule \<Rightarrow> string \<Rightarrow> 'pk \<Rightarrow> bool" where
  "issuable env s r keyID pub \<longleftrightarrow>
     (\<exists>serial cert. randomSerial (sv_rand env) (st_rand s + 1) = Some serial
        \<and> sv_sign env (st_rand s + 2) (unsigned_cert serial
             (cert_request (st_policy s) r pub keyID (sv_clock env (st_tick s)))) = Inr cert)"

lemma issue_cert_Inr:
  "(\<exists>out s'. issue_cert env pol r keyID pub ca s = (Inr out, s')) \<longleftrightarrow>
     (\<exists>serial cert. randomSerial (sv_rand env) (st_rand s) = Some serial
        \<and> sv_sign env (Suc (st_rand s)) (unsigned_cert serial
             (cert_request pol r pub keyID (sv_clock env (st_tick s)))) = Inr cert)"
  by (auto simp: issue_cert_def Let_def Issue_def rbind_Inr_iff wrap_err_iff rbind_def wrap_err_def
      split: option.splits sum.splits)

lemma newRequestID_counters [simp]:
  "st_rand (snd (newRequestID env s)) = st_rand s + 1" "st_tick (snd (newRequestID env s)) = st_tick s"
  by (simp_all add: newRequestID_def)

lemma sign_pipeline_Inr_iff:
  "(\<exists>out attrs s'. sign_pipeline env pol m a b s = (Inr (out, attrs), s')) \<longleftrightarrow>
    (\<exists>pub i s2 r keyID. check_request (sv_lib env) pol m b = Inr pub
       \<and> authenticate env pol a (key_attrs (sv_lib env) pub) s = (Inr i, s2)
       \<and> authorize pol i (key_attrs (sv_lib env) pub @ identityAttrs i) = Inr (r, keyID)
       \<and> (\<exists>out s'. issue_cert env pol r keyID pub (key_attrs (sv_lib env) pub @ identityAttrs i) s2
              = (Inr out, s')))"
  by (auto simp: sign_pipeline_def Let_def split: sum.splits prod.splits)

lemma Sign_200_iff:
  "rsp_Status (fst (Sign env s m a b)) = 200 \<longleftrightarrow>
    (\<exists>out attrs s'. sign_pipeline env (st_policy s) m a b (snd (newRequestID env s)) = (Inr (out, attrs), s'))"
proof -
  obtain rid s0 where n: "newRequestID env s = (rid, s0)" by (cases "newRequestID env s")
  show ?thesis
  proof (cases "sign_pipeline env (st_policy s) m a b s0")
    case (Pair x s1)
    with n sign_pipeline_status [of env "st_policy s" m a b s0 _ s1] status_table_not_200 show ?thesis
      by (cases x) (auto simp: Sign_def sign_with_def deny_def)
  qed
qed

lemma fst_Inr_iff: "fst p = x \<longleftrightarrow> (\<exists>v. p = (x, v))"
  by (cases p) simp

lemma issue_after_authenticate:
  assumes "authenticate env (st_policy s) a ka (snd (newRequestID env s)) = (x, s2)"
  shows "(\<exists>out s'. issue_cert env (st_policy s) r keyID pub ca s2 = (Inr out, s')) \<longleftrightarrow> issuable env s r keyID pub"
  using authenticate_frame [OF assms] by (simp add: issue_cert_Inr issuable_def)

text \<open>C6: The decision of the server, both ways: \<open>Sign\<close> answers 200 exactly when the request
  is acceptable to the active policy, its token verifies for the policy's issuers, exactly one
  enabled rule matches and its Key ID expands, and the CA can sign.\<close>

theorem sign_issues_iff:
  "rsp_Status (fst (Sign env s meth authHeader body)) = 200 \<longleftrightarrow>
    (\<exists>pub tok i r keyID. acceptable (sv_lib env) (st_policy s) meth body pub
       \<and> bearerToken authHeader = Some tok
       \<and> fst (sv_verify env (st_verifier s) tok (Issuers (st_policy s))) = Inr i
       \<and> granted (st_policy s) i r keyID \<and> issuable env s r keyID pub)"
proof -
  let ?pol = "st_policy s" and ?s0 = "snd (newRequestID env s)"
  have auth: "authorize ?pol i ca = Inr (r, keyID) \<longleftrightarrow> granted ?pol i r keyID"
    if "acceptable (sv_lib env) ?pol meth body pub" for pub i ca r keyID
    using that authorize_iff [of ?pol] by (simp add: acceptable_def)
  have "rsp_Status (fst (Sign env s meth authHeader body)) = 200 \<longleftrightarrow>
    (\<exists>pub i s2 r keyID. check_request (sv_lib env) ?pol meth body = Inr pub
       \<and> authenticate env ?pol authHeader (key_attrs (sv_lib env) pub) ?s0 = (Inr i, s2)
       \<and> authorize ?pol i (key_attrs (sv_lib env) pub @ identityAttrs i) = Inr (r, keyID)
       \<and> issuable env s r keyID pub)"
    unfolding Sign_200_iff sign_pipeline_Inr_iff
    by (simp add: issue_after_authenticate cong: conj_cong)
  also have "\<dots> \<longleftrightarrow> (\<exists>pub i s2 r keyID. acceptable (sv_lib env) ?pol meth body pub
       \<and> authenticate env ?pol authHeader (key_attrs (sv_lib env) pub) ?s0 = (Inr i, s2)
       \<and> granted ?pol i r keyID \<and> issuable env s r keyID pub)"
    using auth by (simp add: check_request_iff cong: conj_cong)
  also have "\<dots> \<longleftrightarrow> (\<exists>pub tok i r keyID. acceptable (sv_lib env) ?pol meth body pub
       \<and> bearerToken authHeader = Some tok
       \<and> fst (sv_verify env (st_verifier s) tok (Issuers ?pol)) = Inr i
       \<and> granted ?pol i r keyID \<and> issuable env s r keyID pub)"
    by (simp add: authenticate_iff fst_Inr_iff) blast
  finally show ?thesis .
qed

section \<open>Replies\<close>

text \<open>What is safe in a header: printable ASCII, so in particular no line break.\<close>

definition printable :: "string \<Rightarrow> bool" where
  "printable s \<longleftrightarrow> (\<forall>c \<in> set s. 0x20 \<le> byte c \<and> byte c < 0x7f)"

definition request_id_ok :: "string \<Rightarrow> bool" where
  "request_id_ok s \<longleftrightarrow> s = ''unknown'' \<or> length s = 16 \<and> set s \<subseteq> set ''0123456789abcdef''"

definition reply_ok :: "http_reply \<Rightarrow> bool" where
  "reply_ok r \<longleftrightarrow> hrp_Status r \<in> {200, 400, 401, 403, 405, 500, 503}
     \<and> distinct (map fst (hrp_Headers r)) \<and> (\<forall>(k, v) \<in> set (hrp_Headers r). printable k \<and> printable v)
     \<and> (\<exists>ct. map_of (hrp_Headers r) ''Content-Type'' = Some ct
          \<and> (ct = ''application/json'' \<and> hrp_Status r \<noteq> 200 \<or> ct = ''text/plain; charset=utf-8''))"

lemma newRequestID_ok: "request_id_ok (fst (newRequestID env s))"
  using EncodeToString_chars
  by (auto simp: newRequestID_def request_id_ok_def eight_bytes_def simp del: list.set split: option.split)

lemma request_id_printable: "request_id_ok s \<Longrightarrow> printable s"
  unfolding request_id_ok_def
proof (elim disjE conjE)
  assume "set s \<subseteq> set ''0123456789abcdef''"
  moreover have "\<forall>c \<in> set ''0123456789abcdef''. 0x20 \<le> byte c \<and> byte c < 0x7f" by simp
  ultimately show ?thesis unfolding printable_def by blast
qed (simp add: printable_def)

lemma status_table_codes: "(st, rs) \<in> status_table \<Longrightarrow> st \<in> {400, 401, 403, 405, 500, 503}"
  by (auto simp: status_table_def simp del: reason_code.simps)

lemma Sign_type:
  assumes "Sign env s m a b = (resp, s')"
  shows "rsp_RequestID resp = fst (newRequestID env s)"
    and "if rsp_Status resp = 200 then rsp_ContentType resp = ''text/plain; charset=utf-8''
      else rsp_ContentType resp = ''application/json'' \<and> rsp_Status resp \<in> {400, 401, 403, 405, 500, 503}"
proof -
  note run = assms [unfolded Sign_def]
  show "rsp_RequestID resp = fst (newRequestID env s)" by (rule sign_with_request_id [OF run])
  obtain e where "rsp_Status resp = 200 \<or> (\<exists>rs. (rsp_Status resp, rs) \<in> status_table)"
    using run by (rule sign_with_audit) blast+
  moreover have "rsp_ContentType resp = ''text/plain; charset=utf-8''" if ok: "rsp_Status resp = 200"
  proof -
    obtain rid s0 where n: "newRequestID env s = (rid, s0)" by (cases "newRequestID env s")
    from sign_with_200 [OF run ok n] run n show ?thesis
      by (cases resp) (auto simp: sign_with_def)
  qed
  ultimately show "if rsp_Status resp = 200 then rsp_ContentType resp = ''text/plain; charset=utf-8''
      else rsp_ContentType resp = ''application/json'' \<and> rsp_Status resp \<in> {400, 401, 403, 405, 500, 503}"
    using status_table_codes sign_with_denied_body [OF run] by auto
qed

text \<open>C28: Every reply of the two handlers is well formed: one of seven statuses, headers
  with distinct names and printable values, so that nothing of a request can break out of a
  header, JSON only on a denial, and from \<open>/sign\<close> a request id of 16 hex digits, or the word
  \<open>unknown\<close> when there was no randomness.\<close>

theorem replies_well_formed:
  assumes "Handler env s rq = Some (reply, s')"
  shows "reply_ok reply \<and> (hrq_Path rq = ''/sign'' \<longrightarrow>
    (\<exists>rid. map_of (hrp_Headers reply) ''X-Request-Id'' = Some rid \<and> request_id_ok rid))"
proof (cases "hrq_Path rq = ''/sign''")
  case True
  obtain resp s1 where run: "Sign env s (hrq_Method rq) (hrq_Authorization rq) (src_bytes (hrq_Body rq)) = (resp, s1)"
    by (cases "Sign env s (hrq_Method rq) (hrq_Authorization rq) (src_bytes (hrq_Body rq))")
  with assms True have reply: "reply = \<lparr>hrp_Status = rsp_Status resp,
      hrp_Headers = [(''Content-Type'', rsp_ContentType resp), (''X-Request-Id'', rsp_RequestID resp)],
      hrp_Body = rsp_Body resp\<rparr>"
    by (simp add: handler_routes)
  have "request_id_ok (rsp_RequestID resp)" using newRequestID_ok Sign_type(1) [OF run] by metis
  moreover have "printable (rsp_ContentType resp)" "printable ''Content-Type''" "printable ''X-Request-Id''"
    using Sign_type(2) [OF run] by (auto simp: printable_def split: if_split_asm)
  ultimately show ?thesis
    using Sign_type(2) [OF run] request_id_printable by (auto simp: reply reply_ok_def split: if_split_asm)
next
  case False
  with assms show ?thesis
    by (auto simp: Handler_def handleCAPub_def reply_ok_def printable_def split: if_split_asm)
qed

lemma replies_well_formed_demo:
  "\<exists>reply. Handler demo_env demo_state \<lparr>hrq_Method = ''GET'', hrq_Path = ''/ca-public-key'',
      hrq_Authorization = [], hrq_Body = \<lparr>src_bytes = [], src_error = None\<rparr>\<rparr> = Some (reply, demo_state)
    \<and> reply_ok reply"
proof -
  let ?rq = "\<lparr>hrq_Method = ''GET'', hrq_Path = ''/ca-public-key'', hrq_Authorization = [],
      hrq_Body = \<lparr>src_bytes = [], src_error = None\<rparr>\<rparr>"
  have "Handler demo_env demo_state ?rq = Some (handleCAPub demo_env ?rq, demo_state)"
    by (simp add: Handler_def)
  with replies_well_formed [OF this] show ?thesis by blast
qed

section \<open>The lines of the log\<close>

lemma line_json_request_id:
  assumes "ev_attrs e = (''event'', x) # (''request_id'', AttrString rid) # attrs"
    and "\<forall>c \<in> set rid. byte c < 0x80"
  shows "map_of (line_json err ts e) ''request_id'' = Some (JStr rid)"
  using assms by (simp add: line_json_def repair_ascii)

lemma request_event:
  assumes "Sign env s m a b = (resp, s')"
  obtains e x attrs where "st_audit s' = st_audit s @ [e]"
    and "ev_msg e = (if rsp_Status resp = 200 then EventIssued else EventDenied)"
    and "ev_attrs e = (''event'', x) # (''request_id'', AttrString (rsp_RequestID resp)) # attrs"
proof -
  note run = assms [unfolded Sign_def]
  obtain e where e: "st_audit s' = st_audit s @ [e]"
    "ev_msg e = (if rsp_Status resp = 200 then EventIssued else EventDenied)"
    by (rule sign_with_audit [OF run]) auto
  have "\<exists>x attrs. ev_attrs (last (st_audit s'))
      = (''event'', x) # (''request_id'', AttrString (rsp_RequestID resp)) # attrs"
    using run
    by (auto simp: sign_with_def deny_def Denied_def Issued_def log_event_def
        split: prod.splits sum.splits)
  with e that show thesis by auto
qed

text \<open>C30: A request cannot forge or break a line of the log.  Whatever its method, header,
  body and claims hold, \<open>Sign\<close> appends one event whose line has one line break, at its end;
  parsing the line as JSON gives back the members of the event, every text as the valid UTF-8
  it stands for, among them the event's name and the request id of the response.\<close>

theorem audit_line_decodes:
  assumes "\<forall>c \<in> set ts. plain_char c" and "Sign env s meth authHeader body = (resp, s')"
  shows "\<exists>e line. st_audit s' = st_audit s @ [e]
    \<and> log_line err ts e = line @ [CHR 0x0A] \<and> CHR 0x0A \<notin> set line
    \<and> parse_json (log_line err ts e) = Some (JObj (line_json err ts e))
    \<and> map_of (line_json err ts e) ''msg''
        = Some (JStr (if rsp_Status resp = 200 then EventIssued else EventDenied))
    \<and> map_of (line_json err ts e) ''request_id'' = Some (JStr (rsp_RequestID resp))"
proof -
  obtain e x attrs where e: "st_audit s' = st_audit s @ [e]"
    "ev_msg e = (if rsp_Status resp = 200 then EventIssued else EventDenied)"
    "ev_attrs e = (''event'', x) # (''request_id'', AttrString (rsp_RequestID resp)) # attrs"
    by (rule request_event [OF assms(2)])
  have "\<forall>c \<in> set (rsp_RequestID resp). byte c < 0x80"
    using newRequestID_chars [of env s] Sign_type(1) [OF assms(2)] by (auto simp: plain_char_def)
  from line_json_request_id [OF e(3) this]
  have "map_of (line_json err ts e) ''request_id'' = Some (JStr (rsp_RequestID resp))" .
  moreover have "repair (ev_msg e) = (if rsp_Status resp = 200 then EventIssued else EventDenied)"
    using e(2) by (simp add: EventIssued_def EventDenied_def repair_ascii)
  then have "map_of (line_json err ts e) ''msg''
      = Some (JStr (if rsp_Status resp = 200 then EventIssued else EventDenied))"
    by (simp add: line_json_def)
  moreover obtain line where "log_line err ts e = line @ [CHR 0x0A]" "CHR 0x0A \<notin> set line"
    using log_line_one_line [OF assms(1)] by blast
  ultimately show ?thesis
    using e(1) log_line_parses [OF assms(1), of err e] by (intro exI [of _ e] exI [of _ line] conjI)
qed

lemma audit_line_decodes_demo:
  "\<exists>resp s' e. Sign demo_env demo_state [CHR ''X'', CHR 0x0A, CHR 0x22] [] [] = (resp, s')
     \<and> st_audit s' = st_audit demo_state @ [e]
     \<and> parse_json (log_line (\<lambda>d. [CHR 0x0A]) ''2025-01-01T00:00:00Z'' e)
         = Some (JObj (line_json (\<lambda>d. [CHR 0x0A]) ''2025-01-01T00:00:00Z'' e))"
proof -
  obtain resp s' where r: "Sign demo_env demo_state [CHR ''X'', CHR 0x0A, CHR 0x22] [] [] = (resp, s')"
    by (cases "Sign demo_env demo_state [CHR ''X'', CHR 0x0A, CHR 0x22] [] []")
  have "\<forall>c \<in> set ''2025-01-01T00:00:00Z''. plain_char c" by (simp add: plain_char_def)
  from audit_line_decodes [OF this r, of "\<lambda>d. [CHR 0x0A]"] r show ?thesis by auto
qed

end
