(* ===== verification/ProcessClaims.thy ===== *)
theory ProcessClaims
  imports Demo
begin

text \<open>
  The properties of a serving process: its requests finish, and it ends only after them.
\<close>

section \<open>Requests finish\<close>

text \<open>A request is never stuck: however the steps of requests and the reloads
  interleave, it takes at most three steps of its own, as long as it is not answered its next
  step is possible, and from any moment on at most three more steps of it answer it.\<close>

theorem request_completes:
  assumes "sys_threads \<sigma> t = Some (rq, ph)" and "sys_run env yaml path \<sigma> es \<sigma>'"
  shows "length (filter (\<lambda>ev. ev = Run t) es) \<le> 3
    \<and> (answered t \<sigma>' \<or> (\<exists>\<sigma>''. sys_step env yaml path \<sigma>' (Run t) \<sigma>''))
    \<and> (\<exists>n \<sigma>''. n \<le> 3 \<and> sys_run env yaml path \<sigma> (es @ replicate n (Run t)) \<sigma>'' \<and> answered t \<sigma>'')"
proof -
  have here: "in_phase t rq \<sigma>" using assms(1) by (simp add: in_phase_def)
  from sys_run_left [OF assms(2) here] have there: "in_phase t rq \<sigma>'"
    and "length (filter (\<lambda>ev. ev = Run t) es) \<le> 3"
    using thread_left_bound [of t \<sigma>] by linarith+
  moreover have "answered t \<sigma>' \<or> (\<exists>\<sigma>''. sys_step env yaml path \<sigma>' (Run t) \<sigma>'')"
    using run_possible [OF there] by blast
  moreover obtain ls \<sigma>'' where own: "steps (own_step env yaml path t) \<sigma>' ls \<sigma>''" and "answered t \<sigma>''"
    using one_request.reaches_goal [OF there] by blast
  moreover have "length ls \<le> 3" using one_request.work_steps [OF own there] thread_left_bound [of t \<sigma>'] by linarith
  ultimately show ?thesis using own_steps_run [OF own assms(2)] by blast
qed

lemma request_completes_demo:
  "\<exists>(\<sigma> :: (string, string verifier_state) sys). sys_threads \<sigma> 0 = Some (demo_request, Received ''unknown'')
     \<and> (\<exists>n \<sigma>''. n \<le> 3 \<and> sys_run demo_env demo_yaml ''policy.yaml'' \<sigma> (replicate n (Run 0)) \<sigma>'' \<and> answered 0 \<sigma>'')"
proof -
  define \<sigma> :: "(string, string verifier_state) sys" where
    "\<sigma> = \<lparr>sys_server = demo_state, sys_threads = [0 \<mapsto> (demo_request, Received ''unknown'')]\<rparr>"
  have t: "sys_threads \<sigma> 0 = Some (demo_request, Received ''unknown'')" by (simp add: \<sigma>_def)
  from request_completes [OF t run_none, of demo_env demo_yaml "''policy.yaml''"] t show ?thesis by auto
qed

section \<open>The end of the process\<close>

text \<open>The process exits without an error only after a signal to stop that it logged, and
  when every request that had arrived is answered and logged; and once the signal has come it
  can always reach that end by running the requests that are left.\<close>

theorem graceful_shutdown:
  assumes "cmdServe_start lib sys read yaml fl = Inr (m, s)"
    and "steps (proc_step env yaml (flg_config fl)) (proc_init s) es \<pi>"
  shows "(pr_phase \<pi> = Exited None \<longrightarrow>
      stop_logged (st_audit (sys_server (pr_sys \<pi>)))
      \<and> (\<forall>t rq ph. sys_threads (pr_sys \<pi>) t = Some (rq, ph) \<longrightarrow>
          (\<exists>resp. ph = Done resp \<and> (\<exists>e \<in> set (st_audit (sys_server (pr_sys \<pi>))). event_for resp e))))
    \<and> (pr_phase \<pi> = Draining \<longrightarrow>
      (\<exists>ts \<pi>'. steps (proc_step env yaml (flg_config fl)) \<pi> (map (\<lambda>t. Serve (Run t)) ts @ [Drained]) \<pi>'
        \<and> pr_phase \<pi>' = Exited None))"
proof -
  have ok: "proc_inv \<pi>"
    by (rule proc_steps_inv [OF assms(2) proc_init_inv [OF startup_log_quiet [OF assms(1)]]])
  have fin: "finite_threads (pr_sys \<pi>)"
    using proc_steps_finite [OF assms(2)] by (simp add: finite_threads_def sys_init_def)
  have "\<exists>resp. ph = Done resp \<and> (\<exists>e \<in> set (st_audit (sys_server (pr_sys \<pi>))). event_for resp e)"
    if "pr_phase \<pi> = Exited None" "sys_threads (pr_sys \<pi>) t = Some (rq, ph)" for t rq ph
  proof -
    have "is_Done ph" using ok that unfolding proc_inv_def all_answered_def by blast
    with ok that show ?thesis unfolding proc_inv_def logged_def by (fastforce simp: is_Done_iff)
  qed
  with ok drains [OF _ fin] show ?thesis unfolding proc_inv_def by blast
qed

lemma graceful_shutdown_demo:
  "\<exists>(\<pi> :: (string, string verifier_state) process) resp.
     pr_phase \<pi> = Exited None \<and> sys_threads (pr_sys \<pi>) 0 = Some (demo_request, Done resp)
     \<and> (\<exists>e \<in> set (st_audit (sys_server (pr_sys \<pi>))). event_for resp e)"
proof -
  obtain log \<sigma> resp where st: "cmdServe_start demo_lib demo_os demo_read demo_yaml demo_flags
      = Inr (NewMemorySigner ''ca'', New demo_policy NewRemoteVerifier log :: string verifier_state server_state)"
    and run: "sys_run demo_env demo_yaml ''policy.yaml'' (sys_init (New demo_policy NewRemoteVerifier log))
        [Arrive 0 demo_request, Run 0, Run 0, Run 0] \<sigma>"
    and d: "sys_threads \<sigma> 0 = Some (demo_request, Done resp)"
    by (rule demo_run)
  have threads: "sys_threads \<sigma> t = None" if "t \<noteq> 0" for t
    using that sys_run_threads [OF run, of t] by (cases "sys_threads \<sigma> t") (auto simp: sys_init_def)
  let ?\<pi> = "\<lparr>pr_sys = \<sigma>, pr_phase = Serving\<rparr>"
  let ?\<pi>1 = "?\<pi>\<lparr>pr_sys := log_shutdown ''interrupt'' \<sigma>, pr_phase := Draining\<rparr>"
  have "all_answered \<sigma>" using d threads unfolding all_answered_def
    by (metis is_Done.simps(1) option.distinct(1) option.inject prod.inject)
  then have "all_answered (log_shutdown ''interrupt'' \<sigma>)" by (simp add: all_answered_def)
  note run1 = sys_run_proc [OF run, of Serving, folded proc_init_def, simplified]
  have "proc_step demo_env demo_yaml ''policy.yaml'' ?\<pi> (StopSignal ''interrupt'') ?\<pi>1"
    using proc_step.stop_signal [of ?\<pi> "''interrupt''" demo_env demo_yaml "''policy.yaml''"]
    by (simp add: stop_signals_def)
  moreover have "proc_step demo_env demo_yaml ''policy.yaml'' ?\<pi>1 Drained (?\<pi>1\<lparr>pr_phase := Exited None\<rparr>)"
    using \<open>all_answered (log_shutdown ''interrupt'' \<sigma>)\<close>
    by (intro proc_step.drained) simp_all
  ultimately have end_run: "steps (proc_step demo_env demo_yaml (flg_config demo_flags))
      (proc_init (New demo_policy NewRemoteVerifier log))
      (map Serve [Arrive 0 demo_request, Run 0, Run 0, Run 0] @ [StopSignal ''interrupt''] @ [Drained])
      (?\<pi>1\<lparr>pr_phase := Exited None\<rparr>)"
    using steps_snoc [OF steps_snoc [OF run1]] by (simp add: demo_flags_def)
  from graceful_shutdown [OF st end_run] d show ?thesis
    by (intro exI [of _ "?\<pi>1\<lparr>pr_phase := Exited None\<rparr>"] exI [of _ resp]) auto
qed

end
