(* ===== verification/ReloadLoop.thy ===== *)
theory ReloadLoop
  imports System
begin

text \<open>
  The goroutine of \<open>cmd/oidc-ssh-ca/serve.go\<close> that reloads the policy, at its own pace:
  \<open>signal.Notify\<close> puts a \<open>SIGHUP\<close> into a channel of capacity one and drops it when the
  channel is full, and the loop takes it out, reads the file, stores the policy and writes to
  the log, in separate steps.  Without interruption the steps are \<open>reload\<close>; and although
  signals may be dropped, the last change of the file is never missed.
\<close>

section \<open>The loop\<close>

text \<open>Where the loop is: waiting for a signal, about to load the file, about to log a failure,
  about to store the policy, about to log the success.\<close>

datatype loop_point =
    AwaitSignal | LoadFile | LogFailure load_error | StorePolicy Policy | LogReloaded Policy

record hup_loop =
  hl_pending :: bool
  hl_point :: loop_point

definition loop_init :: hup_loop where
  "loop_init = \<lparr>hl_pending = False, hl_point = AwaitSignal\<rparr>"

text \<open>The runtime delivers the signal.\<close>

definition notify :: "hup_loop \<Rightarrow> hup_loop" where
  "notify l = l\<lparr>hl_pending := True\<rparr>"

text \<open>The next statement of the loop; \<open>None\<close> when it waits for a signal.\<close>

definition loop_turn ::
  "read_file \<Rightarrow> yaml_lib \<Rightarrow> string \<Rightarrow> hup_loop \<Rightarrow> 'vs server_state
   \<Rightarrow> (hup_loop \<times> 'vs server_state) option" where
  "loop_turn read yaml path l s =
     (case hl_point l of
        AwaitSignal \<Rightarrow>
          if hl_pending l then Some (\<lparr>hl_pending = False, hl_point = LoadFile\<rparr>, s) else None
      | LoadFile \<Rightarrow>
          Some (l\<lparr>hl_point := (case Load read yaml path of Inl e \<Rightarrow> LogFailure e | Inr p \<Rightarrow> StorePolicy p)\<rparr>, s)
      | LogFailure e \<Rightarrow>
          Some (l\<lparr>hl_point := AwaitSignal\<rparr>,
            s\<lparr>st_audit := log_error ''policy reload failed; keeping current policy''
              [(''error'', AttrDetail (ReloadFailed e))] (st_audit s)\<rparr>)
      | StorePolicy p \<Rightarrow> Some (l\<lparr>hl_point := LogReloaded p\<rparr>, SetPolicy p s)
      | LogReloaded p \<Rightarrow>
          Some (l\<lparr>hl_point := AwaitSignal\<rparr>,
            s\<lparr>st_audit := log_info ''policy reloaded''
              [(''rules'', AttrInt (go_len (pol_Rules p))),
               (''disabled'', AttrBool (pol_Disabled p))] (st_audit s)\<rparr>))"

text \<open>The steps of one round, nothing in between.\<close>

fun loop_turns ::
  "nat \<Rightarrow> read_file \<Rightarrow> yaml_lib \<Rightarrow> string \<Rightarrow> hup_loop \<Rightarrow> 'vs server_state
   \<Rightarrow> (hup_loop \<times> 'vs server_state) option" where
  "loop_turns 0 read yaml path l s = Some (l, s)"
| "loop_turns (Suc n) read yaml path l s =
     (case loop_turn read yaml path l s of
        None \<Rightarrow> None
      | Some (l', s') \<Rightarrow> loop_turns n read yaml path l' s')"

lemma loop_turns_reload:
  "loop_turns (case Load read yaml path of Inl e \<Rightarrow> 3 | Inr p \<Rightarrow> 4) read yaml path (notify loop_init) s
     = Some (loop_init, reload read yaml path s)"
  by (simp add: numeral_eq_Suc loop_turn_def loop_init_def notify_def reload_def Let_def SetPolicy_def
      split: sum.split)

section \<open>What a step does to the server\<close>

text \<open>The policies of the loop came from \<open>Load\<close>.\<close>

fun loop_ok :: "loop_point \<Rightarrow> bool" where
  "loop_ok (StorePolicy p) = policy_ok p"
| "loop_ok (LogReloaded p) = policy_ok p"
| "loop_ok pt = True"

lemma loop_turn_server:
  assumes "loop_turn read yaml path l s = Some (l', s')"
  shows "st_verifier s' = st_verifier s"
    and "st_policy s' = (case hl_point l of StorePolicy p \<Rightarrow> p | _ \<Rightarrow> st_policy s)"
    and "\<exists>es. st_audit s' = st_audit s @ es \<and> (\<forall>e \<in> set es. \<not> is_request_event e)"
  using assms
  by (auto simp: loop_turn_def SetPolicy_def log_error_def log_info_def log_event_def is_request_event_def
      EventIssued_def EventDenied_def split: loop_point.splits if_split_asm)

lemma loop_turn_ok:
  assumes "loop_turn read yaml path l s = Some (l', s')" and "loop_ok (hl_point l)" and "policy_ok (st_policy s)"
  shows "loop_ok (hl_point l') \<and> policy_ok (st_policy s')"
  using assms Load_policy_ok [of read yaml path]
  by (auto simp: loop_turn_def SetPolicy_def split: loop_point.splits if_split_asm sum.split)

section \<open>No change is missed\<close>

text \<open>After a signal, as long as the file holds the policy \<open>p\<close>: the loop has yet to read the
  file, or has read \<open>p\<close>, or has stored it.\<close>

definition catching_up :: "Policy \<Rightarrow> hup_loop \<Rightarrow> Policy \<Rightarrow> bool" where
  "catching_up p l active \<longleftrightarrow>
     hl_pending l \<or> hl_point l = LoadFile \<or> hl_point l = StorePolicy p
     \<or> active = p \<and> (hl_point l = AwaitSignal \<or> hl_point l = LogReloaded p)"

lemma notify_catching_up: "catching_up p (notify l) active"
  by (simp add: catching_up_def notify_def)

lemma loop_turn_catching_up:
  assumes "loop_turn read yaml path l s = Some (l', s')" and "catching_up p l (st_policy s)"
    and "Load read yaml path = Inr p"
  shows "catching_up p l' (st_policy s')"
  using assms
  by (cases "hl_point l") (auto simp: loop_turn_def catching_up_def SetPolicy_def split: if_split_asm)

definition loop_quiet :: "hup_loop \<Rightarrow> bool" where
  "loop_quiet l \<longleftrightarrow> \<not> hl_pending l \<and> hl_point l = AwaitSignal"

lemma caught_up: "catching_up p l active \<Longrightarrow> loop_quiet l \<Longrightarrow> active = p"
  by (simp add: catching_up_def loop_quiet_def)

text \<open>The loop gets there: each of its steps brings it nearer to the end of the round, and
  unless it is quiet the next one is possible.\<close>

fun point_left :: "loop_point \<Rightarrow> nat" where
  "point_left AwaitSignal = 0"
| "point_left LoadFile = 3"
| "point_left (LogFailure e) = 1"
| "point_left (StorePolicy p) = 2"
| "point_left (LogReloaded p) = 1"

definition loop_left :: "hup_loop \<Rightarrow> nat" where
  "loop_left l = (if hl_pending l then 4 else 0) + point_left (hl_point l)"

lemma loop_left_bound: "loop_left l \<le> 7"
  by (cases "hl_point l") (simp_all add: loop_left_def)

lemma loop_turn_left: "loop_turn read yaml path l s = Some (l', s') \<Longrightarrow> loop_left l' < loop_left l"
  by (auto simp: loop_turn_def loop_left_def split: loop_point.splits if_split_asm sum.split)

lemma loop_turn_possible: "\<not> loop_quiet l \<Longrightarrow> \<exists>l' s'. loop_turn read yaml path l s = Some (l', s')"
  by (auto simp: loop_turn_def loop_quiet_def split: loop_point.splits)

end
