(* ===== verification/Concurrent.thy ===== *)
theory Concurrent
  imports Process ReloadLoop ProviderProgress ProviderRefine
begin

text \<open>
  The whole process of \<open>cmdServe\<close> after startup, in steps that touch shared state at most
  once: every request in its goroutine, from the drawing of its request id through the steps
  of \<open>provider\<close> with their locks to the audit event and the answer; the reload loop; the
  listener, the signals and the shutdown.  Between any two steps of one goroutine those of
  all others may come.  \<open>go\<close> is the next step of a request, \<open>live_step\<close> the process.
\<close>

section \<open>The parts of \<open>Verify\<close>\<close>

text \<open>Before \<open>provider\<close> is called, between its return and the clock reading, and after it.\<close>

definition issuer_gate :: "string list \<Rightarrow> string \<Rightarrow> (verify_error, string) result" where
  "issuer_gate allowedIssuers rawToken =
     (case unverifiedIssuer rawToken of
        Inl e \<Rightarrow> Inl e
      | Inr iss \<Rightarrow> if \<not> containsString allowedIssuers iss then Inl (IssuerNotReferenced iss) else Inr iss)"

definition check_token ::
  "'p oidc_env \<Rightarrow> nat \<Rightarrow> 'p \<Rightarrow> string \<Rightarrow> (verify_error, id_token \<times> claims) result" where
  "check_token oe n p rawToken =
     (case env_verify oe n rs256_config p rawToken of
        Inl e \<Rightarrow> Inl (TokenVerification e)
      | Inr tok \<Rightarrow>
          (case tok_Claims tok of Inl e \<Rightarrow> Inl (DecodeClaims e) | Inr cs \<Rightarrow> Inr (tok, cs)))"

definition check_dates ::
  "'p oidc_env \<Rightarrow> nat \<Rightarrow> id_token \<Rightarrow> claims \<Rightarrow> (verify_error, Identity) result" where
  "check_dates oe k tok cs =
     (case checkTimeClaims (env_float_oob oe) cs (env_clock oe k) of
        Inl e \<Rightarrow> Inl (TimeClaims e)
      | Inr u \<Rightarrow> Inr \<lparr>id_Issuer = tok_Issuer tok, id_Audiences = tok_Audience tok, id_Claims = cs\<rparr>)"

lemma Verify_parts:
  "Verify oe s rawToken allowed =
    (case issuer_gate allowed rawToken of
       Inl e \<Rightarrow> (Inl e, s)
     | Inr iss \<Rightarrow>
         (case provider oe iss s of
            (Inl e, s1) \<Rightarrow> (Inl (DiscoveryFailed iss e), s1)
          | (Inr p, s1) \<Rightarrow>
              (case check_token oe (vs_net s1) p rawToken of
                 Inl e \<Rightarrow> (Inl e, s1\<lparr>vs_net := vs_net s1 + 1\<rparr>)
               | Inr (tok, cs) \<Rightarrow>
                   (check_dates oe (vs_tick s1) tok cs, s1\<lparr>vs_net := vs_net s1 + 1, vs_tick := vs_tick s1 + 1\<rparr>))))"
  by (simp add: Verify_def issuer_gate_def check_token_def check_dates_def Let_def use_net_def read_clock_def
      split: sum.split prod.split)

section \<open>State\<close>

text \<open>Where a request is, with the local variables that are live there.\<close>

datatype ('pk, 'p) point =
    Entered
  | Named string
  | Fetching string Policy 'pk string string
  | Verifying string Policy 'pk string 'p
  | Dating string Policy 'pk id_token claims
  | Granting string Policy 'pk Identity Rule string
  | Denying string denial
  | Issuing string string "detail attrs"
  | Answered Response

text \<open>\<open>lv_active\<close> is what \<open>http.Server\<close> keeps for its \<open>Shutdown\<close>: the requests whose connection
  is not idle.  A connection becomes active when its request arrives, and idle at some time after the
  handler has returned; \<open>Shutdown\<close> returns nil when none is active.\<close>

record ('pk, 'p) live =
  lv_server :: "'p pool server_state"
  lv_loop :: hup_loop
  lv_threads :: "nat \<Rightarrow> (sign_request \<times> ('pk, 'p) point) option"
  lv_active :: "nat set"
  lv_phase :: proc_phase

text \<open>From what startup leaves; no call has been made to the verifier.\<close>

definition live_init :: "'vs server_state \<Rightarrow> ('pk, 'p) live" where
  "live_init s = \<lparr>lv_server = New (st_policy s) pool_init (st_audit s), lv_loop = loop_init,
     lv_threads = (\<lambda>_. None), lv_active = {}, lv_phase = Serving\<rparr>"

section \<open>The steps of a request\<close>

definition token_denied :: "detail attrs \<Rightarrow> verify_error \<Rightarrow> denial" where
  "token_denied keyAttrs e = Denial 401 reasonTokenInvalid (VerifierRejected e) keyAttrs"

text \<open>The bearer token and its issuer, from the policy alone.\<close>

definition token_gate ::
  "Policy \<Rightarrow> string \<Rightarrow> detail attrs \<Rightarrow> (denial, string \<times> string) result" where
  "token_gate pol authHeader keyAttrs =
     (case bearerToken authHeader of
        None \<Rightarrow> Inl (Denial 401 reasonMissingToken NoBearerToken keyAttrs)
      | Some rawToken \<Rightarrow>
          (case issuer_gate (Issuers pol) rawToken of
             Inl e \<Rightarrow> Inl (token_denied keyAttrs e)
           | Inr iss \<Rightarrow> Inr (rawToken, iss)))"

definition start_call :: "nat \<Rightarrow> string \<Rightarrow> 'p pool \<Rightarrow> 'p pool" where
  "start_call t iss pool = pool\<lparr>pl_calls := (pl_calls pool)(t \<mapsto> (iss, LockMap))\<rparr>"

text \<open>The steps outside \<open>provider\<close>; \<open>None\<close> inside it and after the answer.\<close>

fun go ::
  "('pk, 'sk, 'v) server_env \<Rightarrow> 'p oidc_env \<Rightarrow> nat \<Rightarrow> sign_request \<Rightarrow> ('pk, 'p) point \<Rightarrow> 'p pool server_state
   \<Rightarrow> (('pk, 'p) point \<times> 'p pool server_state) option" where
  "go env oe t rq Entered s = (let (rid, s') = newRequestID env s in Some (Named rid, s'))"
| "go env oe t rq (Named rid) s =
     Some (case check_request (sv_lib env) (st_policy s) (sr_method rq) (sr_body rq) of
        Inl d \<Rightarrow> (Denying rid d, s)
      | Inr pub \<Rightarrow>
          (case token_gate (st_policy s) (sr_auth rq) (key_attrs (sv_lib env) pub) of
             Inl d \<Rightarrow> (Denying rid d, s)
           | Inr (tok, iss) \<Rightarrow>
               (Fetching rid (st_policy s) pub tok iss,
                s\<lparr>st_verifier := start_call t iss (st_verifier s)\<rparr>)))"
| "go env oe t rq (Fetching rid pol pub tok iss) s =
     (case pl_calls (st_verifier s) t of
        Some (_, Returned (Inl e)) \<Rightarrow>
          Some (Denying rid (token_denied (key_attrs (sv_lib env) pub) (DiscoveryFailed iss e)), s)
      | Some (_, Returned (Inr p)) \<Rightarrow> Some (Verifying rid pol pub tok p, s)
      | _ \<Rightarrow> None)"
| "go env oe t rq (Verifying rid pol pub tok p) s =
     (let pool = st_verifier s; n = pl_net pool in
      Some (case check_token oe n p tok of
          Inl e \<Rightarrow> Denying rid (token_denied (key_attrs (sv_lib env) pub) e)
        | Inr (idt, cs) \<Rightarrow> Dating rid pol pub idt cs,
        s\<lparr>st_verifier := pool\<lparr>pl_net := n + 1\<rparr>\<rparr>))"
| "go env oe t rq (Dating rid pol pub idt cs) s =
     (let pool = st_verifier s; k = pl_tick pool; keyAttrs = key_attrs (sv_lib env) pub in
      Some (case check_dates oe k idt cs of
          Inl e \<Rightarrow> Denying rid (token_denied keyAttrs e)
        | Inr i \<Rightarrow>
            (case authorize pol i (keyAttrs @ identityAttrs i) of
               Inl d \<Rightarrow> Denying rid d
             | Inr (rule, keyID) \<Rightarrow> Granting rid pol pub i rule keyID),
        s\<lparr>st_verifier := pool\<lparr>pl_tick := k + 1\<rparr>\<rparr>))"
| "go env oe t rq (Granting rid pol pub i rule keyID) s =
     (let claimAttrs = key_attrs (sv_lib env) pub @ identityAttrs i in
      Some (case issue_cert env pol rule keyID pub claimAttrs s of
          (Inl d, s') \<Rightarrow> (Denying rid d, s')
        | (Inr certBytes, s') \<Rightarrow> (Issuing rid certBytes (issued_attrs pol rule keyID @ claimAttrs), s')))"
| "go env oe t rq (Denying rid d) s = (let (resp, s') = deny s rid d in Some (Answered resp, s'))"
| "go env oe t rq (Issuing rid certBytes attrs) s =
     Some (Answered \<lparr>rsp_Status = 200, rsp_ContentType = ''text/plain; charset=utf-8'',
        rsp_Body = certBytes, rsp_RequestID = rid\<rparr>,
      s\<lparr>st_audit := Issued rid attrs (st_audit s)\<rparr>)"
| "go env oe t rq (Answered resp) s = None"

section \<open>The process\<close>

datatype live_event =
    Accept nat sign_request | Go nat | ConnIdle nat | Sighup | LoopStep read_file
  | ListenerFails string | StopRequested string | ShutdownDone | ShutdownGivesUp string

definition live_running :: "('pk, 'p) live \<Rightarrow> bool" where
  "live_running \<pi> \<longleftrightarrow> lv_phase \<pi> = Serving \<or> lv_phase \<pi> = Draining"

fun is_Answered :: "('pk, 'p) point \<Rightarrow> bool" where
  "is_Answered (Answered resp) = True"
| "is_Answered pt = False"

definition live_answered :: "('pk, 'p) live \<Rightarrow> bool" where
  "live_answered \<pi> \<longleftrightarrow> (\<forall>t rq pt. lv_threads \<pi> t = Some (rq, pt) \<longrightarrow> is_Answered pt)"

definition log_stop :: "string \<Rightarrow> 'vs server_state \<Rightarrow> 'vs server_state" where
  "log_stop sig s = s\<lparr>st_audit := log_info ''shutting down'' [(''signal'', AttrString sig)] (st_audit s)\<rparr>"

inductive live_step ::
  "('pk, 'sk, 'v) server_env \<Rightarrow> 'p oidc_env \<Rightarrow> yaml_lib \<Rightarrow> string
   \<Rightarrow> ('pk, 'p) live \<Rightarrow> live_event \<Rightarrow> ('pk, 'p) live \<Rightarrow> bool"
  for env oe yaml path where
  accept: "live_running \<pi> \<Longrightarrow> lv_threads \<pi> t = None \<Longrightarrow>
    live_step env oe yaml path \<pi> (Accept t rq)
      (\<pi>\<lparr>lv_threads := (lv_threads \<pi>)(t \<mapsto> (rq, Entered)), lv_active := insert t (lv_active \<pi>)\<rparr>)"
| fetch: "live_running \<pi> \<Longrightarrow> lv_threads \<pi> t = Some (rq, Fetching rid pol pub tok iss) \<Longrightarrow>
    pool_step oe (st_verifier (lv_server \<pi>)) (Move t) pool' \<Longrightarrow>
    live_step env oe yaml path \<pi> (Go t) (\<pi>\<lparr>lv_server := (lv_server \<pi>)\<lparr>st_verifier := pool'\<rparr>\<rparr>)"
| own: "live_running \<pi> \<Longrightarrow> lv_threads \<pi> t = Some (rq, pt) \<Longrightarrow>
    go env oe t rq pt (lv_server \<pi>) = Some (pt', s') \<Longrightarrow>
    live_step env oe yaml path \<pi> (Go t)
      (\<pi>\<lparr>lv_server := s', lv_threads := (lv_threads \<pi>)(t \<mapsto> (rq, pt'))\<rparr>)"
| conn_idle: "live_running \<pi> \<Longrightarrow> lv_threads \<pi> t = Some (rq, Answered resp) \<Longrightarrow> t \<in> lv_active \<pi> \<Longrightarrow>
    live_step env oe yaml path \<pi> (ConnIdle t) (\<pi>\<lparr>lv_active := lv_active \<pi> - {t}\<rparr>)"
| sighup: "live_running \<pi> \<Longrightarrow>
    live_step env oe yaml path \<pi> Sighup (\<pi>\<lparr>lv_loop := notify (lv_loop \<pi>)\<rparr>)"
| loop: "live_running \<pi> \<Longrightarrow> loop_turn read yaml path (lv_loop \<pi>) (lv_server \<pi>) = Some (l', s') \<Longrightarrow>
    live_step env oe yaml path \<pi> (LoopStep read) (\<pi>\<lparr>lv_loop := l', lv_server := s'\<rparr>)"
| listener_fails: "lv_phase \<pi> = Serving \<Longrightarrow>
    live_step env oe yaml path \<pi> (ListenerFails e) (\<pi>\<lparr>lv_phase := Exited (Some (ListenError e))\<rparr>)"
| stop_requested: "lv_phase \<pi> = Serving \<Longrightarrow> sig \<in> set stop_signals \<Longrightarrow>
    live_step env oe yaml path \<pi> (StopRequested sig)
      (\<pi>\<lparr>lv_server := log_stop sig (lv_server \<pi>), lv_phase := Draining\<rparr>)"
| shutdown_done: "lv_phase \<pi> = Draining \<Longrightarrow> lv_active \<pi> = {} \<Longrightarrow>
    live_step env oe yaml path \<pi> ShutdownDone (\<pi>\<lparr>lv_phase := Exited None\<rparr>)"
| shutdown_gives_up: "lv_phase \<pi> = Draining \<Longrightarrow>
    live_step env oe yaml path \<pi> (ShutdownGivesUp e) (\<pi>\<lparr>lv_phase := Exited (Some (ShutdownError e))\<rparr>)"

inductive_cases live_goE: "live_step env oe yaml path \<pi> (Go t) \<pi>'"
inductive_cases live_loopE: "live_step env oe yaml path \<pi> (LoopStep read) \<pi>'"

end
