(* ===== verification/ConcurrentSafety.thy ===== *)
theory ConcurrentSafety
  imports Concurrent
begin

text \<open>
  What holds in every state of the concurrent process: what each request knows at its program
  point, how the calls of the verifier fit the requests, and that the log has one event for
  each answer.
\<close>

section \<open>Program points\<close>

definition token_for :: "Policy \<Rightarrow> sign_request \<Rightarrow> string \<Rightarrow> string \<Rightarrow> bool" where
  "token_for pol rq tok iss \<longleftrightarrow> bearerToken (sr_auth rq) = Some tok
     \<and> unverifiedIssuer tok = Inr iss \<and> iss \<in> set (Issuers pol)"

definition token_checked :: "'p oidc_env \<Rightarrow> string \<Rightarrow> string \<Rightarrow> id_token \<Rightarrow> claims \<Rightarrow> bool" where
  "token_checked oe tok iss idt cs \<longleftrightarrow> (\<exists>p n. obtained oe iss p
     \<and> env_verify oe n rs256_config p tok = Inr idt \<and> tok_Claims idt = Inr cs)"

definition vouched :: "'p oidc_env \<Rightarrow> Policy \<Rightarrow> sign_request \<Rightarrow> Identity \<Rightarrow> bool" where
  "vouched oe pol rq i \<longleftrightarrow> (\<exists>tok iss. token_for pol rq tok iss \<and> authentic oe tok i)"

definition body_ok :: "('pk, 'sk, 'v) server_env \<Rightarrow> Policy \<Rightarrow> sign_request \<Rightarrow> 'pk \<Rightarrow> bool" where
  "body_ok env pol rq pub \<longleftrightarrow>
     policy_ok pol \<and> check_request (sv_lib env) pol (sr_method rq) (sr_body rq) = Inr pub"

definition issued_ok :: "('pk, 'sk, 'v) server_env \<Rightarrow> 'p oidc_env \<Rightarrow> sign_request \<Rightarrow> string \<Rightarrow> bool" where
  "issued_ok env oe rq out \<longleftrightarrow> (\<exists>pol cert. policy_ok pol \<and> justified env (authentic oe) pol rq cert
     \<and> out = lib_MarshalCert (sv_lib env) cert)"

fun point_ok ::
  "('pk, 'sk, 'v) server_env \<Rightarrow> 'p oidc_env \<Rightarrow> sign_request \<Rightarrow> ('pk, 'p) point \<Rightarrow> bool" where
  "point_ok env oe rq Entered = True"
| "point_ok env oe rq (Named rid) = True"
| "point_ok env oe rq (Fetching rid pol pub tok iss) = (body_ok env pol rq pub \<and> token_for pol rq tok iss)"
| "point_ok env oe rq (Verifying rid pol pub tok p) =
     (body_ok env pol rq pub \<and> (\<exists>iss. token_for pol rq tok iss \<and> obtained oe iss p))"
| "point_ok env oe rq (Dating rid pol pub idt cs) =
     (body_ok env pol rq pub \<and> (\<exists>tok iss. token_for pol rq tok iss \<and> token_checked oe tok iss idt cs))"
| "point_ok env oe rq (Granting rid pol pub i rule keyID) =
     (body_ok env pol rq pub \<and> granted pol i rule keyID \<and> vouched oe pol rq i)"
| "point_ok env oe rq (Denying rid d) = ((den_status d, den_reason d) \<in> status_table)"
| "point_ok env oe rq (Issuing rid out attrs) = issued_ok env oe rq out"
| "point_ok env oe rq (Answered resp) = (rsp_Status resp = 200 \<longrightarrow> issued_ok env oe rq (rsp_Body resp))"

lemma issuer_gate_iff:
  "issuer_gate allowed tok = Inr iss \<longleftrightarrow> unverifiedIssuer tok = Inr iss \<and> iss \<in> set allowed"
  by (auto simp: issuer_gate_def split: sum.split)

lemma token_gate_iff:
  "token_gate pol (sr_auth rq) ka = Inr (tok, iss) \<longleftrightarrow> token_for pol rq tok iss"
  by (auto simp: token_gate_def token_for_def issuer_gate_iff [symmetric] split: option.split sum.split)

lemma token_denied_status: "(den_status (token_denied ka e), den_reason (token_denied ka e)) \<in> status_table"
  by (simp add: token_denied_def)

lemma token_gate_status:
  "token_gate pol a ka = Inl d \<Longrightarrow> (den_status d, den_reason d) \<in> status_table"
  by (auto simp: token_gate_def token_denied_status split: option.splits sum.splits)

lemma check_token_iff:
  "check_token oe n p tok = Inr (idt, cs) \<longleftrightarrow>
     env_verify oe n rs256_config p tok = Inr idt \<and> tok_Claims idt = Inr cs"
  by (auto simp: check_token_def split: sum.split)

lemma check_dates_authentic:
  assumes "check_dates oe k idt cs = Inr i" and "unverifiedIssuer tok = Inr iss"
    and "token_checked oe tok iss idt cs"
  shows "authentic oe tok i"
proof -
  have i: "i = \<lparr>id_Issuer = tok_Issuer idt, id_Audiences = tok_Audience idt, id_Claims = cs\<rparr>"
    "checkTimeClaims (env_float_oob oe) cs (env_clock oe k) = Inr ()"
    using assms(1) by (auto simp: check_dates_def split: sum.splits)
  obtain p n where "obtained oe iss p" "env_verify oe n rs256_config p tok = Inr idt"
    "tok_Claims idt = Inr cs"
    using assms(3) unfolding token_checked_def by blast
  with i assms(2) show ?thesis unfolding authentic_def
    by (intro exI [of _ iss] exI [of _ p] exI [of _ n] exI [of _ k] exI [of _ idt]) simp
qed

lemma deny_200: "deny s rid d = (resp, s') \<Longrightarrow> rsp_Status resp = den_status d"
  by (auto simp: deny_def)

lemma go_granting:
  assumes "point_ok (production_env lib m oe rnd clk) oe rq (Granting rid pol pub i rule keyID)"
    and "issue_cert (production_env lib m oe rnd clk) pol rule keyID pub ca s = (Inr out, s')"
  shows "issued_ok (production_env lib m oe rnd clk) oe rq out"
proof -
  let ?env = "production_env lib m oe rnd clk"
  obtain cert where cert: "out = lib_MarshalCert lib cert"
    "cert_for pol rule keyID pub (clk (st_tick s)) cert" "crt_SignatureKey cert = Some (PublicKey lib m)"
    using production.issue_cert_for [OF assms(2)] by auto
  obtain tok iss where tok: "token_for pol rq tok iss" "authentic oe tok i"
    and g: "granted pol i rule keyID" "body_ok ?env pol rq pub"
    using assms(1) by (auto simp: vouched_def)
  have "justified ?env (authentic oe) pol rq cert"
    by (rule justifiedI [where pub = pub and tok = tok and i = i and r = rule and keyID = keyID
          and k = "st_tick s"])
      (use cert tok g in \<open>auto simp: token_for_def body_ok_def\<close>)
  with cert g show ?thesis unfolding issued_ok_def body_ok_def by auto
qed

text \<open>One step of a request keeps what is known; a provider that \<open>provider\<close> returned was
  obtained for the issuer.\<close>

lemma go_ok:
  assumes "go (production_env lib m oe rnd clk) oe t rq pt s = Some (pt', s')"
    and "point_ok (production_env lib m oe rnd clk) oe rq pt" and "policy_ok (st_policy s)"
    and "\<And>iss p. pl_calls (st_verifier s) t = Some (iss, Returned (Inr p)) \<Longrightarrow> obtained oe iss p"
    and "\<And>rid pol pub tok iss i r. pt = Fetching rid pol pub tok iss \<Longrightarrow>
      pl_calls (st_verifier s) t = Some (i, Returned r) \<Longrightarrow> i = iss"
  shows "point_ok (production_env lib m oe rnd clk) oe rq pt'"
proof (cases pt)
  case (Named rid)
  with assms(1,3) check_request_status token_gate_status show ?thesis
    by (auto simp: body_ok_def token_gate_iff split: sum.splits)
next
  case (Fetching rid pol pub tok iss)
  then obtain i r where c: "pl_calls (st_verifier s) t = Some (i, Returned r)"
    using assms(1) by (auto split: option.splits pc.splits)
  with assms(5) Fetching have "i = iss" by blast
  with c assms(1,2,4) Fetching show ?thesis
    by (cases r) (auto simp: token_denied_status)
next
  case (Verifying rid pol pub tok p)
  obtain iss where iss: "token_for pol rq tok iss" "obtained oe iss p"
    using assms(2) Verifying by auto
  show ?thesis
  proof (cases "check_token oe (pl_net (st_verifier s)) p tok")
    case (Inl e)
    with assms(1) Verifying show ?thesis by (auto simp: Let_def token_denied_status)
  next
    case (Inr x)
    then obtain idt cs where "x = (idt, cs)" "token_checked oe tok iss idt cs"
      using iss by (cases x) (auto simp: check_token_iff token_checked_def)
    with assms(1,2) Verifying Inr iss show ?thesis by (fastforce simp: Let_def)
  qed
next
  case (Dating rid pol pub idt cs)
  obtain tok iss where tok: "token_for pol rq tok iss" "token_checked oe tok iss idt cs"
    and b: "body_ok (production_env lib m oe rnd clk) pol rq pub"
    using assms(2) Dating by auto
  have enabled: "\<not> pol_Disabled pol"
    using b by (simp add: body_ok_def check_request_iff acceptable_def)
  show ?thesis
  proof (cases "check_dates oe (pl_tick (st_verifier s)) idt cs")
    case (Inl e)
    with assms(1) Dating show ?thesis by (auto simp: Let_def token_denied_status)
  next
    case (Inr i)
    then have "authentic oe tok i"
      using check_dates_authentic [OF Inr _ tok(2)] tok(1) by (simp add: token_for_def)
    with tok have "vouched oe pol rq i" unfolding vouched_def by blast
    with assms(1) Dating Inr b authorize_iff [OF enabled] authorize_status show ?thesis
      by (auto simp: Let_def split: sum.splits)
  qed
next
  case (Granting rid pol pub i rule keyID)
  with assms(1) go_granting [OF assms(2) [unfolded Granting]] issue_cert_status show ?thesis
    by (auto simp: Let_def split: sum.splits prod.splits)
next
  case (Denying rid d)
  with assms(1,2) status_table_not_200 show ?thesis
    by (auto simp: Let_def dest!: deny_200 split: prod.splits)
qed (use assms(1,2) in \<open>auto split: prod.splits\<close>)

section \<open>Calls of the verifier\<close>

text \<open>A request has no call before \<open>Fetching\<close>, one for its issuer there, and one that has
  returned, if any, afterwards.\<close>

fun call_fits :: "('pk, 'p) point option \<Rightarrow> (string \<times> 'p pc) option \<Rightarrow> bool" where
  "call_fits None c = (c = None)"
| "call_fits (Some Entered) c = (c = None)"
| "call_fits (Some (Named rid)) c = (c = None)"
| "call_fits (Some (Fetching rid pol pub tok iss)) c = (\<exists>pc. c = Some (iss, pc))"
| "call_fits (Some pt) c = (\<forall>iss pc. c = Some (iss, pc) \<longrightarrow> returned pc)"

lemma go_pool:
  assumes "go env oe t rq pt s = Some (pt', s')" and "call_fits (Some pt) (pl_calls (st_verifier s) t)"
  shows "\<exists>evs. steps (pool_step oe) (st_verifier s) evs (st_verifier s')"
    and "call_fits (Some pt') (pl_calls (st_verifier s') t)"
    and "u \<noteq> t \<Longrightarrow> pl_calls (st_verifier s') u = pl_calls (st_verifier s) u"
proof -
  have same: "\<exists>evs. steps (pool_step oe) pool evs pool" for pool by (intro exI) (rule steps_none)
  have one: "pool_step oe pool ev pool' \<Longrightarrow> \<exists>evs. steps (pool_step oe) pool evs pool'" for pool ev pool'
    by (intro exI) (rule steps_more [OF _ steps_none])
  have net: "\<exists>evs. steps (pool_step oe) pool evs (pool\<lparr>pl_net := Suc (pl_net pool)\<rparr>)" for pool
    using one [OF pool_step.outside [of pool "pl_tick pool" "Suc (pl_net pool)" oe]] by simp
  have tick: "\<exists>evs. steps (pool_step oe) pool evs (pool\<lparr>pl_tick := Suc (pl_tick pool)\<rparr>)" for pool
    using one [OF pool_step.outside [of pool "Suc (pl_tick pool)" "pl_net pool" oe]] by simp
  have start: "\<exists>evs. steps (pool_step oe) pool evs (start_call t iss pool)" if "pl_calls pool t = None" for pool iss
    using one [OF pool_step.call [OF that, of oe iss]] by (simp add: start_call_def)
  show "\<exists>evs. steps (pool_step oe) (st_verifier s) evs (st_verifier s')"
    using assms
    by (cases pt)
      (auto simp: newRequestID_def deny_def Let_def same start net tick
        dest!: issue_cert_frame split: option.splits sum.splits pc.splits prod.splits)
  show "call_fits (Some pt') (pl_calls (st_verifier s') t)"
    using assms
    by (cases pt)
      (auto simp: newRequestID_def deny_def Let_def start_call_def
        dest!: issue_cert_frame split: option.splits sum.splits pc.splits prod.splits)
  show "u \<noteq> t \<Longrightarrow> pl_calls (st_verifier s') u = pl_calls (st_verifier s) u"
    using assms
    by (cases pt)
      (auto simp: newRequestID_def deny_def Let_def start_call_def
        dest!: issue_cert_frame split: option.splits sum.splits pc.splits prod.splits)
qed

section \<open>The log\<close>

text \<open>The request events of the log stand, one for one and in some order, for the answers.\<close>

definition one_event_each :: "detail log \<Rightarrow> (nat \<Rightarrow> Response option) \<Rightarrow> bool" where
  "one_event_each l R \<longleftrightarrow> (\<exists>ts. distinct ts \<and> set ts = dom R
     \<and> list_all2 (\<lambda>t e. \<exists>resp. R t = Some resp \<and> event_for resp e) ts (filter is_request_event l))"

lemma one_event_each_quiet:
  "one_event_each l R \<Longrightarrow> \<forall>e \<in> set es. \<not> is_request_event e \<Longrightarrow> one_event_each (l @ es) R"
  by (simp add: one_event_each_def filter_empty_conv [THEN iffD2])

lemma one_event_each_answer:
  assumes "one_event_each l R" and "R t = None" and "event_for resp e"
  shows "one_event_each (l @ [e]) (R(t \<mapsto> resp))"
proof -
  obtain ts where ts: "distinct ts" "set ts = dom R"
    "list_all2 (\<lambda>t e. \<exists>resp. R t = Some resp \<and> event_for resp e) ts (filter is_request_event l)"
    using assms(1) unfolding one_event_each_def by blast
  have new: "t \<notin> set ts" using ts(2) assms(2) by auto
  have "list_all2 (\<lambda>u e. \<exists>r. (R(t \<mapsto> resp)) u = Some r \<and> event_for r e) ts (filter is_request_event l)"
    by (rule list.rel_mono_strong [OF ts(3)]) (use new in auto)
  with ts new assms(3) event_for_request [OF assms(3)] show ?thesis
    unfolding one_event_each_def
    by (intro exI [of _ "ts @ [t]"]) (auto simp: list_all2_appendI)
qed

fun answer_of :: "(sign_request \<times> ('pk, 'p) point) option \<Rightarrow> Response option" where
  "answer_of (Some (rq, Answered resp)) = Some resp"
| "answer_of th = None"

definition answers :: "('pk, 'p) live \<Rightarrow> nat \<Rightarrow> Response option" where
  "answers \<pi> = (\<lambda>t. answer_of (lv_threads \<pi> t))"

lemma go_audit:
  assumes "go env oe t rq pt s = Some (pt', s')" and "point_ok env oe rq pt"
  shows "st_policy s' = st_policy s
    \<and> (case pt' of
        Answered resp \<Rightarrow> \<exists>e. st_audit s' = st_audit s @ [e] \<and> event_for resp e
      | _ \<Rightarrow> st_audit s' = st_audit s)"
proof (cases pt)
  case (Denying rid d)
  obtain e where "Denied rid (den_reason d) (den_detail d) (den_attrs d) (st_audit s) = st_audit s @ [e]"
    "ev_msg e = EventDenied" "attr e ''request_id'' = Some (AttrString rid)"
    using Denied_event [of rid "den_reason d" "den_detail d" "den_attrs d" "st_audit s"] by metis
  moreover have "den_status d \<noteq> 200" using assms(2) Denying status_table_not_200 by auto
  ultimately show ?thesis using assms(1) Denying by (auto simp: deny_def event_for_def)
next
  case (Issuing rid out attrs)
  with assms(1) issued_event_for [of rid attrs "st_audit s"] show ?thesis by auto
qed (use assms(1) in \<open>auto simp: newRequestID_def Let_def dest!: issue_cert_frame
      split: option.splits sum.splits pc.splits prod.splits\<close>)

lemma answer_of_iff: "answer_of th = Some resp \<longleftrightarrow> (\<exists>rq. th = Some (rq, Answered resp))"
  by (cases th rule: answer_of.cases) auto

section \<open>The invariant\<close>

definition pool_reached :: "'p oidc_env \<Rightarrow> 'p pool \<Rightarrow> bool" where
  "pool_reached oe pool \<longleftrightarrow> (\<exists>evs. steps (pool_step oe) pool_init evs pool)"

definition calls_fit :: "('pk, 'p) live \<Rightarrow> bool" where
  "calls_fit \<pi> \<longleftrightarrow> (\<forall>t. call_fits (map_option snd (lv_threads \<pi> t)) (pl_calls (st_verifier (lv_server \<pi>)) t))"

definition points_ok :: "('pk, 'sk, 'v) server_env \<Rightarrow> 'p oidc_env \<Rightarrow> ('pk, 'p) live \<Rightarrow> bool" where
  "points_ok env oe \<pi> \<longleftrightarrow> (\<forall>t rq pt. lv_threads \<pi> t = Some (rq, pt) \<longrightarrow> point_ok env oe rq pt)"

definition phase_fits :: "('pk, 'p) live \<Rightarrow> bool" where
  "phase_fits \<pi> \<longleftrightarrow>
     (lv_phase \<pi> = Draining \<or> lv_phase \<pi> = Exited None \<longrightarrow> stop_logged (st_audit (lv_server \<pi>)))
     \<and> (lv_phase \<pi> = Exited None \<longrightarrow> live_answered \<pi>)"

text \<open>The connection of a request is active until the handler has returned.\<close>

definition conns_ok :: "('pk, 'p) live \<Rightarrow> bool" where
  "conns_ok \<pi> \<longleftrightarrow> lv_active \<pi> \<subseteq> dom (lv_threads \<pi>)
     \<and> (\<forall>t rq pt. lv_threads \<pi> t = Some (rq, pt) \<longrightarrow> t \<notin> lv_active \<pi> \<longrightarrow> is_Answered pt)"

definition live_inv :: "('pk, 'sk, 'v) server_env \<Rightarrow> 'p oidc_env \<Rightarrow> ('pk, 'p) live \<Rightarrow> bool" where
  "live_inv env oe \<pi> \<longleftrightarrow> pool_reached oe (st_verifier (lv_server \<pi>)) \<and> calls_fit \<pi> \<and> points_ok env oe \<pi>
     \<and> policy_ok (st_policy (lv_server \<pi>)) \<and> loop_ok (hl_point (lv_loop \<pi>))
     \<and> one_event_each (st_audit (lv_server \<pi>)) (answers \<pi>) \<and> finite (dom (lv_threads \<pi>)) \<and> phase_fits \<pi> \<and> conns_ok \<pi>"

lemmas live_inv_defs = live_inv_def calls_fit_def points_ok_def phase_fits_def conns_ok_def

lemma pool_reached_steps: "pool_reached oe pool \<Longrightarrow> steps (pool_step oe) pool evs pool' \<Longrightarrow> pool_reached oe pool'"
  unfolding pool_reached_def using steps_append [of "pool_step oe" pool_init] by blast

lemma pool_reached_step: "pool_reached oe pool \<Longrightarrow> pool_step oe pool ev pool' \<Longrightarrow> pool_reached oe pool'"
  by (rule pool_reached_steps) (auto intro: steps.intros)

lemma pool_reached_ok: "pool_reached oe pool \<Longrightarrow> pool_ok pool"
  unfolding pool_reached_def using pool_reachable_ok by blast

lemma pool_move_calls:
  assumes "pool_step oe pool (Move t) pool'"
  obtains iss pc pc' where "pl_calls pool t = Some (iss, pc)" and "\<not> returned pc"
    and "pl_calls pool' = (pl_calls pool)(t \<mapsto> (iss, pc'))"
  using assms
proof (rule pool_moveE)
  fix iss pc c pc' \<sigma>'
  assume pc: "pl_calls pool t = Some (iss, pc)" "turn oe c t iss pc pool = Some (pc', \<sigma>')"
    and s: "pool' = \<sigma>'\<lparr>pl_calls := (pl_calls pool)(t \<mapsto> (iss, pc'))\<rparr>"
  then have "\<not> returned pc" by (cases pc) simp_all
  with pc s show thesis by (intro that) simp_all
qed

lemma point_not_returned:
  "call_fits (Some pt) (Some (iss, pc)) \<Longrightarrow> \<not> returned pc \<Longrightarrow> \<exists>rid pol pub tok. pt = Fetching rid pol pub tok iss"
  by (cases pt) auto

lemma calls_fitD:
  "live_inv env oe \<pi> \<Longrightarrow> lv_threads \<pi> t = th \<Longrightarrow>
     call_fits (map_option snd th) (pl_calls (st_verifier (lv_server \<pi>)) t)"
  unfolding live_inv_def calls_fit_def by blast

text \<open>A step of the verifier alone, and a step that changes one request.\<close>

lemma live_inv_fetch:
  assumes "live_inv env oe \<pi>" and "pool_step oe (st_verifier (lv_server \<pi>)) (Move t) pool'"
    and "lv_threads \<pi> t = Some (rq, Fetching rid pol pub tok iss)"
  shows "live_inv env oe (\<pi>\<lparr>lv_server := (lv_server \<pi>)\<lparr>st_verifier := pool'\<rparr>\<rparr>)"
proof -
  let ?pool = "st_verifier (lv_server \<pi>)"
  obtain i pc pc' where c: "pl_calls ?pool t = Some (i, pc)" "pl_calls pool' = (pl_calls ?pool)(t \<mapsto> (i, pc'))"
    by (rule pool_move_calls [OF assms(2)])
  have fits: "call_fits (map_option snd (lv_threads \<pi> u)) (pl_calls ?pool u)" for u
    using assms(1) unfolding live_inv_defs by blast
  have "i = iss" using calls_fitD [OF assms(1,3)] c(1) by simp
  then have "call_fits (map_option snd (lv_threads \<pi> u)) (pl_calls pool' u)" for u
    using fits [of u] c assms(3) by (cases "u = t") auto
  moreover have "pool_reached oe pool'"
    using assms(1,2) pool_reached_step unfolding live_inv_def by blast
  ultimately show ?thesis using assms(1)
    by (simp add: live_inv_defs answers_def live_answered_def)
qed

lemma answers_put:
  "answers (\<pi>\<lparr>lv_server := s', lv_threads := (lv_threads \<pi>)(t \<mapsto> (rq, pt))\<rparr>) =
     (answers \<pi>)(t := (case pt of Answered resp \<Rightarrow> Some resp | _ \<Rightarrow> None))"
  by (rule ext) (cases pt; simp add: answers_def)

lemma live_inv_own:
  assumes "live_inv (production_env lib m oe rnd clk) oe \<pi>" and "lv_threads \<pi> t = Some (rq, pt)"
    and "go (production_env lib m oe rnd clk) oe t rq pt (lv_server \<pi>) = Some (pt', s')"
    and "live_running \<pi>"
  shows "live_inv (production_env lib m oe rnd clk) oe
    (\<pi>\<lparr>lv_server := s', lv_threads := (lv_threads \<pi>)(t \<mapsto> (rq, pt'))\<rparr>)" (is "live_inv ?env oe ?\<pi>")
proof -
  let ?s = "lv_server \<pi>"
  have reached: "pool_reached oe (st_verifier ?s)" and pol: "policy_ok (st_policy ?s)"
    and pt: "point_ok ?env oe rq pt" and log: "one_event_each (st_audit ?s) (answers \<pi>)"
    using assms(1,2) unfolding live_inv_defs by blast+
  have fits: "call_fits (map_option snd (lv_threads \<pi> u)) (pl_calls (st_verifier ?s) u)" for u
    using assms(1) unfolding live_inv_defs by blast
  from fits [of t] assms(2) have here: "call_fits (Some pt) (pl_calls (st_verifier ?s) t)" by simp
  note pool = go_pool [OF assms(3) here]
  have obtained: "obtained oe iss p" if "pl_calls (st_verifier ?s) t = Some (iss, Returned (Inr p))" for iss p
    using reached unfolding pool_reached_def by (elim exE) (rule returned_obtained [OF _ that])
  have pt': "point_ok ?env oe rq pt'"
    by (rule go_ok [OF assms(3) pt pol obtained]) (use here in auto)
  have "pool_reached oe (st_verifier s')"
    using pool(1) reached pool_reached_steps by blast
  moreover have "call_fits (map_option snd (lv_threads ?\<pi> u)) (pl_calls (st_verifier s') u)" for u
    using fits [of u] pool(2,3) by (cases "u = t") auto
  moreover have "points_ok ?env oe ?\<pi>"
    using assms(1) pt' unfolding live_inv_def points_ok_def by simp
  moreover have "st_policy s' = st_policy ?s" using go_audit [OF assms(3) pt] by blast
  moreover have quiet: "\<not> is_Answered pt" using assms(3) by (cases pt) auto
  then have none: "answers \<pi> t = None" using assms(2) by (cases pt) (simp_all add: answers_def)
  have "one_event_each (st_audit s') (answers ?\<pi>)"
  proof (cases "is_Answered pt'")
    case True
    then obtain resp where r: "pt' = Answered resp" by (cases pt') auto
    with go_audit [OF assms(3) pt] one_event_each_answer [OF log none] show ?thesis
      by (auto simp: answers_put)
  next
    case False
    then have "st_audit s' = st_audit ?s" "(case pt' of Answered resp \<Rightarrow> Some resp | _ \<Rightarrow> None) = None"
      using go_audit [OF assms(3) pt] by (cases pt'; simp)+
    moreover have "(answers \<pi>)(t := None) = answers \<pi>" using none by auto
    ultimately show ?thesis using log by (simp add: answers_put)
  qed
  moreover have "\<exists>es. st_audit s' = st_audit ?s @ es"
    using go_audit [OF assms(3) pt] by (cases pt') auto
  then have "phase_fits ?\<pi>"
    using assms(1,4) stop_logged_append unfolding live_inv_def phase_fits_def live_running_def by auto
  moreover have "conns_ok \<pi>" using assms(1) by (simp add: live_inv_def)
  then have "conns_ok ?\<pi>" using assms(2) quiet unfolding conns_ok_def by auto
  ultimately show ?thesis using assms(1) unfolding live_inv_def calls_fit_def by simp
qed

lemma live_inv_log:
  assumes "live_inv env oe \<pi>" and "st_verifier s' = st_verifier (lv_server \<pi>)"
    and "st_audit s' = st_audit (lv_server \<pi>) @ es" and "\<forall>e \<in> set es. \<not> is_request_event e"
    and "policy_ok (st_policy s')" and "loop_ok (hl_point l')"
  shows "live_inv env oe (\<pi>\<lparr>lv_loop := l', lv_server := s'\<rparr>)"
  using assms one_event_each_quiet [of "st_audit (lv_server \<pi>)" "answers \<pi>" es] stop_logged_append
  by (auto simp: live_inv_defs answers_def live_answered_def)

lemma live_step_inv:
  assumes "live_step (production_env lib m oe rnd clk) oe yaml path \<pi> ev \<pi>'"
    and "live_inv (production_env lib m oe rnd clk) oe \<pi>"
  shows "live_inv (production_env lib m oe rnd clk) oe \<pi>'" (is "live_inv ?env oe _")
  using assms(1)
proof cases
  case (accept t rq)
  have "answers \<pi>' = answers \<pi>" using accept by (auto simp: answers_def)
  moreover have "pl_calls (st_verifier (lv_server \<pi>)) t = None"
    using calls_fitD [OF assms(2) accept(4)] by simp
  ultimately show ?thesis using assms(2) accept
    by (auto simp: live_inv_defs live_running_def)
next
  case (fetch t rq rid pol pub tok iss pool')
  with live_inv_fetch [OF assms(2)] show ?thesis by blast
next
  case (own t rq pt pt' s')
  with live_inv_own [OF assms(2)] show ?thesis by blast
next
  case (conn_idle t rq resp)
  then show ?thesis using assms(2)
    by (auto simp: live_inv_defs answers_def live_answered_def)
next
  case sighup
  then show ?thesis using assms(2)
    by (simp add: live_inv_defs answers_def live_answered_def notify_def)
next
  case (loop read l' s')
  obtain es where "st_audit s' = st_audit (lv_server \<pi>) @ es" "\<forall>e \<in> set es. \<not> is_request_event e"
    using loop_turn_server(3) [OF loop(4)] by blast
  moreover have "loop_ok (hl_point l') \<and> policy_ok (st_policy s')"
    by (rule loop_turn_ok [OF loop(4)]) (use assms(2) in \<open>simp_all add: live_inv_def\<close>)
  ultimately show ?thesis
    using live_inv_log [OF assms(2) loop_turn_server(1) [OF loop(4)]] loop(2) by blast
next
  case (listener_fails e)
  then show ?thesis using assms(2) by (simp add: live_inv_defs answers_def live_answered_def)
next
  case (stop_requested sig)
  obtain e where e: "st_audit (log_stop sig (lv_server \<pi>)) = st_audit (lv_server \<pi>) @ [e]"
    "ev_msg e = ''shutting down''" "attr e ''signal'' = Some (AttrString sig)" "\<not> is_request_event e"
    by (simp add: log_stop_def log_info_def log_event_def attr_def is_request_event_def
        EventIssued_def EventDenied_def)
  have "st_verifier (log_stop sig (lv_server \<pi>)) = st_verifier (lv_server \<pi>)"
    "st_policy (log_stop sig (lv_server \<pi>)) = st_policy (lv_server \<pi>)"
    by (simp_all add: log_stop_def)
  with live_inv_log [OF assms(2) this(1) e(1), of "lv_loop \<pi>"] e(4) assms(2)
  have "live_inv ?env oe (\<pi>\<lparr>lv_loop := lv_loop \<pi>, lv_server := log_stop sig (lv_server \<pi>)\<rparr>)"
    by (simp add: live_inv_def)
  moreover have "stop_logged (st_audit (log_stop sig (lv_server \<pi>)))"
    using e stop_requested(4) unfolding stop_logged_def by auto
  ultimately show ?thesis using stop_requested
    by (auto simp: live_inv_defs answers_def live_answered_def)
next
  case shutdown_done
  then show ?thesis using assms(2) by (auto simp: live_inv_defs answers_def live_answered_def)
next
  case (shutdown_gives_up e)
  then show ?thesis using assms(2) by (auto simp: live_inv_defs answers_def live_answered_def)
qed

lemma live_init_inv:
  assumes "policy_ok (st_policy s)" and "request_events s = []"
  shows "live_inv env oe (live_init s)"
proof -
  have "pool_reached oe pool_init" unfolding pool_reached_def by (intro exI) (rule steps_none)
  moreover have "\<forall>t. pl_calls pool_init t = None" by (simp add: pool_init_def)
  moreover have "one_event_each (st_audit s) (\<lambda>_. None)"
    using assms(2) by (simp add: one_event_each_def request_events_def)
  ultimately show ?thesis using assms(1)
    by (simp add: live_inv_defs live_init_def New_def loop_init_def answers_def)
qed

lemma live_steps_inv:
  "steps (live_step (production_env lib m oe rnd clk) oe yaml path) \<pi> evs \<pi>' \<Longrightarrow>
     live_inv (production_env lib m oe rnd clk) oe \<pi> \<Longrightarrow> live_inv (production_env lib m oe rnd clk) oe \<pi>'"
  by (erule steps_invariant [where P = "live_inv (production_env lib m oe rnd clk) oe"])
    (auto intro: live_step_inv)

end
