(* ===== verification/ConcurrentReload.thy ===== *)
theory ConcurrentReload
  imports ConcurrentSafety
begin

text \<open>
  The policy of the concurrent process: only the reload loop changes it, so that the loop
  catches up with the file after a signal, and a disabled policy stops every request that has
  not read an enabled one.
\<close>

section \<open>Who changes the policy\<close>

lemma go_policy: "go env oe t rq pt s = Some (pt', s') \<Longrightarrow> st_policy s' = st_policy s"
  by (cases pt)
    (auto simp: newRequestID_def deny_def Let_def dest!: issue_cert_frame
      split: option.splits sum.splits pc.splits prod.splits)

text \<open>The cases of a step, by what it does to the loop and the policy.\<close>

lemma live_step_policy:
  assumes "live_step env oe yaml path \<pi> ev \<pi>'"
  obtains
    (loop) read where "ev = LoopStep read"
      and "loop_turn read yaml path (lv_loop \<pi>) (lv_server \<pi>) = Some (lv_loop \<pi>', lv_server \<pi>')"
      and "lv_threads \<pi>' = lv_threads \<pi>"
  | (signal) "ev = Sighup" and "lv_loop \<pi>' = notify (lv_loop \<pi>)" and "lv_server \<pi>' = lv_server \<pi>"
      and "lv_threads \<pi>' = lv_threads \<pi>"
  | (other) "\<And>read. ev \<noteq> LoopStep read" and "ev \<noteq> Sighup" and "lv_loop \<pi>' = lv_loop \<pi>"
      and "st_policy (lv_server \<pi>') = st_policy (lv_server \<pi>)"
  using assms
proof cases
  case (own t rq pt pt' s')
  with go_policy [OF own(5)] other show thesis by simp
qed (use loop signal other in \<open>simp_all add: log_stop_def\<close>)

section \<open>Catching up\<close>

definition live_catching_up :: "Policy \<Rightarrow> ('pk, 'p) live \<Rightarrow> bool" where
  "live_catching_up p \<pi> \<longleftrightarrow> catching_up p (lv_loop \<pi>) (ActivePolicy (lv_server \<pi>))"

definition reads :: "yaml_lib \<Rightarrow> string \<Rightarrow> Policy \<Rightarrow> live_event \<Rightarrow> bool" where
  "reads yaml path p ev \<longleftrightarrow> (\<forall>read. ev = LoopStep read \<longrightarrow> Load read yaml path = Inr p)"

lemma live_step_catching_up:
  assumes "live_step env oe yaml path \<pi> ev \<pi>'" and "live_catching_up p \<pi>" and "reads yaml path p ev"
  shows "live_catching_up p \<pi>'"
  using assms(1)
proof (cases rule: live_step_policy)
  case (loop read)
  with loop_turn_catching_up [OF loop(2)] assms(2,3) show ?thesis
    by (simp add: live_catching_up_def reads_def ActivePolicy_def)
next
  case signal
  then show ?thesis by (simp add: live_catching_up_def notify_catching_up)
next
  case other
  with assms(2) show ?thesis by (simp add: live_catching_up_def ActivePolicy_def)
qed

lemma live_steps_catching_up:
  assumes "steps (live_step env oe yaml path) \<pi> evs \<pi>'" and "live_catching_up p \<pi>"
    and "\<forall>ev \<in> set evs. reads yaml path p ev"
  shows "live_catching_up p \<pi>'"
  using assms by (induction rule: steps.induct) (auto dest: live_step_catching_up)

text \<open>The loop on its own gets to its wait for the next signal.\<close>

definition loop_go ::
  "('pk, 'sk, 'v) server_env \<Rightarrow> 'p oidc_env \<Rightarrow> yaml_lib \<Rightarrow> string \<Rightarrow> read_file
   \<Rightarrow> ('pk, 'p) live \<Rightarrow> live_event \<Rightarrow> ('pk, 'p) live \<Rightarrow> bool" where
  "loop_go env oe yaml path read \<pi> ev \<pi>' \<longleftrightarrow> ev = LoopStep read \<and> live_step env oe yaml path \<pi> ev \<pi>'"

lemma live_loop_step:
  assumes "live_step env oe yaml path \<pi> (LoopStep read) \<pi>'"
  shows "loop_left (lv_loop \<pi>') < loop_left (lv_loop \<pi>)" and "lv_phase \<pi>' = lv_phase \<pi>"
  using assms by (auto elim!: live_loopE dest: loop_turn_left)

interpretation reload_loop: finishing_system "loop_go env oe yaml path read" live_running
  "\<lambda>\<pi>. loop_left (lv_loop \<pi>)" "\<lambda>\<pi>. loop_quiet (lv_loop \<pi>)"
  for env oe yaml path read
proof
  fix \<pi> :: "('a, 'd) live"
  assume "live_running \<pi>" and "\<not> loop_quiet (lv_loop \<pi>)"
  then obtain l' s' where "loop_turn read yaml path (lv_loop \<pi>) (lv_server \<pi>) = Some (l', s')"
    using loop_turn_possible [of "lv_loop \<pi>"] by blast
  with live_step.loop [OF \<open>live_running \<pi>\<close> this] show "\<exists>l s'. loop_go env oe yaml path read \<pi> l s'"
    unfolding loop_go_def by blast
qed (auto simp: loop_go_def live_running_def dest: live_loop_step)

section \<open>Policies of a kind\<close>

text \<open>A read of the file that, if it loads, loads a policy that satisfies \<open>Q\<close>.\<close>

definition reads_keep :: "(Policy \<Rightarrow> bool) \<Rightarrow> yaml_lib \<Rightarrow> string \<Rightarrow> live_event \<Rightarrow> bool" where
  "reads_keep Q yaml path ev \<longleftrightarrow>
     (\<forall>read p. ev = LoopStep read \<longrightarrow> Load read yaml path = Inr p \<longrightarrow> Q p)"

text \<open>The loop is not about to store another.\<close>

fun loop_keeps :: "(Policy \<Rightarrow> bool) \<Rightarrow> loop_point \<Rightarrow> bool" where
  "loop_keeps Q (StorePolicy p) = Q p"
| "loop_keeps Q pt = True"

definition live_keeps :: "(Policy \<Rightarrow> bool) \<Rightarrow> ('pk, 'p) live \<Rightarrow> bool" where
  "live_keeps Q \<pi> \<longleftrightarrow> Q (st_policy (lv_server \<pi>)) \<and> loop_keeps Q (hl_point (lv_loop \<pi>))"

lemma loop_turn_keeps:
  assumes "loop_turn read yaml path l s = Some (l', s')" and "loop_keeps Q (hl_point l)"
    and "Q (st_policy s)" and "reads_keep Q yaml path (LoopStep read)"
  shows "loop_keeps Q (hl_point l') \<and> Q (st_policy s')"
  using assms
  by (auto simp: loop_turn_def reads_keep_def SetPolicy_def split: loop_point.splits if_split_asm sum.split)

lemma live_step_keeps:
  assumes "live_step env oe yaml path \<pi> ev \<pi>'" and "live_keeps Q \<pi>" and "reads_keep Q yaml path ev"
  shows "live_keeps Q \<pi>'"
  using assms
  by (cases rule: live_step_policy) (auto simp: live_keeps_def notify_def dest: loop_turn_keeps)

section \<open>Emergency stop\<close>

text \<open>A request that has not read an enabled policy.\<close>

fun refused :: "(sign_request \<times> ('pk, 'p) point) option \<Rightarrow> bool" where
  "refused None = True"
| "refused (Some (rq, Entered)) = True"
| "refused (Some (rq, Named rid)) = True"
| "refused (Some (rq, Denying rid d)) = (den_status d \<in> {405, 503})"
| "refused (Some (rq, Answered resp)) = (rsp_Status resp \<in> {405, 503})"
| "refused (Some (rq, pt)) = False"

definition live_stopped :: "nat \<Rightarrow> ('pk, 'p) live \<Rightarrow> bool" where
  "live_stopped t \<pi> \<longleftrightarrow> live_keeps pol_Disabled \<pi> \<and> refused (lv_threads \<pi> t)"

lemma go_refused:
  assumes "go env oe t rq pt s = Some (pt', s')" and "pol_Disabled (st_policy s)" and "refused (Some (rq, pt))"
  shows "refused (Some (rq, pt'))"
proof (cases pt)
  case (Named rid)
  obtain d where "check_request (sv_lib env) (st_policy s) (sr_method rq) (sr_body rq) = Inl d"
    "den_status d \<in> {405, 503}"
    using check_request_disabled [OF assms(2)] by blast
  with assms(1) Named show ?thesis by auto
next
  case (Denying rid d)
  obtain resp s1 where d: "deny s rid d = (resp, s1)" by (cases "deny s rid d")
  with assms(1) Denying have "pt' = Answered resp" by simp
  with deny_200 [OF d] assms(3) Denying show ?thesis by simp
qed (use assms in \<open>auto split: prod.splits\<close>)

lemma live_step_refused:
  assumes "live_step env oe yaml path \<pi> ev \<pi>'" and "pol_Disabled (st_policy (lv_server \<pi>))"
    and "refused (lv_threads \<pi> t)"
  shows "refused (lv_threads \<pi>' t)"
  using assms(1)
proof cases
  case (fetch u rq rid pol pub tok iss pool')
  with assms(3) show ?thesis by simp
next
  case (own u rq pt pt' s')
  with go_refused [OF own(5) assms(2)] assms(3) show ?thesis by (cases "u = t") auto
qed (use assms(3) in auto)

lemma live_step_stopped:
  assumes "live_step env oe yaml path \<pi> ev \<pi>'" and "live_stopped t \<pi>" and "reads_keep pol_Disabled yaml path ev"
  shows "live_stopped t \<pi>'"
  using assms(2) live_step_keeps [OF assms(1) _ assms(3)] live_step_refused [OF assms(1)]
  by (simp add: live_stopped_def live_keeps_def)

lemma live_steps_stopped:
  assumes "steps (live_step env oe yaml path) \<pi> evs \<pi>'" and "live_stopped t \<pi>"
    and "\<forall>ev \<in> set evs. reads_keep pol_Disabled yaml path ev"
  shows "live_stopped t \<pi>'"
  using assms by (induction rule: steps.induct) (auto dest: live_step_stopped)

end
