(* ===== verification/ConcurrentProgress.thy ===== *)
theory ConcurrentProgress
  imports ConcurrentSafety
begin

text \<open>
  Requests of the concurrent process come to an end: every step of a request, inside
  \<open>provider\<close> or outside, brings the requests together nearer to their answers, and some step
  is possible until all have one.  A request needs no step of a request that waits for the
  network of another issuer.
\<close>

lemma is_Answered_iff: "is_Answered pt \<longleftrightarrow> (\<exists>resp. pt = Answered resp)"
  by (cases pt) simp_all

section \<open>The steps that are left\<close>

fun left :: "('pk, 'p) point \<Rightarrow> (string \<times> 'p pc) option \<Rightarrow> nat" where
  "left Entered c = 21"
| "left (Named rid) c = 20"
| "left (Fetching rid pol pub tok iss) c = 5 + (case c of None \<Rightarrow> 14 | Some (i, pc) \<Rightarrow> steps_left pc)"
| "left (Verifying rid pol pub tok p) c = 4"
| "left (Dating rid pol pub idt cs) c = 3"
| "left (Granting rid pol pub i rule keyID) c = 2"
| "left (Denying rid d) c = 1"
| "left (Issuing rid out attrs) c = 1"
| "left (Answered resp) c = 0"

lemma left_bound: "left pt c \<le> 21"
  by (cases pt) (auto split: option.split intro: order_trans [OF steps_left_bound])

lemma go_left:
  assumes "go env oe t rq pt s = Some (pt', s')"
  shows "left pt' (pl_calls (st_verifier s') t) < left pt (pl_calls (st_verifier s) t)"
  using assms
  by (cases pt)
    (auto simp: newRequestID_def deny_def Let_def start_call_def
      split: option.splits sum.splits pc.splits prod.splits)

lemma pool_move_left:
  assumes "pool_step env pool (Move t) pool'"
  obtains iss pc pc' where "pl_calls pool t = Some (iss, pc)" and "steps_left pc' < steps_left pc"
    and "pl_calls pool' = (pl_calls pool)(t \<mapsto> (iss, pc'))"
  using assms by (rule pool_moveE) (auto dest: turn_left intro: that)

text \<open>For each request the steps it has left, and their sum.\<close>

definition lefts :: "('pk, 'p) live \<Rightarrow> nat \<Rightarrow> nat option" where
  "lefts \<pi> = (\<lambda>t. map_option (\<lambda>(rq, pt). left pt (pl_calls (st_verifier (lv_server \<pi>)) t)) (lv_threads \<pi> t))"

definition requests_left :: "('pk, 'p) live \<Rightarrow> nat" where
  "requests_left \<pi> = (\<Sum>t \<in> dom (lefts \<pi>). the (lefts \<pi> t))"

lemma dom_lefts: "dom (lefts \<pi>) = dom (lv_threads \<pi>)"
  by (auto simp: lefts_def)

lemma requests_left_bound: "requests_left \<pi> \<le> 21 * card (dom (lv_threads \<pi>))"
proof -
  have "the (lefts \<pi> t) \<le> 21" if "t \<in> dom (lefts \<pi>)" for t
    using that left_bound by (auto simp: lefts_def)
  from sum_bounded_above [of "dom (lefts \<pi>)" "\<lambda>t. the (lefts \<pi> t)" 21, OF this] show ?thesis
    by (simp add: requests_left_def dom_lefts mult.commute)
qed

lemma requests_left_less:
  assumes "finite (dom (lv_threads \<pi>))" and "lefts \<pi> t = Some n" and "lefts \<pi>' = (lefts \<pi>)(t \<mapsto> n')" and "n' < n"
  shows "requests_left \<pi>' < requests_left \<pi>"
  using sum_map_update [of "lefts \<pi>" t n "\<lambda>x. x" n'] assms
  by (simp add: requests_left_def dom_lefts)

definition live_ok :: "('pk, 'sk, 'v) server_env \<Rightarrow> 'p oidc_env \<Rightarrow> ('pk, 'p) live \<Rightarrow> bool" where
  "live_ok env oe \<pi> \<longleftrightarrow> live_inv env oe \<pi> \<and> live_running \<pi>"

lemma live_go_left:
  assumes "live_step env oe yaml path \<pi> (Go t) \<pi>'" and "live_ok env oe \<pi>"
  shows "requests_left \<pi>' < requests_left \<pi>"
  using assms(1)
proof (rule live_goE)
  fix rq rid pol pub tok iss pool'
  assume th: "lv_threads \<pi> t = Some (rq, Fetching rid pol pub tok iss)"
    and step: "pool_step oe (st_verifier (lv_server \<pi>)) (Move t) pool'"
    and \<pi>': "\<pi>' = \<pi>\<lparr>lv_server := (lv_server \<pi>)\<lparr>st_verifier := pool'\<rparr>\<rparr>"
  obtain i pc pc' where c: "pl_calls (st_verifier (lv_server \<pi>)) t = Some (i, pc)"
    "steps_left pc' < steps_left pc"
    "pl_calls pool' = (pl_calls (st_verifier (lv_server \<pi>)))(t \<mapsto> (i, pc'))"
    by (rule pool_move_left [OF step])
  have "lefts \<pi>' = (lefts \<pi>)(t \<mapsto> 5 + steps_left pc')"
    using c th \<pi>' by (auto simp: lefts_def)
  moreover have "lefts \<pi> t = Some (5 + steps_left pc)" using c th by (simp add: lefts_def)
  ultimately show ?thesis
    using requests_left_less [of \<pi> t "5 + steps_left pc" \<pi>' "5 + steps_left pc'"] c(2) assms(2)
    by (simp add: live_ok_def live_inv_def)
next
  fix rq pt pt' s'
  assume th: "lv_threads \<pi> t = Some (rq, pt)" and step: "go env oe t rq pt (lv_server \<pi>) = Some (pt', s')"
    and \<pi>': "\<pi>' = \<pi>\<lparr>lv_server := s', lv_threads := (lv_threads \<pi>)(t \<mapsto> (rq, pt'))\<rparr>"
  have inv: "live_inv env oe \<pi>" using assms(2) by (simp add: live_ok_def)
  have "call_fits (Some pt) (pl_calls (st_verifier (lv_server \<pi>)) t)" using calls_fitD [OF inv th] by simp
  note others = go_pool(3) [OF step this]
  have "lefts \<pi>' = (lefts \<pi>)(t \<mapsto> left pt' (pl_calls (st_verifier s') t))"
    using others th \<pi>' by (auto simp: lefts_def)
  moreover have "lefts \<pi> t = Some (left pt (pl_calls (st_verifier (lv_server \<pi>)) t))" using th by (simp add: lefts_def)
  ultimately show ?thesis
    using requests_left_less go_left [OF step] inv unfolding live_inv_def by blast
qed

section \<open>Some step is possible\<close>

lemma live_go_keeps:
  assumes "live_step env oe yaml path \<pi> (Go t) \<pi>'"
  shows "lv_phase \<pi>' = lv_phase \<pi>" and "lv_loop \<pi>' = lv_loop \<pi>"
    and "dom (lv_threads \<pi>') = dom (lv_threads \<pi>)"
  using assms by (auto elim!: live_goE split: if_split_asm)

lemma live_go_ok:
  assumes "live_step (production_env lib m oe rnd clk) oe yaml path \<pi> (Go t) \<pi>'"
    and "live_ok (production_env lib m oe rnd clk) oe \<pi>"
  shows "live_ok (production_env lib m oe rnd clk) oe \<pi>'"
  using live_step_inv [OF assms(1)] live_go_keeps [OF assms(1)] assms(2)
  by (simp add: live_ok_def live_running_def)

lemma go_possible:
  assumes "\<not> is_Answered pt" and "call_fits (Some pt) (pl_calls (st_verifier s) t)"
    and "\<And>rid pol pub tok iss i pc. pt = Fetching rid pol pub tok iss \<Longrightarrow>
      pl_calls (st_verifier s) t = Some (i, pc) \<Longrightarrow> returned pc"
  shows "\<exists>pt' s'. go env oe t rq pt s = Some (pt', s')"
proof (cases pt)
  case Entered
  then show ?thesis by (simp split: prod.split)
next
  case (Fetching rid pol pub tok iss)
  with assms(2) obtain pc where pc: "pl_calls (st_verifier s) t = Some (iss, pc)" by auto
  with assms(3) [OF Fetching] have "returned pc" by blast
  then obtain r where "pc = Returned r" by (auto simp: returned_iff)
  with pc Fetching show ?thesis by (cases r) simp_all
next
  case (Denying rid d)
  then show ?thesis by (simp split: prod.split)
qed (use assms in \<open>auto simp: Let_def\<close>)

text \<open>The request \<open>u\<close> waits for the network of an issuer other than that of \<open>t\<close>.\<close>

definition held_up :: "nat \<Rightarrow> ('pk, 'p) live \<Rightarrow> nat \<Rightarrow> bool" where
  "held_up t \<pi> u \<longleftrightarrow> u \<noteq> t \<and> (\<exists>i a. pl_calls (st_verifier (lv_server \<pi>)) u = Some (i, Discover a)
     \<and> (\<forall>iss pc. pl_calls (st_verifier (lv_server \<pi>)) t = Some (iss, pc) \<longrightarrow> i \<noteq> iss))"

lemma live_go_possible:
  assumes "live_ok env oe \<pi>" and "lv_threads \<pi> t = Some (rq, pt)" and "\<not> is_Answered pt"
  shows "\<exists>u \<pi>'. \<not> held_up t \<pi> u \<and> live_step env oe yaml path \<pi> (Go u) \<pi>'"
proof -
  have inv: "live_inv env oe \<pi>" and run: "live_running \<pi>" using assms(1) by (simp_all add: live_ok_def)
  let ?pool = "st_verifier (lv_server \<pi>)"
  have fits: "call_fits (Some pt) (pl_calls ?pool t)" using calls_fitD [OF inv assms(2)] by simp
  show ?thesis
  proof (cases "\<exists>iss pc. pl_calls ?pool t = Some (iss, pc) \<and> \<not> returned pc")
    case False
    then obtain pt' s' where "go env oe t rq pt (lv_server \<pi>) = Some (pt', s')"
      using go_possible [OF assms(3) fits, of env oe rq] by blast
    with live_step.own [OF run assms(2)] have "\<exists>\<pi>'. live_step env oe yaml path \<pi> (Go t) \<pi>'" by blast
    then show ?thesis unfolding held_up_def by blast
  next
    case True
    then obtain iss pc where c: "pl_calls ?pool t = Some (iss, pc)" "\<not> returned pc" by blast
    have "pool_inv ?pool" using inv pool_reached_ok unfolding live_inv_def pool_ok_def by blast
    from helper_possible [OF this c, of oe] obtain u pool'
      where u: "not_remote iss ?pool u" "pool_step oe ?pool (Move u) pool'" by blast
    obtain i q where q: "pl_calls ?pool u = Some (i, q)" "\<not> returned q"
      using pool_move_calls [OF u(2)] by metis
    obtain rq' pt' where th: "lv_threads \<pi> u = Some (rq', pt')"
      using calls_fitD [OF inv refl, of u] q by (cases "lv_threads \<pi> u") auto
    then obtain rid pol pub tok where "pt' = Fetching rid pol pub tok i"
      using calls_fitD [OF inv th] q point_not_returned by fastforce
    with live_step.fetch [OF run _ u(2)] th have "\<exists>\<pi>'. live_step env oe yaml path \<pi> (Go u) \<pi>'" by blast
    moreover have "\<not> held_up t \<pi> u" using u(1) c unfolding held_up_def not_remote_def by auto
    ultimately show ?thesis by blast
  qed
qed

section \<open>Runs end\<close>

text \<open>The steps of the requests, and those that a request can count on.\<close>

definition request_go ::
  "('pk, 'sk, 'v) server_env \<Rightarrow> 'p oidc_env \<Rightarrow> yaml_lib \<Rightarrow> string
   \<Rightarrow> ('pk, 'p) live \<Rightarrow> nat \<Rightarrow> ('pk, 'p) live \<Rightarrow> bool" where
  "request_go env oe yaml path \<pi> t \<pi>' \<longleftrightarrow> live_step env oe yaml path \<pi> (Go t) \<pi>'"

definition patient_go ::
  "('pk, 'sk, 'v) server_env \<Rightarrow> 'p oidc_env \<Rightarrow> yaml_lib \<Rightarrow> string \<Rightarrow> nat
   \<Rightarrow> ('pk, 'p) live \<Rightarrow> nat \<Rightarrow> ('pk, 'p) live \<Rightarrow> bool" where
  "patient_go env oe yaml path t \<pi> u \<pi>' \<longleftrightarrow> \<not> held_up t \<pi> u \<and> live_step env oe yaml path \<pi> (Go u) \<pi>'"

definition present :: "nat \<Rightarrow> ('pk, 'p) live \<Rightarrow> bool" where
  "present t \<pi> \<longleftrightarrow> t \<in> dom (lv_threads \<pi>)"

definition has_answer :: "nat \<Rightarrow> ('pk, 'p) live \<Rightarrow> bool" where
  "has_answer t \<pi> \<longleftrightarrow> answers \<pi> t \<noteq> None"

interpretation all_requests: finishing_system "request_go (production_env lib m oe rnd clk) oe yaml path"
  "live_ok (production_env lib m oe rnd clk) oe" requests_left live_answered
  for lib m oe rnd clk yaml path
proof
  fix \<pi> :: "('a, 'c) live"
  assume "live_ok (production_env lib m oe rnd clk) oe \<pi>" and "\<not> live_answered \<pi>"
  with live_go_possible show "\<exists>l s'. request_go (production_env lib m oe rnd clk) oe yaml path \<pi> l s'"
    unfolding live_answered_def request_go_def by blast
qed (auto simp: request_go_def intro: live_go_ok live_go_left)

interpretation patient_request: finishing_system "patient_go (production_env lib m oe rnd clk) oe yaml path t"
  "\<lambda>\<pi>. live_ok (production_env lib m oe rnd clk) oe \<pi> \<and> present t \<pi>" requests_left "has_answer t"
  for lib m oe rnd clk yaml path t
proof
  fix \<pi> :: "('a, 'c) live"
  assume ok: "live_ok (production_env lib m oe rnd clk) oe \<pi> \<and> present t \<pi>" and "\<not> has_answer t \<pi>"
  then obtain rq pt where "lv_threads \<pi> t = Some (rq, pt)" "\<not> is_Answered pt"
    by (auto simp: present_def has_answer_def answers_def answer_of_iff is_Answered_iff)
  with ok live_go_possible show "\<exists>l s'. patient_go (production_env lib m oe rnd clk) oe yaml path t \<pi> l s'"
    unfolding patient_go_def by blast
qed (auto simp: patient_go_def present_def intro: live_go_ok live_go_left dest: live_go_keeps)

end
