(* ===== verification/ConcurrentRefine.thy ===== *)
theory ConcurrentRefine
  imports ConcurrentProgress
begin

text \<open>
  The fine steps and the sequential functions: a call of \<open>provider\<close> that runs alone returns
  what the function \<open>provider\<close> returns and leaves the entries that it leaves, and a request that
  runs alone is \<open>Sign\<close>.
\<close>

section \<open>The cache behind the locks\<close>

definition pool_view :: "'p pool \<Rightarrow> 'p verifier_state" where
  "pool_view \<sigma> = \<lparr>vs_tick = pl_tick \<sigma>, vs_net = pl_net \<sigma>,
     vs_providers = (\<lambda>iss. map_option (pl_heap \<sigma>) (pl_providers \<sigma> iss))\<rparr>"

definition unlocked :: "'p pool \<Rightarrow> bool" where
  "unlocked \<sigma> \<longleftrightarrow> pl_mu \<sigma> = None \<and> (\<forall>a. pl_owner \<sigma> a = None)"

definition without_cache :: "'p verifier_state \<Rightarrow> 'p verifier_state" where
  "without_cache s = s\<lparr>vs_providers := (\<lambda>_. None)\<rparr>"

lemma without_cache_simps [simp]:
  "vs_tick (without_cache s) = vs_tick s" "vs_net (without_cache s) = vs_net s"
  "without_cache (s\<lparr>vs_tick := k\<rparr>) = (without_cache s)\<lparr>vs_tick := k\<rparr>"
  "without_cache (s\<lparr>vs_net := n\<rparr>) = (without_cache s)\<lparr>vs_net := n\<rparr>"
  "without_cache (s\<lparr>vs_providers := ps\<rparr>) = without_cache s"
  "without_cache (without_cache s) = without_cache s"
  by (simp_all add: without_cache_def)

lemma without_cache_put [simp]: "without_cache (put_entry s iss e) = without_cache s"
  by (simp add: without_cache_def put_entry_def)

lemma counters_view: "counters \<sigma> = without_cache (pool_view \<sigma>)"
  by (simp add: counters_def without_cache_def pool_view_def)

section \<open>The section under the lock of an entry\<close>

text \<open>Its steps, on the program point, the entry and the counters.\<close>

definition section_move ::
  "'p oidc_env \<Rightarrow> string \<Rightarrow> 'p pc \<times> 'p providerEntry \<times> 'p verifier_state \<Rightarrow> bool
   \<Rightarrow> 'p pc \<times> 'p providerEntry \<times> 'p verifier_state \<Rightarrow> bool" where
  "section_move env iss x c y \<longleftrightarrow> (case x of (pc, e, s) \<Rightarrow> working pc \<and> entry_step env c iss pc e s = y)"

lemma section_move_iff:
  "section_move env iss (pc, e, s) c y \<longleftrightarrow> working pc \<and> entry_step env c iss pc e s = y"
  by (simp add: section_move_def)

lemma section_none: "steps (section_move env iss) x [] x"
  by (rule steps_none)

lemma section_more:
  "working pc \<Longrightarrow> entry_step env c iss pc e s = y \<Longrightarrow> steps (section_move env iss) y cs z \<Longrightarrow>
     steps (section_move env iss) (pc, e, s) (c # cs) z"
  by (rule steps_more) (simp add: section_move_def)

lemma read_clock_without:
  "read_clock env (without_cache s) = (fst (read_clock env s), without_cache (snd (read_clock env s)))"
  by (simp add: read_clock_def)

lemma checkJWKS_without:
  "checkJWKS env uri (without_cache s) = (fst (checkJWKS env uri s), without_cache (snd (checkJWKS env uri s)))"
  by (auto simp: checkJWKS_def use_net_def split: option.split sum.split prod.split)

lemma discoverProvider_without:
  "discoverProvider env iss (without_cache s)
     = (fst (discoverProvider env iss s), without_cache (snd (discoverProvider env iss s)))"
  by (auto simp: discoverProvider_def use_net_def checkJWKS_without [of _ _ "s\<lparr>vs_net := Suc (vs_net s)\<rparr>", simplified]
      split: option.split sum.split prod.split)

lemma cache_fresh_without:
  "cache_fresh env e (without_cache s) = (fst (cache_fresh env e s), without_cache (snd (cache_fresh env e s)))"
  by (simp add: cache_fresh_def read_clock_without case_prod_beta)

lemma backing_off_without:
  "backing_off env e (without_cache s) = (fst (backing_off env e s), without_cache (snd (backing_off env e s)))"
  by (simp add: backing_off_def read_clock_without case_prod_beta)

lemmas step_without = read_clock_without discoverProvider_without cache_fresh_without backing_off_without

text \<open>The result of a call, with the entry it leaves.\<close>

definition leaves ::
  "'p oidc_env \<Rightarrow> string \<Rightarrow> 'p pc \<Rightarrow> 'p providerEntry \<Rightarrow> 'p verifier_state \<Rightarrow> 'p verifier_state
   \<Rightarrow> (provider_error, 'p) result \<Rightarrow> 'p verifier_state \<Rightarrow> nat \<Rightarrow> nat \<Rightarrow> bool" where
  "leaves env iss pc e s v r v' a n \<longleftrightarrow> (\<exists>cs e'. length cs \<le> n
     \<and> steps (section_move env iss) (pc, e, without_cache s) cs (Unlock a r, e', without_cache v')
     \<and> vs_providers v' = (vs_providers v)(iss \<mapsto> e'))"

lemma leavesI:
  "steps (section_move env iss) (pc, e, without_cache s) cs (Unlock a r, e', without_cache v') \<Longrightarrow>
     length cs \<le> n \<Longrightarrow> vs_providers v' = (vs_providers v)(iss \<mapsto> e') \<Longrightarrow> leaves env iss pc e s v r v' a n"
  unfolding leaves_def by blast

lemma leaves_more:
  assumes "working pc" and "entry_step env c iss pc e (without_cache s) = (pc', e', without_cache s')"
    and "leaves env iss pc' e' s' v r v' a n"
  shows "leaves env iss pc e s v r v' a (Suc n)"
  using assms section_more [OF assms(1,2)] unfolding leaves_def by (metis Suc_le_mono length_Cons)

lemma refresh_leaves:
  assumes "refresh env iss e s = (r, v')" and "vs_providers s = (vs_providers v)(iss \<mapsto> e)"
  shows "leaves env iss (Discover a) e s v r v' a 4"
proof -
  obtain d s1 where d: "discoverProvider env iss s = (d, s1)" by (cases "discoverProvider env iss s")
  then have prov: "vs_providers s1 = (vs_providers v)(iss \<mapsto> e)"
    using discoverProvider_state [OF d] assms(2) by simp
  show ?thesis
  proof (cases d)
    case (Inl err)
    show ?thesis
    proof (cases "env_ctx_err env (vs_net s1)")
      case True
      with assms(1) d Inl have "r = (case ent_provider e of Some q \<Rightarrow> Inr q | None \<Rightarrow> Inl err)" "v' = put_entry s1 iss e"
        by (auto simp: refresh_def Let_def split: option.splits)
      with d Inl True prov show ?thesis
        by (intro leavesI [where cs = "[True, True, True]"])
          (simp_all add: steps_Cons_iff section_move_def step_without put_entry_def)
    next
      case False
      with assms(1) d Inl have "r = (case ent_provider e of Some q \<Rightarrow> Inr q | None \<Rightarrow> Inl err)"
        "v' = put_entry (s1\<lparr>vs_tick := vs_tick s1 + 1\<rparr>) iss
          (e\<lparr>ent_err := Some err, ent_failedAt := env_clock env (vs_tick s1)\<rparr>)"
        by (auto simp: refresh_def Let_def read_clock_def split: option.splits)
      with d Inl False prov show ?thesis
        by (intro leavesI [where cs = "[False, False, False, False]"])
          (simp_all add: steps_Cons_iff section_move_def step_without read_clock_def put_entry_def)
    qed
  next
    case (Inr p)
    with assms(1) d have "r = Inr p" "v' = put_entry (s1\<lparr>vs_tick := vs_tick s1 + 1\<rparr>) iss
        (e\<lparr>ent_provider := Some p, ent_fetchedAt := env_clock env (vs_tick s1), ent_err := None\<rparr>)"
      by (auto simp: refresh_def Let_def read_clock_def)
    with d Inr prov show ?thesis
      by (intro leavesI [where cs = "[False, False, False, False]"])
        (simp_all add: steps_Cons_iff section_move_def step_without read_clock_def put_entry_def)
  qed
qed

lemma provider_leaves:
  assumes "provider env iss v = (r, v')"
  shows "leaves env iss (Fresh a) (entry v iss) v v r v' a 6"
proof -
  define e s0 where "e = entry v iss" and "s0 = put_entry v iss e"
  obtain b s1 where c: "cache_fresh env e s0 = (b, s1)" by (cases "cache_fresh env e s0")
  obtain w s2 where d: "backing_off env e s1 = (w, s2)" by (cases "backing_off env e s1")
  have prov: "vs_providers s1 = (vs_providers v)(iss \<mapsto> e)" "vs_providers s2 = (vs_providers v)(iss \<mapsto> e)"
    using cache_fresh_state [OF c] backing_off_state [OF d] by (auto simp: s0_def put_entry_def)
  have s0: "without_cache v = without_cache s0" by (simp add: s0_def)
  note p = assms [unfolded provider_def Let_def, folded e_def, folded s0_def, unfolded c, simplified]
  have first: "entry_step env True iss (Fresh a) e (without_cache v)
      = (if b then Unlock a (Inr (the (ent_provider e))) else Backoff a, e, without_cache s1)"
    using c by (simp add: s0 step_without)
  have second: "entry_step env True iss (Backoff a) e (without_cache s1)
      = (if w then Unlock a (case ent_provider e of Some q \<Rightarrow> Inr q | None \<Rightarrow> Inl (the (ent_err e))) else Discover a,
         e, without_cache s2)"
    using d by (simp add: step_without)
  have quit: "leaves env iss (Unlock a r) e v' v r v' a n" if "vs_providers v' = (vs_providers v)(iss \<mapsto> e)" for n
    by (rule leavesI [where cs = "[]", OF section_none]) (simp_all add: that)
  show ?thesis
  proof (cases b)
    case True
    with p have "r = Inr (the (ent_provider e))" "v' = s1" by auto
    with True first leaves_more [OF _ _ quit [of 5], of "Fresh a" True e v] prov(1) show ?thesis
      by (simp add: e_def)
  next
    case nb: False
    have "leaves env iss (Backoff a) e s1 v r v' a 5"
    proof (cases w)
      case True
      with p nb d have "r = (case ent_provider e of Some q \<Rightarrow> Inr q | None \<Rightarrow> Inl (the (ent_err e)))" "v' = s2"
        by (auto split: option.splits)
      with True second leaves_more [OF _ _ quit [of 4], of "Backoff a" True e s1] prov(2) show ?thesis
        by simp
    next
      case False
      with p nb d have "refresh env iss e s2 = (r, v')" by simp
      from leaves_more [OF _ _ refresh_leaves [OF this prov(2), of a], of "Backoff a" True e s1] second False
      show ?thesis by simp
    qed
    from leaves_more [OF _ _ this, of "Fresh a" True e v] first nb show ?thesis
      by (simp add: e_def)
  qed
qed

text \<open>The same steps in the pool.\<close>

lemma entry_step_inside:
  "entry_step env c iss pc e s = (pc', e', s') \<Longrightarrow> working pc \<Longrightarrow> inside pc' = inside pc"
  by (cases pc) (auto split: if_splits prod.splits sum.splits)

lemma entry_step_without:
  "entry_step env c iss pc e (without_cache s) = (pc', e', s') \<Longrightarrow> s' = without_cache s'"
  by (cases pc) (auto simp: step_without case_prod_beta split: if_splits sum.splits)

lemma section_in_pool:
  assumes "steps (section_move env iss) (pc, pl_heap \<sigma> a, counters \<sigma>) cs (pc', e', s')"
    and "pl_calls \<sigma> t = Some (iss, pc)" and "inside pc = Some a"
  shows "steps (pool_step env) \<sigma> (replicate (length cs) (Move t))
    (\<sigma>\<lparr>pl_heap := (pl_heap \<sigma>)(a := e'), pl_tick := vs_tick s', pl_net := vs_net s',
       pl_calls := (pl_calls \<sigma>)(t \<mapsto> (iss, pc'))\<rparr>)"
  using assms
proof (induction cs arbitrary: \<sigma> pc)
  case Nil
  then have "(\<sigma>\<lparr>pl_heap := (pl_heap \<sigma>)(a := e'), pl_tick := vs_tick s', pl_net := vs_net s',
       pl_calls := (pl_calls \<sigma>)(t \<mapsto> (iss, pc'))\<rparr>) = \<sigma>"
    by (auto simp: counters_def fun_upd_idem_iff)
  then show ?case unfolding list.size replicate.simps by (simp only: steps_none)
next
  case (Cons c cs)
  obtain pc1 e1 s1 where w: "working pc" "entry_step env c iss pc (pl_heap \<sigma> a) (counters \<sigma>) = (pc1, e1, s1)"
    and rest: "steps (section_move env iss) (pc1, e1, s1) cs (pc', e', s')"
    using Cons.prems(1) by (cases "entry_step env c iss pc (pl_heap \<sigma> a) (counters \<sigma>)")
      (auto simp: steps_Cons_iff section_move_iff)
  define \<sigma>1 where "\<sigma>1 = \<sigma>\<lparr>pl_heap := (pl_heap \<sigma>)(a := e1), pl_tick := vs_tick s1, pl_net := vs_net s1,
       pl_calls := (pl_calls \<sigma>)(t \<mapsto> (iss, pc1))\<rparr>"
  have s1: "s1 = without_cache s1" using w(2) entry_step_without unfolding counters_view by blast
  then have "counters \<sigma>1 = s1" by (cases s1) (simp add: \<sigma>1_def counters_def without_cache_def)
  moreover have "inside pc1 = Some a" using entry_step_inside [OF w(2,1)] Cons.prems(3) by simp
  ultimately have ih: "steps (pool_step env) \<sigma>1 (replicate (length cs) (Move t))
    (\<sigma>1\<lparr>pl_heap := (pl_heap \<sigma>1)(a := e'), pl_tick := vs_tick s', pl_net := vs_net s',
       pl_calls := (pl_calls \<sigma>1)(t \<mapsto> (iss, pc'))\<rparr>)"
    using rest by (intro Cons.IH) (simp_all add: \<sigma>1_def)
  obtain a' where a': "inside pc = Some a'" "turn env c t iss pc \<sigma>
      = Some (pc1, \<sigma>\<lparr>pl_heap := (pl_heap \<sigma>)(a' := e1), pl_tick := vs_tick s1, pl_net := vs_net s1\<rparr>)"
    using w Cons.prems(3) by (elim turn_working [of pc env c t iss \<sigma>]) simp
  then have step: "pool_step env \<sigma> (Move t) \<sigma>1"
    using pool_step.move [OF Cons.prems(2) a'(2)] Cons.prems(3) by (simp add: \<sigma>1_def)
  have same: "\<sigma>1\<lparr>pl_heap := (pl_heap \<sigma>1)(a := e'), pl_tick := vs_tick s', pl_net := vs_net s',
       pl_calls := (pl_calls \<sigma>1)(t \<mapsto> (iss, pc'))\<rparr>
    = \<sigma>\<lparr>pl_heap := (pl_heap \<sigma>)(a := e'), pl_tick := vs_tick s', pl_net := vs_net s',
       pl_calls := (pl_calls \<sigma>)(t \<mapsto> (iss, pc'))\<rparr>"
    by (simp add: \<sigma>1_def)
  show ?case unfolding list.size add_0_right add_Suc_right replicate.simps
    by (rule steps_more [OF step ih [unfolded same]])
qed

section \<open>A call alone\<close>

lemma pool_move1:
  "pl_calls \<sigma> t = Some (iss, pc) \<Longrightarrow> turn env False t iss pc \<sigma> = Some (pc', \<sigma>') \<Longrightarrow>
     steps (pool_step env) (\<sigma>'\<lparr>pl_calls := (pl_calls \<sigma>)(t \<mapsto> (iss, pc'))\<rparr>) (replicate n (Move t)) \<sigma>'' \<Longrightarrow>
     steps (pool_step env) \<sigma> (replicate (Suc n) (Move t)) \<sigma>''"
  by (auto intro: steps_more pool_step.move)

text \<open>Once the entry is in the map: from \<open>v.mu.Unlock()\<close> to the return.\<close>

lemma call_from_entry:
  assumes "pl_calls \<sigma> t = Some (iss, UnlockMap a)" and "pl_mu \<sigma> = Some t" and "\<forall>b. pl_owner \<sigma> b = None"
    and "map_ok \<sigma>" and "pl_providers \<sigma> iss = Some a"
    and "provider env iss (pool_view \<sigma>) = (r, v)"
  shows "\<exists>n \<sigma>'. n \<le> 9 \<and> steps (pool_step env) \<sigma> (replicate n (Move t)) \<sigma>' \<and> unlocked \<sigma>' \<and> map_ok \<sigma>'
    \<and> pool_view \<sigma>' = v \<and> pl_calls \<sigma>' = (pl_calls \<sigma>)(t \<mapsto> (iss, Returned r))"
proof -
  define \<sigma>1 where "\<sigma>1 = \<sigma>\<lparr>pl_mu := None, pl_owner := (pl_owner \<sigma>)(a \<mapsto> t),
    pl_calls := (pl_calls \<sigma>)(t \<mapsto> (iss, Fresh a))\<rparr>"
  have e: "entry (pool_view \<sigma>) iss = pl_heap \<sigma>1 a" "without_cache (pool_view \<sigma>) = counters \<sigma>1"
    using assms(5) by (simp_all add: entry_def pool_view_def \<sigma>1_def counters_def without_cache_def)
  obtain cs e' where cs: "length cs \<le> 6"
    "steps (section_move env iss) (Fresh a, pl_heap \<sigma>1 a, counters \<sigma>1) cs (Unlock a r, e', without_cache v)"
    "vs_providers v = (vs_providers (pool_view \<sigma>))(iss \<mapsto> e')"
    using provider_leaves [OF assms(6), of a] unfolding leaves_def e by blast
  define \<sigma>2 where "\<sigma>2 = \<sigma>1\<lparr>pl_heap := (pl_heap \<sigma>1)(a := e'), pl_tick := vs_tick v, pl_net := vs_net v,
    pl_calls := (pl_calls \<sigma>1)(t \<mapsto> (iss, Unlock a r))\<rparr>"
  define \<sigma>3 where "\<sigma>3 = \<sigma>2\<lparr>pl_owner := (pl_owner \<sigma>2)(a := None), pl_calls := (pl_calls \<sigma>2)(t \<mapsto> (iss, Returned r))\<rparr>"
  have body: "steps (pool_step env) \<sigma>1 (replicate (length cs) (Move t)) \<sigma>2"
    using section_in_pool [OF cs(2), of t] by (simp add: \<sigma>1_def \<sigma>2_def)
  have last: "steps (pool_step env) \<sigma>2 (replicate (Suc 0) (Move t)) \<sigma>3"
    by (rule pool_move1 [of _ _ iss "Unlock a r" _ "Returned r" "\<sigma>2\<lparr>pl_owner := (pl_owner \<sigma>2)(a := None)\<rparr>"])
      (simp_all add: \<sigma>2_def \<sigma>3_def)
  define \<sigma>0 where "\<sigma>0 = \<sigma>\<lparr>pl_mu := None, pl_calls := (pl_calls \<sigma>)(t \<mapsto> (iss, LockEntry a))\<rparr>"
  have "steps (pool_step env) \<sigma>1 (replicate (length cs + Suc 0) (Move t)) \<sigma>3"
    unfolding replicate_add steps_append using body last by blast
  then have "steps (pool_step env) \<sigma>0 (replicate (Suc (length cs + Suc 0)) (Move t)) \<sigma>3"
    by (intro pool_move1 [of \<sigma>0 t iss "LockEntry a" env "Fresh a" "\<sigma>0\<lparr>pl_owner := (pl_owner \<sigma>0)(a \<mapsto> t)\<rparr>"])
      (simp_all add: \<sigma>0_def \<sigma>1_def assms(3))
  then have "steps (pool_step env) \<sigma> (replicate (Suc (Suc (length cs + Suc 0))) (Move t)) \<sigma>3"
    by (intro pool_move1 [OF assms(1), of env "LockEntry a" "\<sigma>\<lparr>pl_mu := None\<rparr>"]) (simp_all add: \<sigma>0_def)
  moreover have "map_ok \<sigma>3" using assms(4) by (simp add: map_ok_def \<sigma>3_def \<sigma>2_def \<sigma>1_def)
  moreover have "unlocked \<sigma>3" using assms(3) by (simp add: unlocked_def \<sigma>3_def \<sigma>2_def \<sigma>1_def)
  moreover have "pool_view \<sigma>3 = v"
  proof -
    have "map_option (pl_heap \<sigma>3) (pl_providers \<sigma>3 i) = vs_providers v i" for i
      using assms(4,5) unfolding cs(3) map_ok_def
      by (cases "i = iss"; cases "pl_providers \<sigma> i") (auto simp: pool_view_def \<sigma>3_def \<sigma>2_def \<sigma>1_def)
    then show ?thesis by (cases v) (auto simp: pool_view_def \<sigma>3_def \<sigma>2_def)
  qed
  moreover have "pl_calls \<sigma>3 = (pl_calls \<sigma>)(t \<mapsto> (iss, Returned r))"
    by (simp add: \<sigma>3_def \<sigma>2_def \<sigma>1_def)
  moreover have "Suc (Suc (length cs + Suc 0)) \<le> 9" using cs(1) by simp
  ultimately show ?thesis by blast
qed

text \<open>The entry is inserted before it is read.\<close>

lemma provider_put_entry: "provider env iss (put_entry s iss (entry s iss)) = provider env iss s"
  by (simp add: provider_def put_entry_def entry_def)

lemma call_alone:
  assumes "pl_calls \<sigma> t = Some (iss, LockMap)" and "unlocked \<sigma>" and "map_ok \<sigma>"
    and "provider env iss (pool_view \<sigma>) = (r, v)"
  shows "\<exists>n \<sigma>'. n \<le> 12 \<and> steps (pool_step env) \<sigma> (replicate n (Move t)) \<sigma>' \<and> unlocked \<sigma>' \<and> map_ok \<sigma>'
    \<and> pool_view \<sigma>' = v \<and> pl_calls \<sigma>' = (pl_calls \<sigma>)(t \<mapsto> (iss, Returned r))"
proof -
  define \<sigma>1 where "\<sigma>1 = \<sigma>\<lparr>pl_mu := Some t, pl_calls := (pl_calls \<sigma>)(t \<mapsto> (iss, Lookup))\<rparr>"
  have free: "pl_mu \<sigma> = None" "\<forall>b. pl_owner \<sigma> b = None" using assms(2) by (simp_all add: unlocked_def)
  have go1: "steps (pool_step env) \<sigma> (replicate (Suc n) (Move t)) \<sigma>''"
    if "steps (pool_step env) \<sigma>1 (replicate n (Move t)) \<sigma>''" for n \<sigma>''
    by (rule pool_move1 [OF assms(1), of env Lookup "\<sigma>\<lparr>pl_mu := Some t\<rparr>"])
      (use that free in \<open>simp_all add: \<sigma>1_def\<close>)
  show ?thesis
  proof (cases "pl_providers \<sigma> iss")
    case (Some a)
    define \<sigma>2 where "\<sigma>2 = \<sigma>1\<lparr>pl_calls := (pl_calls \<sigma>1)(t \<mapsto> (iss, UnlockMap a))\<rparr>"
    have go2: "steps (pool_step env) \<sigma>1 (replicate (Suc n) (Move t)) \<sigma>''"
      if "steps (pool_step env) \<sigma>2 (replicate n (Move t)) \<sigma>''" for n \<sigma>''
      by (rule pool_move1 [of \<sigma>1 t iss Lookup env "UnlockMap a" \<sigma>1])
        (use that Some in \<open>simp_all add: \<sigma>1_def \<sigma>2_def\<close>)
    have "pool_view \<sigma>2 = pool_view \<sigma>" "map_ok \<sigma>2"
      using assms(3) by (simp_all add: \<sigma>2_def \<sigma>1_def pool_view_def map_ok_def)
    with call_from_entry [of \<sigma>2 t iss a env r v] Some free assms(4)
    obtain n \<sigma>' where n: "n \<le> 9" "steps (pool_step env) \<sigma>2 (replicate n (Move t)) \<sigma>'" "unlocked \<sigma>'" "map_ok \<sigma>'"
      "pool_view \<sigma>' = v" "pl_calls \<sigma>' = (pl_calls \<sigma>)(t \<mapsto> (iss, Returned r))"
      by (auto simp: \<sigma>2_def \<sigma>1_def)
    show ?thesis
      by (rule exI [of _ "Suc (Suc n)"], rule exI [of _ \<sigma>']) (use n go1 [OF go2 [OF n(2)]] in simp)
  next
    case None
    define a where "a = pl_next \<sigma>"
    define \<sigma>2 where "\<sigma>2 = \<sigma>1\<lparr>pl_calls := (pl_calls \<sigma>1)(t \<mapsto> (iss, Insert))\<rparr>"
    define \<sigma>3 where "\<sigma>3 = \<sigma>2\<lparr>pl_next := a + 1, pl_heap := (pl_heap \<sigma>2)(a := empty_entry),
      pl_providers := (pl_providers \<sigma>2)(iss \<mapsto> a), pl_calls := (pl_calls \<sigma>2)(t \<mapsto> (iss, UnlockMap a))\<rparr>"
    have go2: "steps (pool_step env) \<sigma>1 (replicate (Suc n) (Move t)) \<sigma>''"
      if "steps (pool_step env) \<sigma>2 (replicate n (Move t)) \<sigma>''" for n \<sigma>''
      by (rule pool_move1 [of \<sigma>1 t iss Lookup env Insert \<sigma>1])
        (use that None in \<open>simp_all add: \<sigma>1_def \<sigma>2_def\<close>)
    have go3: "steps (pool_step env) \<sigma>2 (replicate (Suc n) (Move t)) \<sigma>''"
      if "steps (pool_step env) \<sigma>3 (replicate n (Move t)) \<sigma>''" for n \<sigma>''
      by (rule pool_move1 [of \<sigma>2 t iss Insert env "UnlockMap a" "\<sigma>2\<lparr>pl_next := a + 1,
          pl_heap := (pl_heap \<sigma>2)(a := empty_entry), pl_providers := (pl_providers \<sigma>2)(iss \<mapsto> a)\<rparr>"])
        (use that in \<open>simp_all add: \<sigma>1_def \<sigma>2_def \<sigma>3_def a_def\<close>)
    have "map_option ((pl_heap \<sigma>)(a := empty_entry)) (pl_providers \<sigma> i) = map_option (pl_heap \<sigma>) (pl_providers \<sigma> i)" for i
      using assms(3) unfolding map_ok_def a_def by (cases "pl_providers \<sigma> i") auto
    then have "pool_view \<sigma>3 = put_entry (pool_view \<sigma>) iss (entry (pool_view \<sigma>) iss)"
      using None by (auto simp: pool_view_def put_entry_def entry_def \<sigma>3_def \<sigma>2_def \<sigma>1_def fun_eq_iff)
    moreover have "map_ok \<sigma>3"
      using assms(3) unfolding map_ok_def by (auto simp: \<sigma>3_def \<sigma>2_def \<sigma>1_def a_def less_SucI)
    ultimately obtain n \<sigma>' where n: "n \<le> 9" "steps (pool_step env) \<sigma>3 (replicate n (Move t)) \<sigma>'" "unlocked \<sigma>'" "map_ok \<sigma>'"
      "pool_view \<sigma>' = v" "pl_calls \<sigma>' = (pl_calls \<sigma>)(t \<mapsto> (iss, Returned r))"
      using call_from_entry [of \<sigma>3 t iss a env r v] free assms(4)
      by (auto simp: \<sigma>3_def \<sigma>2_def \<sigma>1_def provider_put_entry)
    show ?thesis
      by (rule exI [of _ "Suc (Suc (Suc n))"], rule exI [of _ \<sigma>']) (use n go1 [OF go2 [OF go3 [OF n(2)]]] in simp)
  qed
qed

section \<open>A request alone\<close>

text \<open>The server as the sequential functions see it.\<close>

definition server_view :: "'p pool server_state \<Rightarrow> 'p verifier_state server_state" where
  "server_view s = \<lparr>st_policy = st_policy s, st_verifier = pool_view (st_verifier s),
     st_audit = st_audit s, st_rand = st_rand s, st_tick = st_tick s\<rparr>"

lemma server_view_simps [simp]:
  "st_policy (server_view s) = st_policy s"
  "st_verifier (server_view s) = pool_view (st_verifier s)"
  "server_view (s\<lparr>st_verifier := pool\<rparr>) = (server_view s)\<lparr>st_verifier := pool_view pool\<rparr>"
  "server_view (s\<lparr>st_audit := l\<rparr>) = (server_view s)\<lparr>st_audit := l\<rparr>"
  "(server_view s)\<lparr>st_verifier := pool_view (st_verifier s)\<rparr> = server_view s"
  "st_audit (server_view s) = st_audit s"
  by (simp_all add: server_view_def)

lemma pool_view_simps [simp]:
  "vs_net (pool_view \<sigma>) = pl_net \<sigma>" "vs_tick (pool_view \<sigma>) = pl_tick \<sigma>"
  "pool_view (\<sigma>\<lparr>pl_net := n\<rparr>) = (pool_view \<sigma>)\<lparr>vs_net := n\<rparr>"
  "pool_view (\<sigma>\<lparr>pl_tick := k\<rparr>) = (pool_view \<sigma>)\<lparr>vs_tick := k\<rparr>"
  "pool_view (start_call t iss \<sigma>) = pool_view \<sigma>"
  by (simp_all add: pool_view_def start_call_def)

lemma newRequestID_view:
  "newRequestID env (server_view s) = (fst (newRequestID env s), server_view (snd (newRequestID env s)))"
  by (simp add: newRequestID_def server_view_def)

lemma deny_view: "deny (server_view s) rid d = (fst (deny s rid d), server_view (snd (deny s rid d)))"
  by (simp add: deny_def)

lemma issue_cert_view:
  "issue_cert env pol rule keyID pub ca (server_view s)
     = (fst (issue_cert env pol rule keyID pub ca s), server_view (snd (issue_cert env pol rule keyID pub ca s)))"
  by (simp add: issue_cert_def Let_def server_view_def split: sum.split)

text \<open>What is left of \<open>Sign\<close> at the points of a request.\<close>

definition rest_issued ::
  "string \<Rightarrow> string \<Rightarrow> detail attrs \<Rightarrow> 'vs server_state \<Rightarrow> Response \<times> 'vs server_state" where
  "rest_issued rid out attrs s =
     (\<lparr>rsp_Status = 200, rsp_ContentType = ''text/plain; charset=utf-8'', rsp_Body = out,
        rsp_RequestID = rid\<rparr>, s\<lparr>st_audit := Issued rid attrs (st_audit s)\<rparr>)"

definition rest_granting ::
  "('pk, 'sk, 'v) server_env \<Rightarrow> string \<Rightarrow> Policy \<Rightarrow> 'pk \<Rightarrow> Identity \<Rightarrow> Rule \<Rightarrow> string \<Rightarrow> 'vs server_state
   \<Rightarrow> Response \<times> 'vs server_state" where
  "rest_granting env rid pol pub i rule keyID s =
     (let ca = key_attrs (sv_lib env) pub @ identityAttrs i in
      case issue_cert env pol rule keyID pub ca s of
        (Inl d, s') \<Rightarrow> deny s' rid d
      | (Inr out, s') \<Rightarrow> rest_issued rid out (issued_attrs pol rule keyID @ ca) s')"

definition rest_dating ::
  "('pk, 'sk, 'v) server_env \<Rightarrow> 'p oidc_env \<Rightarrow> string \<Rightarrow> Policy \<Rightarrow> 'pk \<Rightarrow> id_token \<Rightarrow> claims
   \<Rightarrow> 'p verifier_state server_state \<Rightarrow> Response \<times> 'p verifier_state server_state" where
  "rest_dating env oe rid pol pub idt cs s =
     (let v = st_verifier s; k = vs_tick v; ka = key_attrs (sv_lib env) pub;
          s' = s\<lparr>st_verifier := v\<lparr>vs_tick := k + 1\<rparr>\<rparr> in
      case check_dates oe k idt cs of
        Inl e \<Rightarrow> deny s' rid (token_denied ka e)
      | Inr i \<Rightarrow>
          (case authorize pol i (ka @ identityAttrs i) of
             Inl d \<Rightarrow> deny s' rid d
           | Inr (rule, keyID) \<Rightarrow> rest_granting env rid pol pub i rule keyID s'))"

definition rest_verifying ::
  "('pk, 'sk, 'v) server_env \<Rightarrow> 'p oidc_env \<Rightarrow> string \<Rightarrow> Policy \<Rightarrow> 'pk \<Rightarrow> string \<Rightarrow> 'p
   \<Rightarrow> 'p verifier_state server_state \<Rightarrow> Response \<times> 'p verifier_state server_state" where
  "rest_verifying env oe rid pol pub tok p s =
     (let v = st_verifier s; n = vs_net v; s' = s\<lparr>st_verifier := v\<lparr>vs_net := n + 1\<rparr>\<rparr> in
      case check_token oe n p tok of
        Inl e \<Rightarrow> deny s' rid (token_denied (key_attrs (sv_lib env) pub) e)
      | Inr (idt, cs) \<Rightarrow> rest_dating env oe rid pol pub idt cs s')"

definition rest_fetching ::
  "('pk, 'sk, 'v) server_env \<Rightarrow> 'p oidc_env \<Rightarrow> string \<Rightarrow> Policy \<Rightarrow> 'pk \<Rightarrow> string \<Rightarrow> string
   \<Rightarrow> 'p verifier_state server_state \<Rightarrow> Response \<times> 'p verifier_state server_state" where
  "rest_fetching env oe rid pol pub tok iss s =
     (case provider oe iss (st_verifier s) of
        (Inl e, v) \<Rightarrow>
          deny (s\<lparr>st_verifier := v\<rparr>) rid (token_denied (key_attrs (sv_lib env) pub) (DiscoveryFailed iss e))
      | (Inr p, v) \<Rightarrow> rest_verifying env oe rid pol pub tok p (s\<lparr>st_verifier := v\<rparr>))"

definition rest_named ::
  "('pk, 'sk, 'v) server_env \<Rightarrow> 'p oidc_env \<Rightarrow> string \<Rightarrow> sign_request
   \<Rightarrow> 'p verifier_state server_state \<Rightarrow> Response \<times> 'p verifier_state server_state" where
  "rest_named env oe rid rq s =
     (let pol = st_policy s in
      case check_request (sv_lib env) pol (sr_method rq) (sr_body rq) of
        Inl d \<Rightarrow> deny s rid d
      | Inr pub \<Rightarrow>
          (case token_gate pol (sr_auth rq) (key_attrs (sv_lib env) pub) of
             Inl d \<Rightarrow> deny s rid d
           | Inr (tok, iss) \<Rightarrow> rest_fetching env oe rid pol pub tok iss s))"

lemmas rest_defs = rest_named_def rest_fetching_def rest_verifying_def rest_dating_def rest_granting_def
  rest_issued_def

lemma Sign_rest:
  "Sign (production_env lib m oe rnd clk) s (sr_method rq) (sr_auth rq) (sr_body rq)
    = rest_named (production_env lib m oe rnd clk) oe (fst (newRequestID (production_env lib m oe rnd clk) s)) rq
        (snd (newRequestID (production_env lib m oe rnd clk) s))" (is "Sign ?env s _ _ _ = _")
proof -
  define rid s0 where "rid = fst (newRequestID ?env s)" and "s0 = snd (newRequestID ?env s)"
  have pol: "st_policy s0 = st_policy s" by (simp add: s0_def)
  have n: "newRequestID ?env s = (rid, s0)" by (simp add: rid_def s0_def)
  show ?thesis
    unfolding Sign_def sign_with_def n
    by (simp add: rest_defs sign_pipeline_def authenticate_def token_gate_def Verify_parts pol
        token_denied_def Let_def split: sum.split option.split prod.split)
qed

text \<open>A run of one request to its answer: at most \<open>N\<close> steps, no lock left, and the response
  and state that are given.\<close>

definition ends ::
  "('pk, 'sk, 'v) server_env \<Rightarrow> 'p oidc_env \<Rightarrow> yaml_lib \<Rightarrow> string \<Rightarrow> nat \<Rightarrow> nat \<Rightarrow> ('pk, 'p) live
   \<Rightarrow> sign_request \<Rightarrow> Response \<times> 'p verifier_state server_state \<Rightarrow> bool" where
  "ends env oe yaml path t N \<pi> rq out \<longleftrightarrow> (\<exists>n \<pi>'. n \<le> N
     \<and> steps (live_step env oe yaml path) \<pi> (replicate n (Go t)) \<pi>'
     \<and> lv_threads \<pi>' = (lv_threads \<pi>)(t \<mapsto> (rq, Answered (fst out)))
     \<and> server_view (lv_server \<pi>') = snd out \<and> unlocked (st_verifier (lv_server \<pi>'))
     \<and> lv_loop \<pi>' = lv_loop \<pi> \<and> lv_phase \<pi>' = lv_phase \<pi>)"

text \<open>A request at a point, nothing locked.\<close>

definition alone_at :: "nat \<Rightarrow> sign_request \<Rightarrow> ('pk, 'p) point \<Rightarrow> ('pk, 'p) live \<Rightarrow> bool" where
  "alone_at t rq pt \<pi> \<longleftrightarrow> live_running \<pi> \<and> lv_threads \<pi> t = Some (rq, pt)
     \<and> unlocked (st_verifier (lv_server \<pi>)) \<and> map_ok (st_verifier (lv_server \<pi>))"

definition moved_to :: "nat \<Rightarrow> sign_request \<Rightarrow> ('pk, 'p) point \<Rightarrow> 'p pool server_state \<Rightarrow> ('pk, 'p) live \<Rightarrow> ('pk, 'p) live" where
  "moved_to t rq pt s \<pi> = \<pi>\<lparr>lv_server := s, lv_threads := (lv_threads \<pi>)(t \<mapsto> (rq, pt))\<rparr>"

lemma moved_to_alone:
  "alone_at t rq pt \<pi> \<Longrightarrow> unlocked (st_verifier s) \<Longrightarrow> map_ok (st_verifier s) \<Longrightarrow>
     alone_at t rq pt' (moved_to t rq pt' s \<pi>)"
  by (simp add: alone_at_def moved_to_def live_running_def)

lemma moved_to_simps [simp]:
  "lv_server (moved_to t rq pt s \<pi>) = s"
  "lv_threads (moved_to t rq pt s \<pi>) = (lv_threads \<pi>)(t \<mapsto> (rq, pt))"
  "lv_loop (moved_to t rq pt s \<pi>) = lv_loop \<pi>" "lv_phase (moved_to t rq pt s \<pi>) = lv_phase \<pi>"
  by (simp_all add: moved_to_def)

lemma ends_go:
  assumes "alone_at t rq pt \<pi>" and "go env oe t rq pt (lv_server \<pi>) = Some (pt', s')"
    and "ends env oe yaml path t N (moved_to t rq pt' s' \<pi>) rq out"
  shows "ends env oe yaml path t (Suc N) \<pi> rq out"
proof -
  have "live_step env oe yaml path \<pi> (Go t) (moved_to t rq pt' s' \<pi>)"
    using live_step.own [OF _ _ assms(2)] assms(1) by (simp add: alone_at_def moved_to_def)
  moreover obtain n \<pi>' where "n \<le> N"
    "steps (live_step env oe yaml path) (moved_to t rq pt' s' \<pi>) (replicate n (Go t)) \<pi>'"
    and rest: "lv_threads \<pi>' = (lv_threads \<pi>)(t \<mapsto> (rq, Answered (fst out)))"
      "server_view (lv_server \<pi>') = snd out" "unlocked (st_verifier (lv_server \<pi>'))"
      "lv_loop \<pi>' = lv_loop \<pi>" "lv_phase \<pi>' = lv_phase \<pi>"
    using assms(3) unfolding ends_def by auto
  ultimately have "Suc n \<le> Suc N" "steps (live_step env oe yaml path) \<pi> (replicate (Suc n) (Go t)) \<pi>'"
    by (auto intro: steps_more)
  with rest show ?thesis unfolding ends_def by blast
qed

lemma ends_le: "ends env oe yaml path t N \<pi> rq out \<Longrightarrow> N \<le> N' \<Longrightarrow> ends env oe yaml path t N' \<pi> rq out"
  unfolding ends_def by (meson order_trans)

lemma ends_answered:
  assumes "alone_at t rq (Answered resp) \<pi>" and "server_view (lv_server \<pi>) = s'"
  shows "ends env oe yaml path t 0 \<pi> rq (resp, s')"
  unfolding ends_def
  by (rule exI [of _ 0], rule exI [of _ \<pi>])
    (use assms in \<open>auto simp: alone_at_def steps_none fun_upd_idem\<close>)

lemma ends_denying:
  assumes "alone_at t rq (Denying rid d) \<pi>"
  shows "ends env oe yaml path t 1 \<pi> rq (deny (server_view (lv_server \<pi>)) rid d)"
proof -
  obtain resp s' where d: "deny (lv_server \<pi>) rid d = (resp, s')" by (cases "deny (lv_server \<pi>) rid d")
  then have "st_verifier s' = st_verifier (lv_server \<pi>)" by (auto simp: deny_def)
  with assms have "alone_at t rq (Answered resp) (moved_to t rq (Answered resp) s' \<pi>)"
    by (intro moved_to_alone [OF assms]) (simp_all add: alone_at_def)
  from ends_go [OF assms _ ends_answered [OF this refl], of env oe yaml path] d show ?thesis
    by (simp add: deny_view)
qed

lemma ends_issuing:
  assumes "alone_at t rq (Issuing rid out attrs) \<pi>"
  shows "ends env oe yaml path t 1 \<pi> rq (rest_issued rid out attrs (server_view (lv_server \<pi>)))"
proof -
  let ?s = "(lv_server \<pi>)\<lparr>st_audit := Issued rid attrs (st_audit (lv_server \<pi>))\<rparr>"
  let ?pt = "Answered \<lparr>rsp_Status = 200, rsp_ContentType = ''text/plain; charset=utf-8'',
    rsp_Body = out, rsp_RequestID = rid\<rparr>"
  have "alone_at t rq ?pt (moved_to t rq ?pt ?s \<pi>)"
    using assms by (intro moved_to_alone [OF assms]) (simp_all add: alone_at_def)
  from ends_go [OF assms _ ends_answered [OF this refl], of env oe yaml path] show ?thesis
    by (simp add: rest_issued_def)
qed

lemma alone_state:
  "alone_at t rq pt \<pi> \<Longrightarrow> unlocked (st_verifier (lv_server \<pi>)) \<and> map_ok (st_verifier (lv_server \<pi>))"
  by (simp add: alone_at_def)

lemma unlocked_counters [simp]:
  "unlocked (\<sigma>\<lparr>pl_tick := k\<rparr>) = unlocked \<sigma>" "unlocked (\<sigma>\<lparr>pl_net := n\<rparr>) = unlocked \<sigma>"
  "unlocked (start_call t iss \<sigma>) = unlocked \<sigma>"
  "map_ok (\<sigma>\<lparr>pl_tick := k\<rparr>) = map_ok \<sigma>" "map_ok (\<sigma>\<lparr>pl_net := n\<rparr>) = map_ok \<sigma>"
  "map_ok (start_call t iss \<sigma>) = map_ok \<sigma>"
  by (simp_all add: unlocked_def map_ok_def start_call_def)

text \<open>A step to a denial.\<close>

lemma ends_denied:
  assumes "alone_at t rq pt \<pi>" and "go env oe t rq pt (lv_server \<pi>) = Some (Denying rid d, s')"
    and "unlocked (st_verifier s')" and "map_ok (st_verifier s')"
  shows "ends env oe yaml path t 2 \<pi> rq (deny (server_view s') rid d)"
  using ends_go [OF assms(1,2) ends_denying [OF moved_to_alone [OF assms(1,3,4)]], of yaml path]
  by (simp add: numeral_2_eq_2)

lemma ends_granting:
  assumes "alone_at t rq (Granting rid pol pub i rule keyID) \<pi>"
  shows "ends env oe yaml path t 2 \<pi> rq (rest_granting env rid pol pub i rule keyID (server_view (lv_server \<pi>)))"
proof -
  define ca where "ca = key_attrs (sv_lib env) pub @ identityAttrs i"
  obtain x s' where x: "issue_cert env pol rule keyID pub ca (lv_server \<pi>) = (x, s')"
    by (cases "issue_cert env pol rule keyID pub ca (lv_server \<pi>)")
  then have s': "unlocked (st_verifier s')" "map_ok (st_verifier s')"
    using alone_state [OF assms] by (auto dest!: issue_cert_frame)
  show ?thesis
  proof (cases x)
    case (Inl d)
    with x ends_denied [OF assms _ s', of env oe rid d yaml path] show ?thesis
      by (simp add: rest_granting_def issue_cert_view Let_def ca_def)
  next
    case (Inr out)
    with x ends_go [OF assms _ ends_issuing [OF moved_to_alone [OF assms s']], of env oe rid out] show ?thesis
      by (simp add: rest_granting_def issue_cert_view Let_def ca_def numeral_2_eq_2)
  qed
qed

lemma ends_dating:
  assumes "alone_at t rq (Dating rid pol pub idt cs) \<pi>"
  shows "ends env oe yaml path t 3 \<pi> rq (rest_dating env oe rid pol pub idt cs (server_view (lv_server \<pi>)))"
proof -
  let ?s = "lv_server \<pi>"
  define ka where "ka = key_attrs (sv_lib env) pub"
  define k where "k = pl_tick (st_verifier ?s)"
  define s' where "s' = ?s\<lparr>st_verifier := (st_verifier ?s)\<lparr>pl_tick := k + 1\<rparr>\<rparr>"
  have ok: "unlocked (st_verifier s')" "map_ok (st_verifier s')"
    using alone_state [OF assms] by (simp_all add: s'_def)
  have view: "server_view s' = (server_view ?s)\<lparr>st_verifier := (pool_view (st_verifier ?s))\<lparr>vs_tick := k + 1\<rparr>\<rparr>"
    by (simp add: s'_def)
  note simps = rest_dating_def Let_def ka_def k_def s'_def
  note denied = ends_denied [OF assms _ ok, of env oe rid _ yaml path, THEN ends_le]
  show ?thesis
  proof (cases "check_dates oe k idt cs")
    case (Inl e)
    with denied [of "token_denied ka e" 3] show ?thesis by (simp add: simps)
  next
    case i: (Inr i)
    show ?thesis
    proof (cases "authorize pol i (ka @ identityAttrs i)")
      case (Inl d)
      with i denied [of d 3] show ?thesis by (simp add: simps)
    next
      case (Inr x)
      obtain rule keyID where "x = (rule, keyID)" by (cases x)
      with i Inr ends_go [OF assms _ ends_granting [OF moved_to_alone [OF assms ok]], of env oe rid pol pub i rule keyID]
      show ?thesis by (simp add: simps numeral_3_eq_3 numeral_2_eq_2)
    qed
  qed
qed

lemma ends_verifying:
  assumes "alone_at t rq (Verifying rid pol pub tok p) \<pi>"
  shows "ends env oe yaml path t 4 \<pi> rq (rest_verifying env oe rid pol pub tok p (server_view (lv_server \<pi>)))"
proof -
  let ?s = "lv_server \<pi>"
  define n where "n = pl_net (st_verifier ?s)"
  define s' where "s' = ?s\<lparr>st_verifier := (st_verifier ?s)\<lparr>pl_net := n + 1\<rparr>\<rparr>"
  have ok: "unlocked (st_verifier s')" "map_ok (st_verifier s')"
    using alone_state [OF assms] by (simp_all add: s'_def)
  note simps = rest_verifying_def Let_def n_def s'_def
  show ?thesis
  proof (cases "check_token oe n p tok")
    case (Inl e)
    with ends_denied [OF assms _ ok, of env oe rid "token_denied (key_attrs (sv_lib env) pub) e" yaml path, THEN ends_le, of 4]
    show ?thesis by (simp add: simps)
  next
    case (Inr x)
    obtain idt cs where "x = (idt, cs)" by (cases x)
    with Inr ends_go [OF assms _ ends_dating [OF moved_to_alone [OF assms ok]], of env oe rid pol pub idt cs yaml path]
    show ?thesis by (simp add: simps numeral_eq_Suc)
  qed
qed

text \<open>The call of \<open>provider\<close>, in the process.\<close>

lemma fetch_steps:
  "steps (pool_step oe) (st_verifier (lv_server \<pi>)) (replicate n (Move t)) pool' \<Longrightarrow>
     live_running \<pi> \<Longrightarrow> lv_threads \<pi> t = Some (rq, Fetching rid pol pub tok iss) \<Longrightarrow>
     steps (live_step env oe yaml path) \<pi> (replicate n (Go t))
       (\<pi>\<lparr>lv_server := (lv_server \<pi>)\<lparr>st_verifier := pool'\<rparr>\<rparr>)"
proof (induction n arbitrary: \<pi>)
  case 0
  then show ?case by (simp add: steps_none)
next
  case (Suc n)
  obtain pool1 where one: "pool_step oe (st_verifier (lv_server \<pi>)) (Move t) pool1"
    and rest: "steps (pool_step oe) pool1 (replicate n (Move t)) pool'"
    using Suc.prems(1) by (auto simp: steps_Cons_iff)
  define \<pi>1 where "\<pi>1 = \<pi>\<lparr>lv_server := (lv_server \<pi>)\<lparr>st_verifier := pool1\<rparr>\<rparr>"
  have "live_step env oe yaml path \<pi> (Go t) \<pi>1"
    unfolding \<pi>1_def by (rule live_step.fetch [OF Suc.prems(2,3) one])
  moreover have "steps (live_step env oe yaml path) \<pi>1 (replicate n (Go t))
      (\<pi>1\<lparr>lv_server := (lv_server \<pi>1)\<lparr>st_verifier := pool'\<rparr>\<rparr>)"
    using Suc.prems rest by (intro Suc.IH) (simp_all add: \<pi>1_def live_running_def)
  ultimately show ?case by (simp add: \<pi>1_def steps_more)
qed

lemma ends_after:
  assumes "steps (live_step env oe yaml path) \<pi> (replicate k (Go t)) \<pi>1" and "k \<le> K"
    and "lv_threads \<pi>1 = lv_threads \<pi>" and "lv_loop \<pi>1 = lv_loop \<pi>" and "lv_phase \<pi>1 = lv_phase \<pi>"
    and "ends env oe yaml path t N \<pi>1 rq out"
  shows "ends env oe yaml path t (K + N) \<pi> rq out"
proof -
  obtain n \<pi>' where "n \<le> N" "steps (live_step env oe yaml path) \<pi>1 (replicate n (Go t)) \<pi>'"
    and rest: "lv_threads \<pi>' = (lv_threads \<pi>)(t \<mapsto> (rq, Answered (fst out)))"
      "server_view (lv_server \<pi>') = snd out" "unlocked (st_verifier (lv_server \<pi>'))"
      "lv_loop \<pi>' = lv_loop \<pi>" "lv_phase \<pi>' = lv_phase \<pi>"
    using assms(3-6) unfolding ends_def by auto
  then have "k + n \<le> K + N" "steps (live_step env oe yaml path) \<pi> (replicate (k + n) (Go t)) \<pi>'"
    using assms(1,2) by (auto simp: replicate_add steps_append)
  with rest show ?thesis unfolding ends_def by blast
qed

lemma ends_fetching:
  assumes "alone_at t rq (Fetching rid pol pub tok iss) \<pi>"
    and "pl_calls (st_verifier (lv_server \<pi>)) t = Some (iss, LockMap)"
  shows "ends env oe yaml path t 17 \<pi> rq (rest_fetching env oe rid pol pub tok iss (server_view (lv_server \<pi>)))"
proof -
  let ?pool = "st_verifier (lv_server \<pi>)"
  obtain x v where p: "provider oe iss (pool_view ?pool) = (x, v)" by (cases "provider oe iss (pool_view ?pool)")
  from call_alone [OF assms(2) _ _ p] alone_state [OF assms(1)] obtain n pool'
    where n: "n \<le> 12" "steps (pool_step oe) ?pool (replicate n (Move t)) pool'"
      and ok: "unlocked pool'" "map_ok pool'"
      and v: "pool_view pool' = v" "pl_calls pool' = (pl_calls ?pool)(t \<mapsto> (iss, Returned x))" by blast
  define s' where "s' = (lv_server \<pi>)\<lparr>st_verifier := pool'\<rparr>"
  define \<pi>1 where "\<pi>1 = \<pi>\<lparr>lv_server := s'\<rparr>"
  have here: "alone_at t rq (Fetching rid pol pub tok iss) \<pi>1"
    using assms(1) ok by (simp add: alone_at_def \<pi>1_def s'_def live_running_def)
  have s': "lv_server \<pi>1 = s'" "unlocked (st_verifier s')" "map_ok (st_verifier s')"
    "server_view s' = (server_view (lv_server \<pi>))\<lparr>st_verifier := v\<rparr>"
    using ok v by (simp_all add: \<pi>1_def s'_def)
  have run: "steps (live_step env oe yaml path) \<pi> (replicate n (Go t)) \<pi>1"
    using fetch_steps [OF n(2), of rq rid pol pub tok iss env yaml path] assms(1) by (simp add: alone_at_def \<pi>1_def s'_def)
  have "ends env oe yaml path t 5 \<pi>1 rq (rest_fetching env oe rid pol pub tok iss (server_view (lv_server \<pi>)))"
  proof (cases x)
    case (Inl e)
    with ends_denied [OF here _ s'(2,3), of env oe rid "token_denied (key_attrs (sv_lib env) pub) (DiscoveryFailed iss e)" yaml path,
        THEN ends_le, of 5] v p show ?thesis
      by (simp add: rest_fetching_def s' s'_def)
  next
    case (Inr p')
    with ends_go [OF here _ ends_verifying [OF moved_to_alone [OF here s'(2,3)]], of env oe rid pol pub tok p' yaml path] v p
    show ?thesis by (simp add: rest_fetching_def s' s'_def numeral_eq_Suc)
  qed
  from ends_after [OF run n(1) _ _ _ this] show ?thesis by (simp add: \<pi>1_def)
qed

lemma ends_named:
  assumes "alone_at t rq (Named rid) \<pi>"
  shows "ends env oe yaml path t 18 \<pi> rq (rest_named env oe rid rq (server_view (lv_server \<pi>)))"
proof -
  let ?s = "lv_server \<pi>"
  let ?pol = "st_policy ?s"
  note here = alone_state [OF assms, THEN conjunct1] alone_state [OF assms, THEN conjunct2]
  note denied = ends_denied [OF assms _ here, of env oe rid _ yaml path, THEN ends_le, of _ 18]
  show ?thesis
  proof (cases "check_request (sv_lib env) ?pol (sr_method rq) (sr_body rq)")
    case (Inl d)
    with denied [of d] show ?thesis by (simp add: rest_named_def Let_def)
  next
    case pub: (Inr pub)
    show ?thesis
    proof (cases "token_gate ?pol (sr_auth rq) (key_attrs (sv_lib env) pub)")
      case (Inl d)
      with pub denied [of d] show ?thesis by (simp add: rest_named_def Let_def)
    next
      case (Inr x)
      obtain tok iss where x: "x = (tok, iss)" by (cases x)
      define s' where "s' = ?s\<lparr>st_verifier := start_call t iss (st_verifier ?s)\<rparr>"
      have at: "alone_at t rq (Fetching rid ?pol pub tok iss) (moved_to t rq (Fetching rid ?pol pub tok iss) s' \<pi>)"
        by (rule moved_to_alone [OF assms]) (use here in \<open>simp_all add: s'_def\<close>)
      have "pl_calls (st_verifier (lv_server (moved_to t rq (Fetching rid ?pol pub tok iss) s' \<pi>))) t = Some (iss, LockMap)"
        by (simp add: s'_def start_call_def)
      from ends_go [OF assms _ ends_fetching [OF at this], of env oe yaml path] pub Inr x show ?thesis
        by (simp add: rest_named_def Let_def s'_def)
    qed
  qed
qed

lemma ends_entered:
  assumes "alone_at t rq Entered \<pi>"
  shows "ends (production_env lib m oe rnd clk) oe yaml path t 19 \<pi> rq
    (Sign (production_env lib m oe rnd clk) (server_view (lv_server \<pi>)) (sr_method rq) (sr_auth rq) (sr_body rq))"
proof -
  let ?env = "production_env lib m oe rnd clk"
  obtain rid s' where r: "newRequestID ?env (lv_server \<pi>) = (rid, s')" by (cases "newRequestID ?env (lv_server \<pi>)")
  then have "st_verifier s' = st_verifier (lv_server \<pi>)" using newRequestID_simps(3) [of ?env "lv_server \<pi>"] by simp
  with alone_state [OF assms] have "unlocked (st_verifier s')" "map_ok (st_verifier s')" by simp_all
  from ends_go [OF assms _ ends_named [OF moved_to_alone [OF assms this]], of ?env oe rid yaml path] r
  show ?thesis by (simp add: Sign_rest newRequestID_view)
qed

end
