(* ===== verification/ConcurrentClaims.thy ===== *)
theory ConcurrentClaims
  imports Demo ConcurrentReload ConcurrentRefine
begin

text \<open>
  The properties of the whole process in its finest interleaving, from startup to exit, and
  the scheduler by which they are applied to concrete runs.
\<close>

section \<open>Runs by schedule\<close>

fun live_next ::
  "('pk, 'sk, 'v) server_env \<Rightarrow> 'p oidc_env \<Rightarrow> yaml_lib \<Rightarrow> string \<Rightarrow> live_event \<Rightarrow> ('pk, 'p) live
   \<Rightarrow> ('pk, 'p) live option" where
  "live_next env oe yaml path (Accept t rq) \<pi> =
     (if lv_threads \<pi> t = None then Some (\<pi>\<lparr>lv_threads := (lv_threads \<pi>)(t \<mapsto> (rq, Entered)), lv_active := insert t (lv_active \<pi>)\<rparr>)
      else None)"
| "live_next env oe yaml path (Go t) \<pi> =
     (case lv_threads \<pi> t of
        None \<Rightarrow> None
      | Some (rq, pt) \<Rightarrow>
          (case go env oe t rq pt (lv_server \<pi>) of
             Some (pt', s') \<Rightarrow> Some (\<pi>\<lparr>lv_server := s', lv_threads := (lv_threads \<pi>)(t \<mapsto> (rq, pt'))\<rparr>)
           | None \<Rightarrow>
               (case pt of
                  Fetching rid pol pub tok iss \<Rightarrow>
                    (case pl_calls (st_verifier (lv_server \<pi>)) t of
                       None \<Rightarrow> None
                     | Some (i, pc) \<Rightarrow>
                         (case turn oe False t i pc (st_verifier (lv_server \<pi>)) of
                            None \<Rightarrow> None
                          | Some (pc', pool) \<Rightarrow>
                              Some (\<pi>\<lparr>lv_server := (lv_server \<pi>)\<lparr>st_verifier := pool\<lparr>pl_calls :=
                                (pl_calls (st_verifier (lv_server \<pi>)))(t \<mapsto> (i, pc'))\<rparr>\<rparr>\<rparr>)))
                | _ \<Rightarrow> None)))"
| "live_next env oe yaml path Sighup \<pi> = Some (\<pi>\<lparr>lv_loop := notify (lv_loop \<pi>)\<rparr>)"
| "live_next env oe yaml path (LoopStep read) \<pi> =
     (case loop_turn read yaml path (lv_loop \<pi>) (lv_server \<pi>) of
        None \<Rightarrow> None
      | Some (l', s') \<Rightarrow> Some (\<pi>\<lparr>lv_loop := l', lv_server := s'\<rparr>))"
| "live_next env oe yaml path ev \<pi> = None"

fun live_run ::
  "('pk, 'sk, 'v) server_env \<Rightarrow> 'p oidc_env \<Rightarrow> yaml_lib \<Rightarrow> string \<Rightarrow> live_event list \<Rightarrow> ('pk, 'p) live
   \<Rightarrow> ('pk, 'p) live option" where
  "live_run env oe yaml path [] \<pi> = Some \<pi>"
| "live_run env oe yaml path (ev # evs) \<pi> =
     (case live_next env oe yaml path ev \<pi> of
        None \<Rightarrow> None
      | Some \<pi>' \<Rightarrow> live_run env oe yaml path evs \<pi>')"

lemma live_next_step:
  assumes "live_next env oe yaml path ev \<pi> = Some \<pi>'" and "live_running \<pi>"
  shows "live_step env oe yaml path \<pi> ev \<pi>' \<and> lv_phase \<pi>' = lv_phase \<pi>"
proof (cases ev)
  case (Go t)
  obtain rq pt where th: "lv_threads \<pi> t = Some (rq, pt)" using assms(1) Go by (auto split: option.splits)
  show ?thesis
  proof (cases "go env oe t rq pt (lv_server \<pi>)")
    case (Some x)
    with assms th Go show ?thesis by (cases x) (auto intro: live_step.own)
  next
    case None
    with assms(1) th Go obtain rid pol pub tok iss i pc pc' pool where pt: "pt = Fetching rid pol pub tok iss"
      and c: "pl_calls (st_verifier (lv_server \<pi>)) t = Some (i, pc)"
        "turn oe False t i pc (st_verifier (lv_server \<pi>)) = Some (pc', pool)"
      and \<pi>': "\<pi>' = \<pi>\<lparr>lv_server := (lv_server \<pi>)\<lparr>st_verifier := pool\<lparr>pl_calls :=
        (pl_calls (st_verifier (lv_server \<pi>)))(t \<mapsto> (i, pc'))\<rparr>\<rparr>\<rparr>"
      by (auto split: option.splits point.splits)
    from live_step.fetch [OF assms(2) th [unfolded pt] pool_step.move [OF c]] Go \<pi>' show ?thesis by simp
  qed
qed (use assms in \<open>auto intro: live_step.intros split: if_split_asm option.splits\<close>)

lemma live_run_steps:
  "live_run env oe yaml path evs \<pi> = Some \<pi>' \<Longrightarrow> live_running \<pi> \<Longrightarrow>
     steps (live_step env oe yaml path) \<pi> evs \<pi>' \<and> lv_phase \<pi>' = lv_phase \<pi>"
proof (induction evs arbitrary: \<pi>)
  case (Cons ev evs)
  then obtain \<pi>1 where next1: "live_next env oe yaml path ev \<pi> = Some \<pi>1"
    "live_run env oe yaml path evs \<pi>1 = Some \<pi>'"
    by (auto split: option.splits)
  note step = live_next_step [OF next1(1) Cons.prems(2)]
  with Cons.IH [OF next1(2)] Cons.prems(2) show ?case
    by (auto simp: live_running_def intro: steps_more)
qed (simp add: steps_none)

section \<open>One request of the demo deployment\<close>

definition demo_live :: "detail log \<Rightarrow> (string, string) live" where
  "demo_live l = live_init (New demo_policy NewRemoteVerifier l :: string verifier_state server_state)"

text \<open>The state in which the request is accepted.\<close>

definition demo_accepted :: "detail log \<Rightarrow> (string, string) live" where
  "demo_accepted l = (demo_live l)\<lparr>lv_threads := [0 \<mapsto> (demo_request, Entered)], lv_active := {0}\<rparr>"

lemma demo_accepted_run:
  "steps (live_step demo_env demo_oidc demo_yaml (flg_config demo_flags)) (demo_live l) [Accept 0 demo_request]
     (demo_accepted l)"
  "live_running (demo_accepted l)" "lv_threads (demo_accepted l) 0 = Some (demo_request, Entered)"
proof -
  have "live_run demo_env demo_oidc demo_yaml (flg_config demo_flags) [Accept 0 demo_request] (demo_live l)
      = Some (demo_accepted l)"
    by (simp add: demo_accepted_def demo_live_def live_init_def)
  from live_run_steps [OF this]
  show "steps (live_step demo_env demo_oidc demo_yaml (flg_config demo_flags)) (demo_live l) [Accept 0 demo_request]
      (demo_accepted l)"
    by (simp add: live_running_def demo_live_def live_init_def)
qed (simp_all add: demo_accepted_def demo_live_def live_init_def live_running_def)

lemma demo_accepted_simps:
  "lv_threads (demo_accepted l) = [0 \<mapsto> (demo_request, Entered)]" "lv_phase (demo_accepted l) = Serving"
  "st_verifier (lv_server (demo_accepted l)) = pool_init"
  "server_view (lv_server (demo_accepted l)) = New demo_policy NewRemoteVerifier l"
  by (simp_all add: demo_accepted_def demo_live_def live_init_def New_def pool_init_def
      server_view_def pool_view_def NewRemoteVerifier_def)

text \<open>Accepted, and served to the end without interruption, from startup.\<close>

lemma demo_live_run:
  obtains l evs \<pi> resp
  where "cmdServe_start demo_lib demo_os demo_read demo_yaml demo_flags
      = Inr (NewMemorySigner ''ca'', New demo_policy NewRemoteVerifier l :: string verifier_state server_state)"
    and "steps (live_step demo_env demo_oidc demo_yaml (flg_config demo_flags)) (demo_live l) evs \<pi>"
    and "lv_threads \<pi> = [0 \<mapsto> (demo_request, Answered resp)]"
    and "rsp_Status resp = 200" and "rsp_Body resp = ''cert:ci-s''" and "lv_phase \<pi> = Serving"
proof -
  obtain l where st: "cmdServe_start demo_lib demo_os demo_read demo_yaml demo_flags
      = Inr (NewMemorySigner ''ca'', New demo_policy NewRemoteVerifier l :: string verifier_state server_state)"
    using demo_start by blast
  let ?\<pi> = "demo_accepted l"
  have alone: "alone_at 0 demo_request Entered ?\<pi>"
    using demo_accepted_run(2,3) [of l] by (simp add: alone_at_def demo_accepted_simps unlocked_def map_ok_def pool_init_def)
  have view: "server_view (lv_server ?\<pi>) = New demo_policy NewRemoteVerifier l"
    by (rule demo_accepted_simps)
  obtain resp s' where sg: "Sign demo_env (New demo_policy NewRemoteVerifier l) (sr_method demo_request)
      (sr_auth demo_request) (sr_body demo_request) = (resp, s')"
    and ok: "rsp_Status resp = 200" "rsp_Body resp = ''cert:ci-s''"
    using demo_sign_at [of "New demo_policy NewRemoteVerifier l"] by (auto simp: New_def demo_request_def)
  from ends_entered [OF alone, of demo_lib "NewMemorySigner ''ca''" demo_oidc demo_rand "\<lambda>n. demo_now" demo_yaml
      "flg_config demo_flags", folded demo_env_def, unfolded view sg]
  obtain n \<pi> where run: "steps (live_step demo_env demo_oidc demo_yaml (flg_config demo_flags)) ?\<pi> (replicate n (Go 0)) \<pi>"
    and th: "lv_threads \<pi> = (lv_threads ?\<pi>)(0 \<mapsto> (demo_request, Answered resp))"
    and ph: "lv_phase \<pi> = lv_phase ?\<pi>"
    unfolding ends_def by auto
  have "steps (live_step demo_env demo_oidc demo_yaml (flg_config demo_flags)) (demo_live l)
      ([Accept 0 demo_request] @ replicate n (Go 0)) \<pi>"
    unfolding steps_append using demo_accepted_run(1) [of l] run by blast
  with st th ph ok that show thesis by (simp add: demo_accepted_simps)
qed

section \<open>Safety\<close>

lemma startup_live_inv:
  assumes "cmdServe_start lib sys read yaml fl = Inr (m, s)"
    and "steps (live_step (production_env lib m oe rnd clk) oe yaml path) (live_init s) evs \<pi>"
  shows "live_inv (production_env lib m oe rnd clk) oe \<pi>"
proof -
  have "policy_ok (st_policy s)" using assms(1) Load_policy_ok by (auto simp: cmdServe_start_iff New_def)
  with live_steps_inv [OF assms(2)] live_init_inv startup_log_quiet [OF assms(1)] show ?thesis by blast
qed

text \<open>The certificate that a request has in hand.\<close>

fun certificate_of :: "('pk, 'p) point \<Rightarrow> string option" where
  "certificate_of (Issuing rid out attrs) = Some out"
| "certificate_of (Answered resp) = (if rsp_Status resp = 200 then Some (rsp_Body resp) else None)"
| "certificate_of pt = None"

lemma certificate_issued_ok:
  "point_ok env oe rq pt \<Longrightarrow> certificate_of pt = Some out \<Longrightarrow> issued_ok env oe rq out"
  by (cases pt) (auto split: if_splits)

text \<open>C2: From startup to the end of the process, however the steps of concurrent requests,
  of their calls of the verifier with its locks, of the reload loop and of the shutdown
  interleave, the active policy is valid, and every certificate that was signed, whether or not
  it has been sent, is justified by a valid policy and safe.\<close>

theorem concurrent_server_safe:
  assumes "cmdServe_start lib sys read yaml fl = Inr (m, s)"
    and "steps (live_step (production_env lib m oe rnd clk) oe yaml (flg_config fl)) (live_init s) evs \<pi>"
  shows "policy_ok (ActivePolicy (lv_server \<pi>))
    \<and> (\<forall>t rq pt out. lv_threads \<pi> t = Some (rq, pt) \<and> certificate_of pt = Some out \<longrightarrow>
        (\<exists>pol cert. policy_ok pol \<and> justified (production_env lib m oe rnd clk) (authentic oe) pol rq cert
           \<and> safe_cert cert \<and> out = lib_MarshalCert lib cert))"
proof -
  let ?env = "production_env lib m oe rnd clk"
  note inv = startup_live_inv [OF assms]
  have "\<exists>pol cert. policy_ok pol \<and> justified ?env (authentic oe) pol rq cert \<and> safe_cert cert
      \<and> out = lib_MarshalCert lib cert"
    if "lv_threads \<pi> t = Some (rq, pt)" "certificate_of pt = Some out" for t rq pt out
  proof -
    have "issued_ok ?env oe rq out"
      using inv that certificate_issued_ok unfolding live_inv_def points_ok_def by blast
    then show ?thesis
      using justified_safe [where env = ?env] unfolding issued_ok_def by (metis production_env_simps(1))
  qed
  with inv show ?thesis unfolding live_inv_def ActivePolicy_def by blast
qed

lemma concurrent_server_safe_demo:
  "\<exists>(\<pi> :: (string, string) live) resp cert. lv_threads \<pi> 0 = Some (demo_request, Answered resp)
     \<and> safe_cert cert \<and> policy_ok (ActivePolicy (lv_server \<pi>)) \<and> rsp_Body resp = lib_MarshalCert demo_lib cert"
proof -
  obtain l evs \<pi> resp
    where st: "cmdServe_start demo_lib demo_os demo_read demo_yaml demo_flags
        = Inr (NewMemorySigner ''ca'', New demo_policy NewRemoteVerifier l :: string verifier_state server_state)"
      and run: "steps (live_step demo_env demo_oidc demo_yaml (flg_config demo_flags)) (demo_live l) evs \<pi>"
      and th: "lv_threads \<pi> = [0 \<mapsto> (demo_request, Answered resp)]" and ok: "rsp_Status resp = 200"
    by (rule demo_live_run)
  note safe = concurrent_server_safe [OF st run [unfolded demo_env_def demo_live_def]]
  from th ok have "lv_threads \<pi> 0 = Some (demo_request, Answered resp)"
    "certificate_of (Answered resp :: (string, string) point) = Some (rsp_Body resp)" by simp_all
  with safe show ?thesis by blast
qed

section \<open>Every request is answered\<close>

text \<open>C16: In every state that the server reaches, whatever is in flight: from there on the
  requests take at most 21 steps each, all their statements and those of their calls of the
  verifier together, and as long as one is not answered a step is possible, so that no lock is
  ever waited for in vain; and for each request the same holds without the steps of the
  requests that wait for the network of another issuer.\<close>

theorem every_request_is_answered:
  assumes "cmdServe_start lib sys read yaml fl = Inr (m, s)"
    and "steps (live_step (production_env lib m oe rnd clk) oe yaml (flg_config fl)) (live_init s) evs \<pi>"
    and "live_running \<pi>"
  shows "(\<forall>ts \<pi>'. steps (request_go (production_env lib m oe rnd clk) oe yaml (flg_config fl)) \<pi> ts \<pi>' \<longrightarrow>
      length ts \<le> 21 * card (dom (lv_threads \<pi>))
      \<and> (live_answered \<pi>' \<or> (\<exists>u \<pi>''. request_go (production_env lib m oe rnd clk) oe yaml (flg_config fl) \<pi>' u \<pi>'')))
    \<and> (\<forall>t us \<pi>'. t \<in> dom (lv_threads \<pi>)
        \<and> steps (patient_go (production_env lib m oe rnd clk) oe yaml (flg_config fl) t) \<pi> us \<pi>' \<longrightarrow>
      length us \<le> 21 * card (dom (lv_threads \<pi>))
      \<and> (has_answer t \<pi>' \<or> (\<exists>u \<pi>''. patient_go (production_env lib m oe rnd clk) oe yaml (flg_config fl) t \<pi>' u \<pi>'')))"
proof -
  let ?env = "production_env lib m oe rnd clk" and ?path = "flg_config fl"
  have ok: "live_ok ?env oe \<pi>" using startup_live_inv [OF assms(1,2)] assms(3) by (simp add: live_ok_def)
  have all: "length ts \<le> 21 * card (dom (lv_threads \<pi>))
      \<and> (live_answered \<pi>' \<or> (\<exists>u \<pi>''. request_go ?env oe yaml ?path \<pi>' u \<pi>''))"
    if run: "steps (request_go ?env oe yaml ?path) \<pi> ts \<pi>'" for ts \<pi>'
    using all_requests.work_steps [OF run ok] requests_left_bound [of \<pi>]
      all_requests.possible [OF all_requests.valid_steps [OF run ok]] by fastforce
  have one: "length us \<le> 21 * card (dom (lv_threads \<pi>))
      \<and> (has_answer t \<pi>' \<or> (\<exists>u \<pi>''. patient_go ?env oe yaml ?path t \<pi>' u \<pi>''))"
    if t: "t \<in> dom (lv_threads \<pi>)" and run: "steps (patient_go ?env oe yaml ?path t) \<pi> us \<pi>'" for t us \<pi>'
  proof -
    have here: "live_ok ?env oe \<pi> \<and> present t \<pi>" using ok t by (simp add: present_def)
    from patient_request.work_steps [OF run here] requests_left_bound [of \<pi>]
      patient_request.possible [OF patient_request.valid_steps [OF run here]] show ?thesis by fastforce
  qed
  from all one show ?thesis by blast
qed

lemma every_request_is_answered_demo:
  "\<exists>\<pi> u \<pi>''. lv_threads \<pi> 0 = Some (demo_request, Entered)
     \<and> patient_go demo_env demo_oidc demo_yaml ''policy.yaml'' 0 \<pi> u \<pi>''"
proof -
  obtain l where st: "cmdServe_start demo_lib demo_os demo_read demo_yaml demo_flags
      = Inr (NewMemorySigner ''ca'', New demo_policy NewRemoteVerifier l :: string verifier_state server_state)"
    using demo_start by blast
  note run = demo_accepted_run [of l]
  have here: "0 \<in> dom (lv_threads (demo_accepted l))" "\<not> has_answer 0 (demo_accepted l)"
    by (simp_all add: demo_accepted_def has_answer_def answers_def)
  have "has_answer 0 (demo_accepted l)
    \<or> (\<exists>u \<pi>''. patient_go demo_env demo_oidc demo_yaml (flg_config demo_flags) 0 (demo_accepted l) u \<pi>'')"
    unfolding demo_env_def
    by (rule conjunct2 [OF every_request_is_answered [OF st run(1) [unfolded demo_env_def demo_live_def] run(2)],
          rule_format, of 0 "[]", THEN conjunct2])
      (simp add: here(1))
  with here(2) run(3) show ?thesis by (auto simp: demo_flags_def)
qed

section \<open>The steps and the function\<close>

text \<open>C27: The fine steps refine nothing away: from any state that the server reaches in which no
  lock is held, a request that runs without interruption takes at most 19 steps and gives the
  response and the state, cache, log and counters, that the sequential function \<open>Sign\<close> gives.\<close>

theorem uninterrupted_request_is_Sign:
  assumes "cmdServe_start lib sys read yaml fl = Inr (m, s)"
    and "steps (live_step (production_env lib m oe rnd clk) oe yaml (flg_config fl)) (live_init s) evs \<pi>"
    and "live_running \<pi>" and "lv_threads \<pi> t = Some (rq, Entered)" and "unlocked (st_verifier (lv_server \<pi>))"
    and "Sign (production_env lib m oe rnd clk) (server_view (lv_server \<pi>)) (sr_method rq) (sr_auth rq) (sr_body rq)
      = (resp, s')"
  shows "\<exists>n \<pi>'. n \<le> 19
    \<and> steps (live_step (production_env lib m oe rnd clk) oe yaml (flg_config fl)) \<pi> (replicate n (Go t)) \<pi>'
    \<and> lv_threads \<pi>' = (lv_threads \<pi>)(t \<mapsto> (rq, Answered resp)) \<and> server_view (lv_server \<pi>') = s'
    \<and> unlocked (st_verifier (lv_server \<pi>'))"
proof -
  have "pool_inv (st_verifier (lv_server \<pi>))"
    using startup_live_inv [OF assms(1,2)] pool_reached_ok unfolding live_inv_def pool_ok_def by blast
  then have "alone_at t rq Entered \<pi>" using assms(3-5) by (simp add: alone_at_def pool_inv_def)
  from ends_entered [OF this, of lib m oe rnd clk yaml "flg_config fl"] assms(6) show ?thesis
    unfolding ends_def by auto
qed

lemma uninterrupted_request_is_Sign_demo:
  "\<exists>n \<pi> (\<pi>' :: (string, string) live) resp. n \<le> 19
     \<and> steps (live_step demo_env demo_oidc demo_yaml ''policy.yaml'') \<pi> (replicate n (Go 0)) \<pi>'
     \<and> lv_threads \<pi>' = [0 \<mapsto> (demo_request, Answered resp)] \<and> rsp_Body resp = ''cert:ci-s''"
proof -
  obtain l where st: "cmdServe_start demo_lib demo_os demo_read demo_yaml demo_flags
      = Inr (NewMemorySigner ''ca'', New demo_policy NewRemoteVerifier l :: string verifier_state server_state)"
    using demo_start by blast
  note run = demo_accepted_run [of l]
  have free: "unlocked (st_verifier (lv_server (demo_accepted l)))"
    and view: "server_view (lv_server (demo_accepted l)) = New demo_policy NewRemoteVerifier l"
    and threads: "lv_threads (demo_accepted l) = [0 \<mapsto> (demo_request, Entered)]"
    by (simp_all add: demo_accepted_simps unlocked_def pool_init_def)
  obtain resp s' where sg: "Sign demo_env (New demo_policy NewRemoteVerifier l) ''POST'' demo_auth demo_body = (resp, s')"
    and body: "rsp_Body resp = ''cert:ci-s''"
    using demo_sign_at [of "New demo_policy NewRemoteVerifier l"] by (auto simp: New_def)
  have "Sign (production_env demo_lib (NewMemorySigner ''ca'') demo_oidc demo_rand (\<lambda>n. demo_now))
      (server_view (lv_server (demo_accepted l))) (sr_method demo_request) (sr_auth demo_request) (sr_body demo_request)
    = (resp, s')"
    using sg by (simp add: view demo_request_def demo_env_def)
  from uninterrupted_request_is_Sign [OF st run(1) [unfolded demo_env_def demo_live_def] run(2,3) free this]
  show ?thesis using body threads unfolding demo_env_def by (auto simp: demo_flags_def)
qed

section \<open>The end of the process\<close>

lemma request_go_steps:
  assumes "steps (request_go env oe yaml path) \<pi> ts \<pi>'"
  shows "steps (live_step env oe yaml path) \<pi> (map Go ts) \<pi>' \<and> lv_phase \<pi>' = lv_phase \<pi>"
  using assms
  by (induction rule: steps.induct) (auto simp: request_go_def steps_none dest: live_go_keeps intro: steps_more)

text \<open>When all handlers have returned the connections can become idle one after the other.\<close>

lemma conns_become_idle:
  assumes "finite T" and "lv_active \<pi> = T" and "T \<subseteq> dom (lv_threads \<pi>)" and "live_answered \<pi>" and "live_running \<pi>"
  shows "\<exists>us. steps (live_step env oe yaml path) \<pi> (map ConnIdle us) (\<pi>\<lparr>lv_active := {}\<rparr>)"
  using assms
proof (induction arbitrary: \<pi> rule: finite_induct)
  case empty
  then have "\<pi>\<lparr>lv_active := {}\<rparr> = \<pi>" by simp
  then show ?case by (intro exI [of _ "[]"]) (simp add: steps_none)
next
  case (insert t T)
  then obtain rq pt where "lv_threads \<pi> t = Some (rq, pt)" by auto
  moreover from this insert.prems(3) have "is_Answered pt" unfolding live_answered_def by blast
  ultimately obtain resp where "lv_threads \<pi> t = Some (rq, Answered resp)" by (cases pt) auto
  from live_step.conn_idle [OF insert.prems(4) this, of env oe yaml path] insert.prems(1) insert.hyps(2)
  have one: "live_step env oe yaml path \<pi> (ConnIdle t) (\<pi>\<lparr>lv_active := T\<rparr>)" by simp
  have "\<exists>us. steps (live_step env oe yaml path) (\<pi>\<lparr>lv_active := T\<rparr>) (map ConnIdle us)
      (\<pi>\<lparr>lv_active := T\<rparr>\<lparr>lv_active := {}\<rparr>)"
    by (rule insert.IH) (use insert.prems in \<open>auto simp: live_answered_def live_running_def\<close>)
  then obtain us where "steps (live_step env oe yaml path) (\<pi>\<lparr>lv_active := T\<rparr>) (map ConnIdle us) (\<pi>\<lparr>lv_active := {}\<rparr>)"
    by auto
  from steps_more [of "live_step env oe yaml path", OF one this] show ?case by (intro exI [of _ "t # us"]) simp
qed

lemma drains_to_exit:
  assumes inv: "live_inv (production_env lib m oe rnd clk) oe \<pi>" and draining: "lv_phase \<pi> = Draining"
  shows "\<exists>ts us \<pi>'. length ts \<le> 21 * card (dom (lv_threads \<pi>))
    \<and> steps (live_step (production_env lib m oe rnd clk) oe yaml path) \<pi> (map Go ts @ map ConnIdle us @ [ShutdownDone]) \<pi>'
    \<and> lv_phase \<pi>' = Exited None"
proof -
  let ?env = "production_env lib m oe rnd clk"
  have ok: "live_ok ?env oe \<pi>" using inv draining by (simp add: live_ok_def live_running_def)
  from all_requests.reaches_goal [OF this] obtain ts \<pi>1
    where run: "steps (request_go ?env oe yaml path) \<pi> ts \<pi>1" and goal: "live_answered \<pi>1" by blast
  have few: "length ts \<le> 21 * card (dom (lv_threads \<pi>))"
    using all_requests.work_steps [OF run ok] requests_left_bound [of \<pi>] by linarith
  note served = request_go_steps [OF run]
  have drain: "lv_phase \<pi>1 = Draining" using served draining by simp
  have inv1: "live_inv ?env oe \<pi>1" using live_steps_inv [OF conjunct1 [OF served] inv] .
  then have conns: "lv_active \<pi>1 \<subseteq> dom (lv_threads \<pi>1)" "finite (lv_active \<pi>1)"
    unfolding live_inv_def conns_ok_def by (blast, blast intro: finite_subset)
  have "live_running \<pi>1" using drain by (simp add: live_running_def)
  from conns_become_idle [OF conns(2) refl conns(1) goal this]
  obtain us where idle: "steps (live_step ?env oe yaml path) \<pi>1 (map ConnIdle us) (\<pi>1\<lparr>lv_active := {}\<rparr>)" by blast
  have "live_step ?env oe yaml path (\<pi>1\<lparr>lv_active := {}\<rparr>) ShutdownDone
      (\<pi>1\<lparr>lv_active := {}\<rparr>\<lparr>lv_phase := Exited None\<rparr>)"
    by (rule live_step.shutdown_done) (use drain in simp_all)
  with served idle have "steps (live_step ?env oe yaml path) \<pi> (map Go ts @ map ConnIdle us @ [ShutdownDone])
      (\<pi>1\<lparr>lv_active := {}\<rparr>\<lparr>lv_phase := Exited None\<rparr>)"
    unfolding steps_append steps_Cons_iff steps_Nil_iff by blast
  then show ?thesis using few
    by (intro exI [of _ ts] exI [of _ us] exI [of _ "\<pi>1\<lparr>lv_active := {}\<rparr>\<lparr>lv_phase := Exited None\<rparr>"]) simp
qed

text \<open>C17: The shutdown is graceful.  \<open>http.Server.Shutdown\<close> waits for connections, not for
  requests; yet when the process exits without an error, every request that ever came in is
  answered and has its one event in the log, and so has the signal that stopped the process.  And
  an error is never forced: while the process serves or drains, whatever is in flight, a signal (if
  none has come yet), at most 21 steps of each request, and then connections becoming idle
  lead to such an exit.\<close>

theorem graceful_shutdown_of_all:
  assumes "cmdServe_start lib sys read yaml fl = Inr (m, s)"
    and "steps (live_step (production_env lib m oe rnd clk) oe yaml (flg_config fl)) (live_init s) evs \<pi>"
  shows "(lv_phase \<pi> = Exited None \<longrightarrow> stop_logged (st_audit (lv_server \<pi>))
      \<and> dom (answers \<pi>) = dom (lv_threads \<pi>) \<and> one_event_each (st_audit (lv_server \<pi>)) (answers \<pi>))
    \<and> (live_running \<pi> \<longrightarrow>
        (\<exists>sigs ts us \<pi>'. sigs = (if lv_phase \<pi> = Serving then [StopRequested ''interrupt''] else [])
          \<and> length ts \<le> 21 * card (dom (lv_threads \<pi>))
          \<and> steps (live_step (production_env lib m oe rnd clk) oe yaml (flg_config fl)) \<pi>
              (sigs @ map Go ts @ map ConnIdle us @ [ShutdownDone]) \<pi>' \<and> lv_phase \<pi>' = Exited None))"
proof (intro conjI impI)
  let ?env = "production_env lib m oe rnd clk" and ?path = "flg_config fl"
  note inv = startup_live_inv [OF assms]
  show "stop_logged (st_audit (lv_server \<pi>))" and "one_event_each (st_audit (lv_server \<pi>)) (answers \<pi>)"
    if "lv_phase \<pi> = Exited None"
    using inv that unfolding live_inv_def phase_fits_def by blast+
  show "dom (answers \<pi>) = dom (lv_threads \<pi>)" if "lv_phase \<pi> = Exited None"
  proof -
    have "live_answered \<pi>" using inv that unfolding live_inv_def phase_fits_def by blast
    then show ?thesis by (fastforce simp: answers_def answer_of_iff live_answered_def is_Answered_iff dom_def)
  qed
  assume running: "live_running \<pi>"
  show "\<exists>sigs ts us \<pi>'. sigs = (if lv_phase \<pi> = Serving then [StopRequested ''interrupt''] else [])
      \<and> length ts \<le> 21 * card (dom (lv_threads \<pi>))
      \<and> steps (live_step ?env oe yaml ?path) \<pi> (sigs @ map Go ts @ map ConnIdle us @ [ShutdownDone]) \<pi>'
      \<and> lv_phase \<pi>' = Exited None"
  proof (cases "lv_phase \<pi> = Serving")
    case True
    let ?\<pi> = "\<pi>\<lparr>lv_server := log_stop ''interrupt'' (lv_server \<pi>), lv_phase := Draining\<rparr>"
    have stop: "live_step ?env oe yaml ?path \<pi> (StopRequested ''interrupt'') ?\<pi>"
      by (rule live_step.stop_requested [OF True]) (simp add: stop_signals_def)
    from drains_to_exit [OF live_step_inv [OF stop inv], of yaml ?path] obtain ts us \<pi>'
      where ts: "length ts \<le> 21 * card (dom (lv_threads \<pi>))"
        and run: "steps (live_step ?env oe yaml ?path) ?\<pi> (map Go ts @ map ConnIdle us @ [ShutdownDone]) \<pi>'"
        and ex: "lv_phase \<pi>' = Exited None" by auto
    from steps_more [of "live_step ?env oe yaml ?path", OF stop run] ts ex True
    show ?thesis by (intro exI [of _ "[StopRequested ''interrupt'']"] exI [of _ ts] exI [of _ us] exI [of _ \<pi>']) simp
  next
    case False
    with running have "lv_phase \<pi> = Draining" by (simp add: live_running_def)
    from drains_to_exit [OF inv this, of yaml ?path] False show ?thesis by simp
  qed
qed

lemma graceful_shutdown_of_all_demo:
  "\<exists>(\<pi> :: (string, string) live) resp. lv_phase \<pi> = Exited None \<and> answers \<pi> 0 = Some resp
     \<and> one_event_each (st_audit (lv_server \<pi>)) (answers \<pi>) \<and> stop_logged (st_audit (lv_server \<pi>))"
proof -
  obtain l evs \<pi> resp
    where st: "cmdServe_start demo_lib demo_os demo_read demo_yaml demo_flags
        = Inr (NewMemorySigner ''ca'', New demo_policy NewRemoteVerifier l :: string verifier_state server_state)"
      and run: "steps (live_step demo_env demo_oidc demo_yaml (flg_config demo_flags)) (demo_live l) evs \<pi>"
      and th: "lv_threads \<pi> = [0 \<mapsto> (demo_request, Answered resp)]" and ph: "lv_phase \<pi> = Serving"
    by (rule demo_live_run)
  have "live_inv demo_env demo_oidc \<pi>"
    using startup_live_inv [OF st run [unfolded demo_env_def demo_live_def]] by (simp add: demo_env_def)
  then have "lv_active \<pi> \<subseteq> {0}" using th unfolding live_inv_def conns_ok_def by auto
  moreover define \<pi>1 where "\<pi>1 = \<pi>\<lparr>lv_server := log_stop ''interrupt'' (lv_server \<pi>), lv_phase := Draining\<rparr>"
  ultimately have a: "finite (lv_active \<pi>1)" "lv_active \<pi>1 \<subseteq> dom (lv_threads \<pi>1)" "live_answered \<pi>1" "live_running \<pi>1"
    using th finite_subset [of "lv_active \<pi>" "{0}"] by (auto simp: \<pi>1_def live_answered_def live_running_def)
  define \<pi>2 where "\<pi>2 = \<pi>1\<lparr>lv_active := {}, lv_phase := Exited None\<rparr>"
  have stop: "live_step demo_env demo_oidc demo_yaml (flg_config demo_flags) \<pi> (StopRequested ''interrupt'') \<pi>1"
    unfolding \<pi>1_def by (rule live_step.stop_requested [OF ph]) (simp add: stop_signals_def)
  obtain us where idle: "steps (live_step demo_env demo_oidc demo_yaml (flg_config demo_flags)) \<pi>1
      (map ConnIdle us) (\<pi>1\<lparr>lv_active := {}\<rparr>)"
    using conns_become_idle [OF a(1) refl a(2-4)] by blast
  have "live_step demo_env demo_oidc demo_yaml (flg_config demo_flags) (\<pi>1\<lparr>lv_active := {}\<rparr>) ShutdownDone \<pi>2"
    using live_step.shutdown_done [of "\<pi>1\<lparr>lv_active := {}\<rparr>" demo_env demo_oidc demo_yaml "flg_config demo_flags"]
    by (simp add: \<pi>2_def \<pi>1_def)
  with run stop idle have run2: "steps (live_step demo_env demo_oidc demo_yaml (flg_config demo_flags)) (demo_live l)
      (evs @ StopRequested ''interrupt'' # map ConnIdle us @ [ShutdownDone]) \<pi>2"
    unfolding steps_append steps_Cons_iff steps_Nil_iff by blast
  have "lv_phase \<pi>2 = Exited None" "answers \<pi>2 0 = Some resp"
    using th by (simp_all add: \<pi>2_def \<pi>1_def answers_def)
  with conjunct1 [OF graceful_shutdown_of_all [OF st run2 [unfolded demo_env_def demo_live_def]]]
  show ?thesis by blast
qed

section \<open>Policy changes\<close>

text \<open>C8: Once the active policy is disabled, as long as the reload loop is not about to store
  an enabled one and every file it reads holds, if it loads, a disabled one, no request that had
  not yet read the policy gets a certificate, under any interleaving: its
  answer is 503, or 405 for a wrong method.\<close>

theorem emergency_stop_of_all:
  assumes "steps (live_step env oe yaml path) \<pi> evs \<pi>'"
    and "pol_Disabled (ActivePolicy (lv_server \<pi>))" and "loop_keeps pol_Disabled (hl_point (lv_loop \<pi>))"
    and "\<forall>ev \<in> set evs. reads_keep pol_Disabled yaml path ev"
    and "lv_threads \<pi> t = None \<or> lv_threads \<pi> t = Some (rq, Entered) \<or> lv_threads \<pi> t = Some (rq, Named rid)"
    and "lv_threads \<pi>' t = Some (rq', pt)"
  shows "certificate_of pt = None \<and> (\<forall>resp. pt = Answered resp \<longrightarrow> rsp_Status resp \<in> {405, 503})"
proof -
  have "live_stopped t \<pi>" using assms(2,3,5) by (auto simp: live_stopped_def live_keeps_def ActivePolicy_def)
  with live_steps_stopped [OF assms(1) _ assms(4)] have "refused (lv_threads \<pi>' t)"
    by (simp add: live_stopped_def)
  with assms(6) show ?thesis by (cases pt) auto
qed

lemma emergency_stop_of_all_demo:
  "\<exists>(\<pi> :: (string, string) live) resp. lv_threads \<pi> 0 = Some (demo_request, Answered resp)
     \<and> rsp_Status resp \<in> {405, 503}"
proof -
  define stopped_policy where "stopped_policy = demo_policy\<lparr>pol_Disabled := True\<rparr>"
  define \<pi> :: "(string, string) live"
    where "\<pi> = live_init (New stopped_policy () [] :: unit server_state)"
  obtain d where d: "check_request demo_lib stopped_policy ''POST'' demo_body = Inl d"
    using check_request_disabled [of stopped_policy demo_lib "''POST''" demo_body] by (auto simp: stopped_policy_def)
  have "\<exists>\<pi>' resp. live_run demo_env demo_oidc demo_yaml ''policy.yaml'' [Accept 0 demo_request, Go 0, Go 0, Go 0] \<pi>
      = Some \<pi>' \<and> lv_threads \<pi>' 0 = Some (demo_request, Answered resp)"
    using d by (simp add: \<pi>_def live_init_def New_def newRequestID_def deny_def demo_request_def demo_env_def Let_def)
  then obtain \<pi>' resp where "live_run demo_env demo_oidc demo_yaml ''policy.yaml''
      [Accept 0 demo_request, Go 0, Go 0, Go 0] \<pi> = Some \<pi>'"
    and th: "lv_threads \<pi>' 0 = Some (demo_request, Answered resp)" by blast
  then have run: "steps (live_step demo_env demo_oidc demo_yaml ''policy.yaml'') \<pi>
      [Accept 0 demo_request, Go 0, Go 0, Go 0] \<pi>'"
    using live_run_steps by (fastforce simp: \<pi>_def live_init_def live_running_def)
  have "rsp_Status resp \<in> {405, 503}"
    using emergency_stop_of_all [OF run, of 0 demo_request "[]" demo_request "Answered resp"] th
    by (simp add: \<pi>_def live_init_def New_def ActivePolicy_def stopped_policy_def loop_init_def reads_keep_def)
  with th show ?thesis by blast
qed

text \<open>C15: No change of the policy file is missed, although a signal that comes while another is
  pending is dropped: after a signal, as long as every read of the file loads the policy \<open>p\<close>, the
  loop does not come to rest with another policy active, and wherever the process then is, at
  most seven steps of the loop bring it to rest, with \<open>p\<close>.\<close>

theorem reload_takes_latest:
  assumes "live_step env oe yaml path \<pi> Sighup \<pi>1" and "steps (live_step env oe yaml path) \<pi>1 evs \<pi>2"
    and "\<forall>ev \<in> set evs. reads yaml path p ev"
  shows "(loop_quiet (lv_loop \<pi>2) \<longrightarrow> ActivePolicy (lv_server \<pi>2) = p)
    \<and> (live_running \<pi>2 \<and> Load read yaml path = Inr p \<longrightarrow>
        (\<exists>n \<pi>3. n \<le> 7 \<and> steps (live_step env oe yaml path) \<pi>2 (replicate n (LoopStep read)) \<pi>3
           \<and> loop_quiet (lv_loop \<pi>3) \<and> ActivePolicy (lv_server \<pi>3) = p))"
proof (intro conjI impI)
  have "live_catching_up p \<pi>1"
    using assms(1) by (cases rule: live_step_policy) (simp_all add: live_catching_up_def notify_catching_up)
  note now = live_steps_catching_up [OF assms(2) this assms(3)]
  then show "loop_quiet (lv_loop \<pi>2) \<Longrightarrow> ActivePolicy (lv_server \<pi>2) = p"
    by (simp add: live_catching_up_def caught_up)
  assume run: "live_running \<pi>2 \<and> Load read yaml path = Inr p"
  obtain ls \<pi>3 where ls: "steps (loop_go env oe yaml path read) \<pi>2 ls \<pi>3" and quiet: "loop_quiet (lv_loop \<pi>3)"
    using reload_loop.reaches_goal [OF conjunct1 [OF run]] by blast
  have "\<forall>l \<in> set ls. l = LoopStep read" by (rule steps_labels [OF ls]) (simp add: loop_go_def)
  then have rep: "replicate (length ls) (LoopStep read) = ls" by (rule replicate_length_same)
  have moved: "steps (live_step env oe yaml path) \<pi>2 ls \<pi>3"
    by (rule steps_mono [OF ls]) (simp add: loop_go_def)
  have "\<forall>ev \<in> set ls. reads yaml path p ev"
    using \<open>\<forall>l \<in> set ls. l = LoopStep read\<close> run by (auto simp: reads_def)
  from live_steps_catching_up [OF moved now this] quiet have "ActivePolicy (lv_server \<pi>3) = p"
    by (simp add: live_catching_up_def caught_up)
  moreover have "length ls \<le> 7"
    using reload_loop.work_steps [OF ls conjunct1 [OF run]] loop_left_bound [of "lv_loop \<pi>2"] by linarith
  ultimately show "\<exists>n \<pi>3. n \<le> 7 \<and> steps (live_step env oe yaml path) \<pi>2 (replicate n (LoopStep read)) \<pi>3
      \<and> loop_quiet (lv_loop \<pi>3) \<and> ActivePolicy (lv_server \<pi>3) = p"
    using moved quiet by (intro exI [of _ "length ls"] exI [of _ \<pi>3]) (simp add: rep)
qed

lemma reload_takes_latest_demo:
  "\<exists>(\<pi> :: (string, string) live) n \<pi>'. ActivePolicy (lv_server \<pi>) = demo_policy \<and> n \<le> 7
     \<and> steps (live_step demo_env demo_oidc demo_yaml ''stop.yaml'') \<pi> (replicate n (LoopStep demo_read)) \<pi>'
     \<and> pol_Disabled (ActivePolicy (lv_server \<pi>'))"
proof -
  define \<pi>0 :: "(string, string) live" where "\<pi>0 = demo_live []"
  define \<pi>1 where "\<pi>1 = \<pi>0\<lparr>lv_loop := notify (lv_loop \<pi>0)\<rparr>"
  define p where "p = demo_policy\<lparr>pol_Disabled := True\<rparr>"
  have run: "live_running \<pi>0" "live_running \<pi>1"
    by (simp_all add: \<pi>1_def \<pi>0_def demo_live_def live_init_def live_running_def)
  have sig: "live_step demo_env demo_oidc demo_yaml ''stop.yaml'' \<pi>0 Sighup \<pi>1"
    unfolding \<pi>1_def by (rule live_step.sighup [OF run(1)])
  have "policy_ok p" using demo_policy_ok by (simp add: policy_ok_disabled p_def)
  then have "Load demo_read demo_yaml ''stop.yaml'' = Inr p"
    by (simp add: Load_iff demo_read_def demo_yaml_def p_def)
  with reload_takes_latest [OF sig steps_none, of p demo_read] run(2)
  obtain n \<pi>3 where "n \<le> 7"
    "steps (live_step demo_env demo_oidc demo_yaml ''stop.yaml'') \<pi>1 (replicate n (LoopStep demo_read)) \<pi>3"
    "ActivePolicy (lv_server \<pi>3) = p" by auto
  moreover have "ActivePolicy (lv_server \<pi>1) = demo_policy" "pol_Disabled p"
    by (simp_all add: \<pi>1_def \<pi>0_def demo_live_def live_init_def New_def ActivePolicy_def p_def)
  ultimately show ?thesis by metis
qed

end
