(* ===== verification/ConcurrentAudit.thy ===== *)
theory ConcurrentAudit
  imports ConcurrentSafety
begin

text \<open>
  The log of the concurrent process tells the truth: the event of a denial names a cause that
  was there, under a valid policy, and the event of a certificate describes it.
\<close>

section \<open>Causes of a denial\<close>

text \<open>Why a token is refused.\<close>

inductive token_refused :: "'p oidc_env \<Rightarrow> string list \<Rightarrow> string \<Rightarrow> verify_error \<Rightarrow> bool"
  for oe allowed tok where
  tr_malformed: "unverifiedIssuer tok = Inl e \<Longrightarrow> token_refused oe allowed tok e"
| tr_issuer: "unverifiedIssuer tok = Inr iss \<Longrightarrow> iss \<notin> set allowed \<Longrightarrow>
    token_refused oe allowed tok (IssuerNotReferenced iss)"
| tr_discovery: "unverifiedIssuer tok = Inr iss \<Longrightarrow> iss \<in> set allowed \<Longrightarrow> fetch_failed oe iss e \<Longrightarrow>
    token_refused oe allowed tok (DiscoveryFailed iss e)"
| tr_verification: "unverifiedIssuer tok = Inr iss \<Longrightarrow> iss \<in> set allowed \<Longrightarrow> obtained oe iss p \<Longrightarrow>
    env_verify oe n rs256_config p tok = Inl e \<Longrightarrow> token_refused oe allowed tok (TokenVerification e)"
| tr_claims: "unverifiedIssuer tok = Inr iss \<Longrightarrow> iss \<in> set allowed \<Longrightarrow> obtained oe iss p \<Longrightarrow>
    env_verify oe n rs256_config p tok = Inr idt \<Longrightarrow> tok_Claims idt = Inl e \<Longrightarrow>
    token_refused oe allowed tok (DecodeClaims e)"
| tr_dates: "unverifiedIssuer tok = Inr iss \<Longrightarrow> iss \<in> set allowed \<Longrightarrow> token_checked oe tok iss idt cs \<Longrightarrow>
    checkTimeClaims (env_float_oob oe) cs (env_clock oe k) = Inl e \<Longrightarrow>
    token_refused oe allowed tok (TimeClaims e)"

text \<open>The request is acceptable, and its token is authentic for the identity.\<close>

definition identified ::
  "('pk, 'sk, 'v) server_env \<Rightarrow> 'p oidc_env \<Rightarrow> Policy \<Rightarrow> sign_request \<Rightarrow> 'pk \<Rightarrow> Identity \<Rightarrow> bool" where
  "identified env oe pol rq pub i \<longleftrightarrow>
     acceptable (sv_lib env) pol (sr_method rq) (sr_body rq) pub \<and> vouched oe pol rq i"

text \<open>Why a request is denied: status, reason and detail, and what must be the case.\<close>

inductive denial_due ::
  "('pk, 'sk, 'v) server_env \<Rightarrow> 'p oidc_env \<Rightarrow> Policy \<Rightarrow> sign_request \<Rightarrow> nat \<Rightarrow> string \<Rightarrow> detail \<Rightarrow> bool"
  for env oe pol rq where
  due_method: "sr_method rq \<noteq> ''POST'' \<Longrightarrow>
    denial_due env oe pol rq 405 reasonBadRequest (MethodNotAllowed (sr_method rq))"
| due_disabled: "sr_method rq = ''POST'' \<Longrightarrow> pol_Disabled pol \<Longrightarrow>
    denial_due env oe pol rq 503 (reason_code ReasonPolicyDisabled) PolicyIsDisabled"
| due_size: "sr_method rq = ''POST'' \<Longrightarrow> \<not> pol_Disabled pol \<Longrightarrow> length (sr_body rq) > MaxRequestBody \<Longrightarrow>
    denial_due env oe pol rq 400 reasonBadRequest BodyTooLarge"
| due_json: "sr_method rq = ''POST'' \<Longrightarrow> \<not> pol_Disabled pol \<Longrightarrow> length (sr_body rq) \<le> MaxRequestBody \<Longrightarrow>
    decode_string_field ''public_key'' (sr_body rq) = Inl e \<Longrightarrow>
    denial_due env oe pol rq 400 reasonBadRequest (BodyNotJSON e)"
| due_key: "sr_method rq = ''POST'' \<Longrightarrow> \<not> pol_Disabled pol \<Longrightarrow> length (sr_body rq) \<le> MaxRequestBody \<Longrightarrow>
    decode_string_field ''public_key'' (sr_body rq) = Inr raw \<Longrightarrow>
    ValidatePublicKey (sv_lib env) raw (AllowedPublicKeyTypes pol) = Inl e \<Longrightarrow>
    denial_due env oe pol rq 400 reasonInvalidPublicKey (PublicKeyRejected e)"
| due_bearer: "acceptable (sv_lib env) pol (sr_method rq) (sr_body rq) pub \<Longrightarrow>
    bearerToken (sr_auth rq) = None \<Longrightarrow>
    denial_due env oe pol rq 401 reasonMissingToken NoBearerToken"
| due_token: "acceptable (sv_lib env) pol (sr_method rq) (sr_body rq) pub \<Longrightarrow>
    bearerToken (sr_auth rq) = Some tok \<Longrightarrow> token_refused oe (Issuers pol) tok e \<Longrightarrow>
    denial_due env oe pol rq 401 reasonTokenInvalid (VerifierRejected e)"
| due_no_rule: "identified env oe pol rq pub i \<Longrightarrow> filter (candidate i) (pol_Rules pol) = [] \<Longrightarrow>
    denial_due env oe pol rq 403 (reason_code ReasonNoRuleMatched) (NotAuthorized ReasonNoRuleMatched)"
| due_many_rules: "identified env oe pol rq pub i \<Longrightarrow> length (filter (candidate i) (pol_Rules pol)) > 1 \<Longrightarrow>
    denial_due env oe pol rq 403 (reason_code ReasonMultipleRules)
      (RulesAllMatched (map rule_Name (filter (candidate i) (pol_Rules pol))))"
| due_key_id: "identified env oe pol rq pub i \<Longrightarrow> filter (candidate i) (pol_Rules pol) = [r] \<Longrightarrow>
    ExpandKeyID (KeyIDTemplateFor pol r) (id_Claims i) = Inl e \<Longrightarrow>
    denial_due env oe pol rq 403 reasonKeyIDInvalid (KeyIDRejected e)"
| due_signing: "identified env oe pol rq pub i \<Longrightarrow> granted pol i r keyID \<Longrightarrow>
    Issue (sv_sign env) (lib_MarshalCert (sv_lib env)) (sv_rand env) n
      (cert_request pol r pub keyID (sv_clock env k)) = Inl e \<Longrightarrow>
    denial_due env oe pol rq 500 reasonSigningError (IssueFailed e)"

definition due :: "('pk, 'sk, 'v) server_env \<Rightarrow> 'p oidc_env \<Rightarrow> Policy \<Rightarrow> sign_request \<Rightarrow> denial \<Rightarrow> bool" where
  "due env oe pol rq d \<longleftrightarrow> denial_due env oe pol rq (den_status d) (den_reason d) (den_detail d)"

lemma check_request_due:
  "check_request (sv_lib env) pol (sr_method rq) (sr_body rq) = Inl d \<Longrightarrow> due env oe pol rq d"
  by (auto simp: check_request_def due_def not_less simp del: reason_code.simps
      split: if_split_asm sum.split_asm intro: denial_due.intros)

lemma token_gate_due:
  assumes "token_gate pol (sr_auth rq) ka = Inl d"
    and "acceptable (sv_lib env) pol (sr_method rq) (sr_body rq) pub"
  shows "due env oe pol rq d"
  using assms(1)
  by (auto simp: token_gate_def issuer_gate_def token_denied_def due_def
      split: option.split_asm sum.split_asm if_split_asm
      intro: due_bearer [OF assms(2)] due_token [OF assms(2) _ tr_malformed] due_token [OF assms(2) _ tr_issuer])

lemma authorize_due:
  assumes "authorize pol i ca = Inl d" and "identified env oe pol rq pub i"
  shows "due env oe pol rq d"
proof -
  have on: "\<not> pol_Disabled pol" using assms(2) by (simp add: identified_def acceptable_def)
  let ?m = "filter (candidate i) (pol_Rules pol)"
  consider "?m = []" | r where "?m = [r]" | "length ?m > 1"
    by (cases ?m rule: remdups_adj.cases) auto
  then show ?thesis
  proof cases
    case 1
    then have "Evaluate pol i = \<lparr>dec_Allowed = False, dec_Rule = None, dec_Reason = Some ReasonNoRuleMatched,
        dec_MatchedRules = []\<rparr>"
      using on by (simp add: Evaluate_def collect_matches_filter)
    with assms(1) 1 due_no_rule [OF assms(2)] show ?thesis
      by (auto simp: authorize_def due_def simp del: reason_code.simps)
  next
    case (2 r)
    with assms(1) authorize_allowed [OF 2 on, of ca] due_key_id [OF assms(2) 2] show ?thesis
      by (auto simp: due_def split: sum.split_asm)
  next
    case 3
    then obtain a b m where m: "?m = a # b # m" by (cases ?m rule: remdups_adj.cases) auto
    then have "Evaluate pol i = \<lparr>dec_Allowed = False, dec_Rule = None, dec_Reason = Some ReasonMultipleRules,
        dec_MatchedRules = map rule_Name ?m\<rparr>"
      using on by (simp add: Evaluate_def collect_matches_filter)
    with assms(1) 3 due_many_rules [OF assms(2) 3] show ?thesis
      by (auto simp: authorize_def due_def simp del: reason_code.simps)
  qed
qed

lemma issue_cert_due:
  assumes "issue_cert env pol r keyID pub ca s = (Inl d, s')" and "identified env oe pol rq pub i"
    and "granted pol i r keyID"
  shows "due env oe pol rq d"
  using assms(1) due_signing [OF assms(2,3)]
  by (auto simp: issue_cert_def Let_def due_def split: sum.split_asm)

section \<open>What an event says of a certificate\<close>

text \<open>The grounds of a certificate: the justification, with its identity and rule.\<close>

definition grounds ::
  "('pk, 'sk, 'v) server_env \<Rightarrow> 'p oidc_env \<Rightarrow> Policy \<Rightarrow> sign_request \<Rightarrow> Identity \<Rightarrow> Rule \<Rightarrow> 'pk ssh_cert \<Rightarrow> bool" where
  "grounds env oe pol rq i r cert \<longleftrightarrow> (\<exists>pub keyID k. identified env oe pol rq pub i \<and> granted pol i r keyID
     \<and> cert_for pol r keyID pub (sv_clock env k) cert \<and> crt_SignatureKey cert = Some (sv_ca_key env))"

lemma grounds_justified:
  assumes "grounds env oe pol rq i r cert"
  shows "justified env (authentic oe) pol rq cert"
proof -
  obtain pub keyID k where "identified env oe pol rq pub i" "granted pol i r keyID"
    "cert_for pol r keyID pub (sv_clock env k) cert" "crt_SignatureKey cert = Some (sv_ca_key env)"
    using assms unfolding grounds_def by blast
  then show ?thesis unfolding justified_def identified_def vouched_def token_for_def by blast
qed

text \<open>The attributes name the rule, describe the certificate and identify the caller; the source
  address is the one that the rule itself sets.\<close>

definition describes ::
  "('pk, 'sk) ssh_lib \<Rightarrow> Policy \<Rightarrow> Identity \<Rightarrow> Rule \<Rightarrow> 'pk ssh_cert \<Rightarrow> (string \<Rightarrow> detail attr_value option) \<Rightarrow> bool" where
  "describes lib pol i r cert A \<longleftrightarrow>
     A ''rule'' = Some (AttrString (rule_Name r))
     \<and> A ''principals'' = Some (AttrStrings (crt_ValidPrincipals cert))
     \<and> A ''key_id'' = Some (AttrString (crt_KeyId cert))
     \<and> A ''valid_for_seconds'' = Some (AttrInt (ValidForSecondsFor pol r))
     \<and> A ''force_command'' = map_option AttrString (crt_CriticalOptions cert ''force-command'')
     \<and> A ''source_address'' = (if cert_SourceAddress (rule_Certificate r) \<noteq> []
         then Some (AttrStrings (cert_SourceAddress (rule_Certificate r))) else None)
     \<and> A ''public_key_fingerprint'' = Some (AttrString (lib_FingerprintSHA256 lib (crt_Key cert)))
     \<and> A ''key_type'' = Some (AttrString (lib_Type lib (crt_Key cert)))
     \<and> A ''issuer'' = Some (AttrString (id_Issuer i))
     \<and> (\<forall>name \<in> set auditedClaims. A name = map_option AttrString (string_claim (id_Claims i) name))"

lemma map_of_claims:
  "map_of (concat (map (\<lambda>n. case f n of Some v \<Rightarrow> [(n, g v)] | None \<Rightarrow> []) names)) k =
     (if k \<in> set names then map_option g (f k) else None)"
  by (induction names) (auto split: option.split)

lemma map_of_identityAttrs:
  "map_of (identityAttrs i) k = (if k = ''issuer'' then Some (AttrString (id_Issuer i))
     else if k \<in> set auditedClaims then map_option AttrString (string_claim (id_Claims i) k) else None)"
  by (simp add: identityAttrs_def map_of_claims)

text \<open>None of the claims that are logged has the name of another attribute.\<close>

lemma auditedClaims_new:
  "k \<in> set auditedClaims \<Longrightarrow> k \<notin> {''event'', ''request_id'', ''rule'', ''principals'', ''key_id'', ''valid_for_seconds'',
     ''force_command'', ''source_address'', ''public_key_fingerprint'', ''key_type'', ''issuer''}"
  by (auto simp: auditedClaims_def)

lemma issued_attrs_describe:
  assumes "cert_for pol r keyID pub now cert"
  shows "describes lib pol i r cert (map_of (issued_attrs pol r keyID @ key_attrs lib pub @ identityAttrs i))"
proof -
  have "map_of (issued_attrs pol r keyID @ key_attrs lib pub @ identityAttrs i) k
      = map_option AttrString (string_claim (id_Claims i) k)" if "k \<in> set auditedClaims" for k
    using that auditedClaims_new [OF that]
    by (simp add: issued_attrs_def key_attrs_def map_of_identityAttrs)
  moreover have "''issuer'' \<notin> set auditedClaims" "''force_command'' \<notin> set auditedClaims"
      "''source_address'' \<notin> set auditedClaims"
    by (simp_all add: auditedClaims_def)
  ultimately show ?thesis using assms
    by (simp add: describes_def cert_for_def issued_attrs_def key_attrs_def map_of_identityAttrs)
qed

lemma describes_cong:
  assumes "describes lib pol i r cert A" and "\<And>k. k \<noteq> ''event'' \<Longrightarrow> k \<noteq> ''request_id'' \<Longrightarrow> B k = A k"
  shows "describes lib pol i r cert B"
proof -
  have "B k = A k" if "k \<in> set auditedClaims" for k
    using assms(2) [of k] auditedClaims_new [OF that] by simp
  with assms show ?thesis by (simp add: describes_def)
qed

section \<open>What a request is about to log\<close>

text \<open>What is known of the policy that decides is \<open>Q\<close>: for all requests that it is valid; for
  those that come after a change of the policy, more.\<close>

definition issued_told ::
  "(Policy \<Rightarrow> bool) \<Rightarrow> ('pk, 'sk, 'v) server_env \<Rightarrow> 'p oidc_env \<Rightarrow> sign_request \<Rightarrow> string \<Rightarrow> (string \<Rightarrow> detail attr_value option) \<Rightarrow> bool" where
  "issued_told Q env oe rq out A \<longleftrightarrow> (\<exists>pol i r cert. Q pol \<and> grounds env oe pol rq i r cert
     \<and> out = lib_MarshalCert (sv_lib env) cert \<and> describes (sv_lib env) pol i r cert A)"

definition denied_told ::
  "(Policy \<Rightarrow> bool) \<Rightarrow> ('pk, 'sk, 'v) server_env \<Rightarrow> 'p oidc_env \<Rightarrow> sign_request \<Rightarrow> nat
   \<Rightarrow> (string \<Rightarrow> detail attr_value option) \<Rightarrow> bool" where
  "denied_told Q env oe rq status A \<longleftrightarrow> (\<exists>pol reason d. Q pol \<and> denial_due env oe pol rq status reason d
     \<and> A ''reason'' = Some (AttrString reason) \<and> A ''detail'' = Some (AttrDetail d))"

definition answer_told ::
  "(Policy \<Rightarrow> bool) \<Rightarrow> ('pk, 'sk, 'v) server_env \<Rightarrow> 'p oidc_env \<Rightarrow> sign_request \<Rightarrow> Response
   \<Rightarrow> (string \<Rightarrow> detail attr_value option) \<Rightarrow> bool" where
  "answer_told Q env oe rq resp A \<longleftrightarrow>
     (if rsp_Status resp = 200 then issued_told Q env oe rq (rsp_Body resp) A
      else denied_told Q env oe rq (rsp_Status resp) A)"

fun point_told ::
  "(Policy \<Rightarrow> bool) \<Rightarrow> ('pk, 'sk, 'v) server_env \<Rightarrow> 'p oidc_env \<Rightarrow> sign_request \<Rightarrow> ('pk, 'p) point \<Rightarrow> bool" where
  "point_told Q env oe rq Entered = True"
| "point_told Q env oe rq (Named rid) = True"
| "point_told Q env oe rq (Fetching rid pol pub tok iss) = Q pol"
| "point_told Q env oe rq (Verifying rid pol pub tok p) = Q pol"
| "point_told Q env oe rq (Dating rid pol pub idt cs) = Q pol"
| "point_told Q env oe rq (Granting rid pol pub i rule keyID) = Q pol"
| "point_told Q env oe rq (Denying rid d) = (\<exists>pol. Q pol \<and> due env oe pol rq d)"
| "point_told Q env oe rq (Issuing rid out attrs) = issued_told Q env oe rq out (map_of attrs)"
| "point_told Q env oe rq (Answered resp) = (\<exists>A. answer_told Q env oe rq resp A)"

lemma dueI: "Q pol \<Longrightarrow> due env oe pol rq d \<Longrightarrow> point_told Q env oe rq (Denying rid d)"
  by auto

lemma token_denied_due:
  assumes "Q pol" and "body_ok env pol rq pub" and "token_for pol rq tok iss" and "token_refused oe (Issuers pol) tok e"
  shows "point_told Q env oe rq (Denying rid (token_denied ka e))"
  using assms due_token [of env pol rq pub tok oe e]
  by (intro dueI [of Q pol]) (simp_all add: body_ok_def token_for_def token_denied_def due_def check_request_iff)

lemma go_told:
  assumes "go (production_env lib m oe rnd clk) oe t rq pt s = Some (pt', s')"
    and "point_ok (production_env lib m oe rnd clk) oe rq pt" and "Q (st_policy s)"
    and "\<And>iss e. pl_calls (st_verifier s) t = Some (iss, Returned (Inl e)) \<Longrightarrow> fetch_failed oe iss e"
    and "\<And>rid pol pub tok iss i r. pt = Fetching rid pol pub tok iss \<Longrightarrow>
      pl_calls (st_verifier s) t = Some (i, Returned r) \<Longrightarrow> i = iss"
    and "point_told Q (production_env lib m oe rnd clk) oe rq pt"
  shows "point_told Q (production_env lib m oe rnd clk) oe rq pt'" (is "point_told Q ?env oe rq pt'")
proof (cases pt)
  case (Named rid)
  show ?thesis
  proof (cases "check_request (sv_lib ?env) (st_policy s) (sr_method rq) (sr_body rq)")
    case (Inl d)
    with assms(1) Named dueI [of Q, OF assms(3) check_request_due [OF Inl]] show ?thesis by auto
  next
    case (Inr pub)
    note pub = Inr [unfolded check_request_iff]
    with assms(1,3) Named Inr dueI [of Q, OF assms(3) token_gate_due [OF _ pub]] show ?thesis
      by (auto simp del: point_told.simps(7) split: sum.splits)
  qed
next
  case (Fetching rid pol pub tok iss)
  then obtain i r where c: "pl_calls (st_verifier s) t = Some (i, Returned r)"
    using assms(1) by (auto split: option.splits pc.splits)
  with assms(5) Fetching have i: "i = iss" by blast
  show ?thesis
  proof (cases r)
    case (Inl e)
    with c i assms(4) have "fetch_failed oe iss e" by blast
    moreover have tok: "body_ok ?env pol rq pub" "token_for pol rq tok iss" using assms(2) Fetching by simp_all
    moreover have "Q pol" using assms(6) Fetching by simp
    ultimately have "token_refused oe (Issuers pol) tok (DiscoveryFailed iss e)"
      by (intro tr_discovery) (simp_all add: token_for_def)
    from token_denied_due [of Q, OF \<open>Q pol\<close> tok this] c Inl assms(1) Fetching show ?thesis
      by (auto simp del: point_told.simps(7))
  qed (use c assms(1,6) Fetching in auto)
next
  case (Verifying rid pol pub tok p)
  obtain iss where iss: "body_ok ?env pol rq pub" "token_for pol rq tok iss" "obtained oe iss p"
    using assms(2) Verifying by auto
  have "token_refused oe (Issuers pol) tok e" if "check_token oe n p tok = Inl e" for n e
    using that iss tr_verification [of tok iss "Issuers pol" oe p] tr_claims [of tok iss "Issuers pol" oe p]
    by (auto simp: check_token_def token_for_def split: sum.splits)
  from token_denied_due [of Q, OF _ iss(1,2) this] assms(1,6) Verifying show ?thesis
    by (auto simp: Let_def simp del: point_told.simps(7) split: sum.splits)
next
  case (Dating rid pol pub idt cs)
  obtain tok iss where tok: "token_for pol rq tok iss" "token_checked oe tok iss idt cs"
    and b: "body_ok ?env pol rq pub"
    using assms(2) Dating by auto
  let ?k = "pl_tick (st_verifier s)"
  show ?thesis
  proof (cases "check_dates oe ?k idt cs")
    case (Inl e)
    then have "token_refused oe (Issuers pol) tok e"
      using tok tr_dates [of tok iss "Issuers pol" oe idt cs ?k]
      by (auto simp: check_dates_def token_for_def split: sum.splits)
    from token_denied_due [of Q, OF _ b tok(1) this] assms(1,6) Dating Inl show ?thesis
      by (auto simp: Let_def simp del: point_told.simps(7))
  next
    case (Inr i)
    then have "authentic oe tok i"
      using check_dates_authentic [OF Inr _ tok(2)] tok(1) by (simp add: token_for_def)
    with tok have "vouched oe pol rq i" unfolding vouched_def by blast
    with b have "identified ?env oe pol rq pub i" by (simp add: identified_def body_ok_def check_request_iff)
    from dueI [of Q, OF _ authorize_due [OF _ this]] assms(1,6) Dating Inr show ?thesis
      by (auto simp: Let_def simp del: point_told.simps(7) split: sum.splits)
  qed
next
  case (Granting rid pol pub i rule keyID)
  define ca where "ca = key_attrs (sv_lib ?env) pub @ identityAttrs i"
  obtain x s1 where x: "issue_cert ?env pol rule keyID pub ca s = (x, s1)" by (cases "issue_cert ?env pol rule keyID pub ca s")
  have pol: "Q pol" and g: "granted pol i rule keyID" and idf: "identified ?env oe pol rq pub i"
    using assms(2,6) Granting by (simp_all add: identified_def body_ok_def check_request_iff)
  show ?thesis
  proof (cases x)
    case (Inl d)
    with x have "issue_cert ?env pol rule keyID pub ca s = (Inl d, s1)" by simp
    from dueI [of Q, OF pol issue_cert_due [OF this idf g]] assms(1) Granting x Inl show ?thesis
      by (auto simp: Let_def ca_def simp del: point_told.simps(7))
  next
    case (Inr out)
    with x obtain cert where cert: "out = lib_MarshalCert (sv_lib ?env) cert"
      "cert_for pol rule keyID pub (sv_clock ?env (st_tick s)) cert" "crt_SignatureKey cert = Some (sv_ca_key ?env)"
      using production.issue_cert_for by metis
    then have "grounds ?env oe pol rq i rule cert" using idf g unfolding grounds_def by blast
    moreover have "describes (sv_lib ?env) pol i rule cert (map_of (issued_attrs pol rule keyID @ ca))"
      unfolding ca_def by (rule issued_attrs_describe [OF cert(2)])
    ultimately have "issued_told Q ?env oe rq out (map_of (issued_attrs pol rule keyID @ ca))"
      using pol cert(1) unfolding issued_told_def by blast
    with assms(1) Granting x Inr show ?thesis
      by (auto simp: Let_def ca_def simp del: map_of_append)
  qed
next
  case (Denying rid d)
  obtain pol where pol: "Q pol" "due ?env oe pol rq d" using assms(6) Denying by auto
  have "den_status d \<noteq> 200" using assms(2) Denying status_table_not_200 by auto
  moreover have "denied_told Q ?env oe rq (den_status d)
      [''reason'' \<mapsto> AttrString (den_reason d), ''detail'' \<mapsto> AttrDetail (den_detail d)]"
    using pol unfolding denied_told_def due_def by (intro exI [of _ pol]) auto
  ultimately have "answer_told Q ?env oe rq (fst (deny s rid d))
      [''reason'' \<mapsto> AttrString (den_reason d), ''detail'' \<mapsto> AttrDetail (den_detail d)]"
    by (simp add: deny_def answer_told_def)
  with assms(1) Denying show ?thesis by (auto simp: Let_def split: prod.splits)
next
  case (Issuing rid out attrs)
  with assms(1) have pt': "\<exists>resp. pt' = Answered resp \<and> rsp_Status resp = 200 \<and> rsp_Body resp = out" by auto
  have "issued_told Q ?env oe rq out (map_of attrs)" using assms(6) Issuing by simp
  moreover obtain resp where "pt' = Answered resp" "rsp_Status resp = 200" "rsp_Body resp = out"
    using pt' by blast
  ultimately have "answer_told Q ?env oe rq resp (map_of attrs)" by (simp add: answer_told_def)
  then show ?thesis unfolding \<open>pt' = Answered resp\<close> point_told.simps by (rule exI [of _ "map_of attrs"])
qed (use assms(1) in \<open>auto split: prod.splits\<close>)

text \<open>What a thread is about to log, kept by every step as long as the active policy is \<open>Q\<close>.\<close>

definition thread_told ::
  "(Policy \<Rightarrow> bool) \<Rightarrow> ('pk, 'sk, 'v) server_env \<Rightarrow> 'p oidc_env \<Rightarrow> nat \<Rightarrow> ('pk, 'p) live \<Rightarrow> bool" where
  "thread_told Q env oe t \<pi> \<longleftrightarrow> (\<forall>rq pt. lv_threads \<pi> t = Some (rq, pt) \<longrightarrow> point_told Q env oe rq pt)"

lemma own_thread_told:
  assumes inv: "live_inv (production_env lib m oe rnd clk) oe \<pi>" and "Q (st_policy (lv_server \<pi>))"
    and th: "lv_threads \<pi> t = Some (rq, pt)"
    and step: "go (production_env lib m oe rnd clk) oe t rq pt (lv_server \<pi>) = Some (pt', s')"
    and told: "point_told Q (production_env lib m oe rnd clk) oe rq pt"
  shows "point_told Q (production_env lib m oe rnd clk) oe rq pt'" (is "point_told Q ?env oe rq pt'")
proof -
  have ok: "point_ok ?env oe rq pt" and reached: "pool_reached oe (st_verifier (lv_server \<pi>))"
    using inv th unfolding live_inv_defs by blast+
  have fits: "call_fits (Some pt) (pl_calls (st_verifier (lv_server \<pi>)) t)" using calls_fitD [OF inv th] by simp
  have failed: "fetch_failed oe iss e"
    if "pl_calls (st_verifier (lv_server \<pi>)) t = Some (iss, Returned (Inl e))" for iss e
    using reached unfolding pool_reached_def by (elim exE) (rule returned_failed [OF _ that])
  show ?thesis by (rule go_told [where Q = Q, OF step ok assms(2) failed _ told]) (use fits in auto)
qed

lemma live_step_thread_told:
  assumes "live_step (production_env lib m oe rnd clk) oe yaml path \<pi> ev \<pi>'"
    and "live_inv (production_env lib m oe rnd clk) oe \<pi>" and "Q (st_policy (lv_server \<pi>))"
    and "thread_told Q (production_env lib m oe rnd clk) oe t \<pi>"
  shows "thread_told Q (production_env lib m oe rnd clk) oe t \<pi>'"
  using assms(1)
proof cases
  case (own u rq pt pt' s')
  show ?thesis
  proof (cases "u = t")
    case True
    with own assms(4) have "point_told Q (production_env lib m oe rnd clk) oe rq pt"
      by (simp add: thread_told_def)
    from own_thread_told [where Q = Q, OF assms(2,3) own(4,5) this] own True show ?thesis
      by (simp add: thread_told_def)
  qed (use own assms(4) in \<open>simp add: thread_told_def\<close>)
qed (use assms(4) in \<open>simp_all add: thread_told_def\<close>)

section \<open>The log against the answers\<close>

definition tells ::
  "(Policy \<Rightarrow> bool) \<Rightarrow> ('pk, 'sk, 'v) server_env \<Rightarrow> 'p oidc_env \<Rightarrow> sign_request \<Rightarrow> Response \<Rightarrow> detail event \<Rightarrow> bool" where
  "tells Q env oe rq resp e \<longleftrightarrow> event_for resp e \<and> answer_told Q env oe rq resp (attr e)"

lemma go_tells:
  assumes "go env oe t rq pt s = Some (Answered resp, s')" and "point_ok env oe rq pt" and "point_told Q env oe rq pt"
  shows "\<exists>e. st_audit s' = st_audit s @ [e] \<and> tells Q env oe rq resp e"
proof (cases pt)
  case (Denying rid d)
  obtain e where e: "Denied rid (den_reason d) (den_detail d) (den_attrs d) (st_audit s) = st_audit s @ [e]"
    "ev_msg e = EventDenied" "attr e ''request_id'' = Some (AttrString rid)"
    "attr e ''reason'' = Some (AttrString (den_reason d))" "attr e ''detail'' = Some (AttrDetail (den_detail d))"
    using Denied_event [of rid "den_reason d" "den_detail d" "den_attrs d" "st_audit s"] by metis
  obtain pol where "Q pol" "due env oe pol rq d" using assms(3) Denying by auto
  then have "denied_told Q env oe rq (den_status d) (attr e)"
    using e(4,5) unfolding denied_told_def due_def by blast
  moreover have "den_status d \<noteq> 200" using assms(2) Denying status_table_not_200 by auto
  ultimately have "tells Q env oe rq resp e" "st_audit s' = st_audit s @ [e]"
    using assms(1) Denying e by (auto simp: deny_def tells_def answer_told_def event_for_def)
  then show ?thesis by blast
next
  case (Issuing rid out attrs)
  obtain e where e: "Issued rid attrs (st_audit s) = st_audit s @ [e]"
    "event_for \<lparr>rsp_Status = 200, rsp_ContentType = ''text/plain; charset=utf-8'', rsp_Body = out, rsp_RequestID = rid\<rparr> e"
    "\<And>k. k \<noteq> ''event'' \<Longrightarrow> k \<noteq> ''request_id'' \<Longrightarrow> attr e k = map_of attrs k"
    by (simp add: Issued_def log_event_def attr_def event_for_def)
  have "issued_told Q env oe rq out (map_of attrs)" using assms(3) Issuing by simp
  then obtain pol i r cert where c: "Q pol" "grounds env oe pol rq i r cert"
    "out = lib_MarshalCert (sv_lib env) cert" "describes (sv_lib env) pol i r cert (map_of attrs)"
    unfolding issued_told_def by blast
  from describes_cong [OF c(4) e(3)] c(1-3) have "issued_told Q env oe rq out (attr e)"
    unfolding issued_told_def by blast
  with assms(1) Issuing e(1,2) show ?thesis by (auto simp: tells_def answer_told_def)
qed (use assms(1) in \<open>auto simp: Let_def split: option.splits sum.splits pc.splits prod.splits\<close>)

text \<open>As \<open>one_event_each\<close>, with the request and what the event tells.\<close>

definition log_told :: "(Policy \<Rightarrow> bool) \<Rightarrow> ('pk, 'sk, 'v) server_env \<Rightarrow> 'p oidc_env \<Rightarrow> ('pk, 'p) live \<Rightarrow> bool" where
  "log_told Q env oe \<pi> \<longleftrightarrow> (\<exists>ts. distinct ts \<and> set ts = dom (answers \<pi>)
     \<and> list_all2 (\<lambda>t e. \<exists>rq resp. lv_threads \<pi> t = Some (rq, Answered resp) \<and> tells Q env oe rq resp e) ts
         (filter is_request_event (st_audit (lv_server \<pi>))))"

lemma tells_request: "tells Q env oe rq resp e \<Longrightarrow> is_request_event e"
  by (auto simp: tells_def intro: event_for_request)

text \<open>A step that answers nothing, and one that answers.\<close>

lemma log_told_quiet:
  assumes "log_told Q env oe \<pi>" and "answers \<pi>' = answers \<pi>"
    and "\<And>t rq resp. lv_threads \<pi> t = Some (rq, Answered resp) \<Longrightarrow> lv_threads \<pi>' t = Some (rq, Answered resp)"
    and "st_audit (lv_server \<pi>') = st_audit (lv_server \<pi>) @ es" and "\<forall>e \<in> set es. \<not> is_request_event e"
  shows "log_told Q env oe \<pi>'"
proof -
  have "filter is_request_event (st_audit (lv_server \<pi>')) = filter is_request_event (st_audit (lv_server \<pi>))"
    using assms(4,5) by (simp add: filter_empty_conv [THEN iffD2])
  moreover obtain ts where ts: "distinct ts" "set ts = dom (answers \<pi>)"
    "list_all2 (\<lambda>t e. \<exists>rq resp. lv_threads \<pi> t = Some (rq, Answered resp) \<and> tells Q env oe rq resp e) ts
         (filter is_request_event (st_audit (lv_server \<pi>)))"
    using assms(1) unfolding log_told_def by blast
  moreover from ts(3) have "list_all2 (\<lambda>t e. \<exists>rq resp. lv_threads \<pi>' t = Some (rq, Answered resp) \<and> tells Q env oe rq resp e) ts
         (filter is_request_event (st_audit (lv_server \<pi>)))"
    by (rule list_all2_mono) (use assms(3) in blast)
  ultimately show ?thesis unfolding log_told_def assms(2) by (intro exI [of _ ts]) simp
qed

lemma log_told_answer:
  assumes "log_told Q env oe \<pi>" and "answers \<pi> t = None"
    and "lv_threads \<pi>' = (lv_threads \<pi>)(t \<mapsto> (rq, Answered resp))"
    and "st_audit (lv_server \<pi>') = st_audit (lv_server \<pi>) @ [e]" and "tells Q env oe rq resp e"
  shows "log_told Q env oe \<pi>'"
proof -
  obtain ts where ts: "distinct ts" "set ts = dom (answers \<pi>)"
    "list_all2 (\<lambda>t e. \<exists>rq resp. lv_threads \<pi> t = Some (rq, Answered resp) \<and> tells Q env oe rq resp e) ts
         (filter is_request_event (st_audit (lv_server \<pi>)))"
    using assms(1) unfolding log_told_def by blast
  have new: "t \<notin> set ts" using ts(2) assms(2) by auto
  have "answers \<pi>' = (answers \<pi>)(t \<mapsto> resp)" using assms(3) by (auto simp: answers_def)
  moreover have "list_all2 (\<lambda>u e. \<exists>rq resp. lv_threads \<pi>' u = Some (rq, Answered resp) \<and> tells Q env oe rq resp e) ts
         (filter is_request_event (st_audit (lv_server \<pi>)))"
    by (rule list.rel_mono_strong [OF ts(3)]) (use new assms(3) in auto)
  ultimately show ?thesis
    using ts new assms(3-5) tells_request [OF assms(5)] unfolding log_told_def
    by (intro exI [of _ "ts @ [t]"]) (auto simp: list_all2_appendI)
qed

definition live_told :: "('pk, 'sk, 'v) server_env \<Rightarrow> 'p oidc_env \<Rightarrow> ('pk, 'p) live \<Rightarrow> bool" where
  "live_told env oe \<pi> \<longleftrightarrow> (\<forall>t. thread_told policy_ok env oe t \<pi>) \<and> log_told policy_ok env oe \<pi>"

text \<open>A step that changes no thread and logs nothing of a request.\<close>

lemma log_told_same_threads:
  assumes "log_told Q env oe \<pi>" and "lv_threads \<pi>' = lv_threads \<pi>"
    and "st_audit (lv_server \<pi>') = st_audit (lv_server \<pi>) @ es" and "\<forall>e \<in> set es. \<not> is_request_event e"
  shows "log_told Q env oe \<pi>'"
  by (rule log_told_quiet [OF assms(1) _ _ assms(3,4)]) (use assms(2) in \<open>simp_all add: answers_def\<close>)

lemma own_log_told:
  assumes inv: "live_inv (production_env lib m oe rnd clk) oe \<pi>"
    and log: "log_told Q (production_env lib m oe rnd clk) oe \<pi>"
    and told: "point_told Q (production_env lib m oe rnd clk) oe rq pt"
    and th: "lv_threads \<pi> t = Some (rq, pt)"
    and step: "go (production_env lib m oe rnd clk) oe t rq pt (lv_server \<pi>) = Some (pt', s')"
  shows "log_told Q (production_env lib m oe rnd clk) oe
    (\<pi>\<lparr>lv_server := s', lv_threads := (lv_threads \<pi>)(t \<mapsto> (rq, pt'))\<rparr>)" (is "log_told Q ?env oe ?\<pi>")
proof -
  let ?s = "lv_server \<pi>"
  have ok: "point_ok ?env oe rq pt" using inv th unfolding live_inv_defs by blast
  have "\<not> is_Answered pt" using step by (cases pt) auto
  then have none: "answers \<pi> t = None" using th by (cases pt) (simp_all add: answers_def)
  show ?thesis
  proof (cases "is_Answered pt'")
    case True
    then obtain resp where r: "pt' = Answered resp" by (cases pt') auto
    from go_tells [OF step [unfolded r] ok told] obtain e
      where "st_audit s' = st_audit ?s @ [e]" "tells Q ?env oe rq resp e" by blast
    with log_told_answer [OF log none, of ?\<pi> rq resp e] r show ?thesis by simp
  next
    case False
    then have "st_audit s' = st_audit ?s @ []" "(case pt' of Answered resp \<Rightarrow> Some resp | _ \<Rightarrow> None) = None"
      using go_audit [OF step ok] by (cases pt'; simp)+
    moreover have "answers ?\<pi> = answers \<pi>" using none calculation(2) by (auto simp: answers_put)
    moreover have "u \<noteq> t" if "lv_threads \<pi> u = Some (q, Answered resp)" for u q resp
      using that th \<open>\<not> is_Answered pt\<close> by auto
    ultimately show ?thesis by (intro log_told_quiet [OF log, of ?\<pi> "[]"]) simp_all
  qed
qed

lemma live_step_log_told:
  assumes "live_step (production_env lib m oe rnd clk) oe yaml path \<pi> ev \<pi>'"
    and "live_inv (production_env lib m oe rnd clk) oe \<pi>"
    and "\<forall>t. thread_told Q (production_env lib m oe rnd clk) oe t \<pi>"
    and log: "log_told Q (production_env lib m oe rnd clk) oe \<pi>"
  shows "log_told Q (production_env lib m oe rnd clk) oe \<pi>'" (is "log_told Q ?env oe _")
  using assms(1)
proof cases
  case (accept t rq)
  have "answers \<pi>' = answers \<pi>" using accept by (auto simp: answers_def)
  then show ?thesis
    by (rule log_told_quiet [OF log, of \<pi>' "[]"]) (use accept in auto)
next
  case (own t rq pt pt' s')
  with assms(3) have "point_told Q ?env oe rq pt" unfolding thread_told_def by blast
  from own_log_told [OF assms(2) log this own(4,5)] own show ?thesis by simp
next
  case (loop read l' s')
  obtain es where "st_audit s' = st_audit (lv_server \<pi>) @ es" "\<forall>e \<in> set es. \<not> is_request_event e"
    using loop_turn_server(3) [OF loop(4)] by blast
  with log_told_same_threads [OF log] loop(2) show ?thesis by simp
next
  case (stop_requested sig)
  then show ?thesis
    by (intro log_told_same_threads [OF log, of \<pi>' "[\<lparr>ev_level = LevelInfo, ev_msg = ''shutting down'',
        ev_attrs = [(''signal'', AttrString sig)]\<rparr>]"])
      (simp_all add: log_stop_def log_info_def log_event_def is_request_event_def EventIssued_def EventDenied_def)
qed (use log_told_same_threads [OF log, of \<pi>' "[]"] in simp_all)

lemma live_step_told:
  assumes "live_step (production_env lib m oe rnd clk) oe yaml path \<pi> ev \<pi>'"
    and inv: "live_inv (production_env lib m oe rnd clk) oe \<pi>"
    and "live_told (production_env lib m oe rnd clk) oe \<pi>"
  shows "live_told (production_env lib m oe rnd clk) oe \<pi>'"
proof -
  have pol: "policy_ok (st_policy (lv_server \<pi>))" using inv unfolding live_inv_def by blast
  from assms(3) live_step_thread_told [where Q = policy_ok, OF assms(1) inv pol] live_step_log_told [OF assms(1) inv]
  show ?thesis unfolding live_told_def by blast
qed

lemma live_init_told: "request_events s = [] \<Longrightarrow> live_told env oe (live_init s)"
  by (auto simp: live_told_def thread_told_def log_told_def live_init_def New_def answers_def request_events_def)

lemma live_steps_told:
  assumes "steps (live_step (production_env lib m oe rnd clk) oe yaml path) \<pi> evs \<pi>'"
    and "live_inv (production_env lib m oe rnd clk) oe \<pi>" and "live_told (production_env lib m oe rnd clk) oe \<pi>"
  shows "live_told (production_env lib m oe rnd clk) oe \<pi>'"
  using assms by (induction rule: steps.induct) (auto dest: live_step_inv live_step_told)

end
