(* ===== verification/AuditClaims.thy ===== *)
theory AuditClaims
  imports ConcurrentClaims ConcurrentAudit
begin

text \<open>
  What the answers of the concurrent process and their audit events rest on: the whole log is
  true, and requests that come after a change of the policy are decided under the new one.
\<close>

section \<open>The log\<close>

lemma startup_live_told:
  assumes "cmdServe_start lib sys read yaml fl = Inr (m, s)"
    and "steps (live_step (production_env lib m oe rnd clk) oe yaml path) (live_init s) evs \<pi>"
  shows "live_told (production_env lib m oe rnd clk) oe \<pi>"
  by (rule live_steps_told [OF assms(2) startup_live_inv [OF assms(1) steps_none]])
    (rule live_init_told [OF startup_log_quiet [OF assms(1)]])

text \<open>C9: The audit log tells the truth at every moment, under every interleaving: its request
  events and the answers match one to one; the event of a certificate carries its request id and
  describes the certificate that was sent, with the identity and the rule of a valid policy that
  it was issued for; the event of any other answer names a cause that was there under a
  valid policy, and that calls for the status that was sent.\<close>

theorem audit_log_is_truthful:
  assumes "cmdServe_start lib sys read yaml fl = Inr (m, s)"
    and "steps (live_step (production_env lib m oe rnd clk) oe yaml (flg_config fl)) (live_init s) evs \<pi>"
  shows "\<exists>ts. distinct ts \<and> set ts = dom (answers \<pi>)
    \<and> list_all2 (\<lambda>t e. \<exists>rq resp. lv_threads \<pi> t = Some (rq, Answered resp) \<and> event_for resp e
          \<and> (if rsp_Status resp = 200
             then \<exists>pol i r cert. policy_ok pol \<and> grounds (production_env lib m oe rnd clk) oe pol rq i r cert
               \<and> rsp_Body resp = lib_MarshalCert lib cert \<and> describes lib pol i r cert (attr e)
             else \<exists>pol reason d. policy_ok pol
               \<and> denial_due (production_env lib m oe rnd clk) oe pol rq (rsp_Status resp) reason d
               \<and> attr e ''reason'' = Some (AttrString reason) \<and> attr e ''detail'' = Some (AttrDetail d)))
        ts (filter is_request_event (st_audit (lv_server \<pi>)))"
  using startup_live_told [OF assms]
  unfolding live_told_def log_told_def tells_def answer_told_def issued_told_def denied_told_def production_env_simps(1)
  by (rule conjunct2)

lemma one_matched:
  assumes "\<exists>ts. distinct ts \<and> set ts = T \<and> list_all2 P ts es" and "T = {x}"
  shows "\<exists>e. es = [e] \<and> P x e"
proof -
  obtain ts where ts: "distinct ts" "set ts = {x}" "list_all2 P ts es" using assms by blast
  then have "ts = [x]" by (cases ts) (auto simp: subset_singleton_iff)
  with ts(3) show ?thesis by (auto simp: list_all2_Cons1)
qed

lemma audit_log_is_truthful_demo:
  "\<exists>(\<pi> :: (string, string) live) resp e pol i r cert. lv_threads \<pi> 0 = Some (demo_request, Answered resp)
     \<and> filter is_request_event (st_audit (lv_server \<pi>)) = [e] \<and> event_for resp e
     \<and> rsp_Body resp = lib_MarshalCert demo_lib cert \<and> describes demo_lib pol i r cert (attr e)"
proof -
  obtain l evs \<pi> resp
    where st: "cmdServe_start demo_lib demo_os demo_read demo_yaml demo_flags
        = Inr (NewMemorySigner ''ca'', New demo_policy NewRemoteVerifier l :: string verifier_state server_state)"
      and run: "steps (live_step demo_env demo_oidc demo_yaml (flg_config demo_flags)) (demo_live l) evs \<pi>"
      and th: "lv_threads \<pi> = [0 \<mapsto> (demo_request, Answered resp)]" and ok: "rsp_Status resp = 200"
    by (rule demo_live_run)
  have "answers \<pi> = [0 \<mapsto> resp]" using th by (auto simp: answers_def)
  then have "dom (answers \<pi>) = {0}" by simp
  from one_matched [OF audit_log_is_truthful [OF st run [unfolded demo_env_def demo_live_def]] this]
  have "\<exists>e. filter is_request_event (st_audit (lv_server \<pi>)) = [e] \<and> event_for resp e
      \<and> (\<exists>pol i r cert. rsp_Body resp = lib_MarshalCert demo_lib cert \<and> describes demo_lib pol i r cert (attr e))"
    by (elim exE conjE) (use th ok in \<open>simp; blast\<close>)
  moreover have "lv_threads \<pi> 0 = Some (demo_request, Answered resp)" using th by simp
  ultimately show ?thesis by blast
qed

section \<open>Policy changes\<close>

lemma live_steps_thread_told:
  assumes "steps (live_step (production_env lib m oe rnd clk) oe yaml path) \<pi> evs \<pi>'"
    and "live_inv (production_env lib m oe rnd clk) oe \<pi>" and "live_keeps Q \<pi>"
    and "\<forall>ev \<in> set evs. reads_keep Q yaml path ev"
    and "thread_told (\<lambda>p. policy_ok p \<and> Q p) (production_env lib m oe rnd clk) oe t \<pi>"
  shows "thread_told (\<lambda>p. policy_ok p \<and> Q p) (production_env lib m oe rnd clk) oe t \<pi>'"
  using assms
proof (induction rule: steps.induct)
  case (steps_more \<pi> ev \<pi>1 evs \<pi>2)
  let ?env = "production_env lib m oe rnd clk"
  have pol: "policy_ok (st_policy (lv_server \<pi>)) \<and> Q (st_policy (lv_server \<pi>))"
    using steps_more.prems(1,2) unfolding live_inv_def live_keeps_def by blast
  show ?case
  proof (rule steps_more.IH)
    show "live_inv ?env oe \<pi>1" using live_step_inv [OF steps_more.hyps(1) steps_more.prems(1)] .
    show "live_keeps Q \<pi>1" using live_step_keeps [OF steps_more.hyps(1) steps_more.prems(2)] steps_more.prems(3) by simp
    show "thread_told (\<lambda>p. policy_ok p \<and> Q p) ?env oe t \<pi>1"
      using live_step_thread_told [where Q = "\<lambda>p. policy_ok p \<and> Q p", OF steps_more.hyps(1) steps_more.prems(1) pol steps_more.prems(4)] .
  qed (use steps_more.prems(3) in simp)
qed simp

text \<open>C32: A change of the policy takes effect: whatever holds of the active policy, and of every
  policy that the reload loop goes on to store, holds of the policy by which each later request
  is decided.  Its certificate is justified by such a policy, and its denial is one that such a
  policy calls for, also when reads of the file fail and whatever else is in flight.\<close>

theorem policy_change_takes_effect:
  assumes "cmdServe_start lib sys read yaml fl = Inr (m, s)"
    and "steps (live_step (production_env lib m oe rnd clk) oe yaml (flg_config fl)) (live_init s) evs0 \<pi>"
    and "Q (ActivePolicy (lv_server \<pi>))" and "loop_keeps Q (hl_point (lv_loop \<pi>))"
    and "steps (live_step (production_env lib m oe rnd clk) oe yaml (flg_config fl)) \<pi> evs \<pi>'"
    and "\<forall>ev \<in> set evs. reads_keep Q yaml (flg_config fl) ev"
    and "lv_threads \<pi> t = None \<or> lv_threads \<pi> t = Some (rq, Entered) \<or> lv_threads \<pi> t = Some (rq, Named rid)"
    and "lv_threads \<pi>' t = Some (rq', Answered resp)"
  shows "if rsp_Status resp = 200
    then \<exists>pol cert. policy_ok pol \<and> Q pol \<and> justified (production_env lib m oe rnd clk) (authentic oe) pol rq' cert
      \<and> safe_cert cert \<and> rsp_Body resp = lib_MarshalCert lib cert
    else \<exists>pol reason d. policy_ok pol \<and> Q pol
      \<and> denial_due (production_env lib m oe rnd clk) oe pol rq' (rsp_Status resp) reason d"
proof -
  let ?env = "production_env lib m oe rnd clk" and ?Q = "\<lambda>p. policy_ok p \<and> Q p"
  have "live_keeps Q \<pi>" using assms(3,4) by (simp add: live_keeps_def ActivePolicy_def)
  moreover have "thread_told ?Q ?env oe t \<pi>" using assms(7) by (auto simp: thread_told_def)
  ultimately have "thread_told ?Q ?env oe t \<pi>'"
    using live_steps_thread_told [where Q = Q, OF assms(5) startup_live_inv [OF assms(1,2)] _ assms(6)] by blast
  with assms(8) obtain A where "answer_told ?Q ?env oe rq' resp A" unfolding thread_told_def by fastforce
  then show ?thesis
    using grounds_justified [of ?env oe _ rq'] justified_safe [of _ ?env "authentic oe" rq']
    unfolding answer_told_def issued_told_def denied_told_def production_env_simps(1)
    by (simp split: if_splits) blast+
qed

text \<open>The operator replaces the file by a disabled policy and signals; the next request is refused.\<close>

lemma policy_change_takes_effect_demo:
  "\<exists>(\<pi> :: (string, string) live) resp. lv_threads \<pi> 0 = Some (demo_request, Answered resp)
     \<and> rsp_Status resp \<noteq> 200 \<and> ActivePolicy (lv_server \<pi>) \<noteq> demo_policy"
proof -
  let ?path = "flg_config demo_flags" and ?read = "\<lambda>_. demo_read ''stop.yaml''"
  define p where "p = demo_policy\<lparr>pol_Disabled := True\<rparr>"
  obtain l where st: "cmdServe_start demo_lib demo_os demo_read demo_yaml demo_flags
      = Inr (NewMemorySigner ''ca'', New demo_policy NewRemoteVerifier l :: string verifier_state server_state)"
    using demo_start by blast
  have "policy_ok p" using demo_policy_ok by (simp add: policy_ok_disabled p_def)
  then have load: "Load ?read demo_yaml ?path = Inr p" by (simp add: Load_iff demo_read_def demo_yaml_def p_def)
  obtain d where d: "check_request demo_lib p ''POST'' demo_body = Inl d"
    using check_request_disabled [of p demo_lib "''POST''" demo_body] by (auto simp: p_def)
  define \<pi> where "\<pi> = (demo_live l)\<lparr>lv_loop := \<lparr>hl_pending = False, hl_point = LogReloaded p\<rparr>,
    lv_server := SetPolicy p (lv_server (demo_live l))\<rparr>"
  have \<pi>: "live_run demo_env demo_oidc demo_yaml ?path
      [Sighup, LoopStep ?read, LoopStep ?read, LoopStep ?read] (demo_live l) = Some \<pi>"
    by (simp add: \<pi>_def demo_live_def live_init_def loop_init_def notify_def loop_turn_def load)
  have now: "ActivePolicy (lv_server \<pi>) = p" "loop_keeps pol_Disabled (hl_point (lv_loop \<pi>))" "live_running \<pi>"
    "lv_threads \<pi> 0 = None" "pol_Disabled p"
    by (simp_all add: \<pi>_def p_def SetPolicy_def ActivePolicy_def demo_live_def live_init_def live_running_def)
  obtain \<pi>' resp where \<pi>': "live_run demo_env demo_oidc demo_yaml ?path [Accept 0 demo_request, Go 0, Go 0, Go 0] \<pi>
      = Some \<pi>'" and th: "lv_threads \<pi>' 0 = Some (demo_request, Answered resp)"
      and active: "ActivePolicy (lv_server \<pi>') = p"
    using d by (simp add: \<pi>_def demo_live_def live_init_def New_def newRequestID_def deny_def demo_request_def
        demo_env_def Let_def SetPolicy_def ActivePolicy_def)
  have start: "live_running (demo_live l)" by (simp add: demo_live_def live_init_def live_running_def)
  note run = conjunct1 [OF live_run_steps [OF \<pi> start]] conjunct1 [OF live_run_steps [OF \<pi>' now(3)]]
  from policy_change_takes_effect [OF st run(1) [unfolded demo_env_def demo_live_def], of pol_Disabled
      _ _ 0 demo_request "[]" demo_request resp, OF _ now(2) run(2) [unfolded demo_env_def]] now th
  have "rsp_Status resp \<noteq> 200" by (auto simp: reads_keep_def justified_def granted_def)
  moreover have "p \<noteq> demo_policy" by (simp add: p_def demo_policy_defs)
  ultimately show ?thesis using th active by blast
qed

end
