(* ===== verification/CliClaims.thy ===== *)
theory CliClaims
  imports Demo
begin

text \<open>
  The properties of the commands \<open>check-config\<close> and \<open>explain\<close>: they tell the operator what
  the server will do.
\<close>

lemma explain_report_granted:
  "KeyIDLine keyID \<in> set (explain_report pol i) \<longleftrightarrow> (\<exists>r. granted pol i r keyID)"
proof (cases "\<not> pol_Disabled pol \<and> (\<exists>r. filter (candidate i) (pol_Rules pol) = [r])")
  case True
  then obtain r where "\<not> pol_Disabled pol" "filter (candidate i) (pol_Rules pol) = [r]" by blast
  then show ?thesis by (simp add: explain_report_allowed KeyIDLine_allowed granted_def)
next
  case False
  then have no: "\<not> granted pol i r keyID" for r by (auto simp: granted_def)
  have "\<not> dec_Allowed (Evaluate pol i)" if "\<not> pol_Disabled pol"
    using False that Evaluate_allowed_rule [of pol i] Evaluate_rule_iff [of pol i] by blast
  then show ?thesis using no no_KeyIDLine_rules by (auto simp: explain_report_def Let_def)
qed

text \<open>C36: \<open>explain\<close> prints a Key ID exactly when both files load and the server, under that
  policy, would grant an identity with those claims a certificate with that Key ID.\<close>

theorem explain_agrees_with_server:
  "(\<exists>ls. cmdExplain read yaml [''--policy'', policyPath, ''--claims'', claimsPath] = Inr ls
       \<and> KeyIDLine keyID \<in> set ls) \<longleftrightarrow>
     policyPath \<noteq> [] \<and> claimsPath \<noteq> []
     \<and> (\<exists>pol i r. Load read yaml policyPath = Inr pol \<and> loadIdentity read claimsPath = Inr i
          \<and> authorize pol i ca = Inr (r, keyID) \<and> \<not> pol_Disabled pol)"
proof -
  have "granted pol i r keyID \<longleftrightarrow> authorize pol i ca = Inr (r, keyID) \<and> \<not> pol_Disabled pol" for pol i r
    using authorize_iff [of pol i ca r keyID] by (auto simp: granted_def)
  then show ?thesis
    by (auto simp: cmdExplain_args explain_files_def rbind_Inr_iff wrap_err_iff explain_report_granted)
qed

text \<open>When no rule matches, \<open>explain\<close> gives a reason for every rule, in the order of the
  policy.\<close>

theorem explain_gives_every_reason:
  assumes "dec_Reason (Evaluate pol i) = Some ReasonNoRuleMatched"
  shows "\<exists>why. explain_report pol i = DenyNone # map (\<lambda>r. RuleReason (rule_Name r) (why r)) (pol_Rules pol)
    \<and> (\<forall>r \<in> set (pol_Rules pol). ExplainRule r i = Some (why r))"
proof -
  have en: "\<not> pol_Disabled pol" and none: "filter (candidate i) (pol_Rules pol) = []"
    using assms by (auto simp: Evaluate_reason split: if_splits)
  have na: "\<not> dec_Allowed (Evaluate pol i)" using assms by (simp add: Evaluate_allowed_iff_reason)
  define why where "why r = the (ExplainRule r i)" for r
  have ex: "ExplainRule r i = Some (why r)" if "r \<in> set (pol_Rules pol)" for r
    using none that ExplainRule_None_iff [of r i] by (auto simp: why_def filter_empty_conv)
  have "concat (map (\<lambda>r. case ExplainRule r i of None \<Rightarrow> [] | Some w \<Rightarrow> [RuleReason (rule_Name r) w]) rs)
      = map (\<lambda>r. RuleReason (rule_Name r) (why r)) rs" if "set rs \<subseteq> set (pol_Rules pol)" for rs
    using that ex by (induction rs) auto
  from this [OF order.refl] have "explain_rules pol i = map (\<lambda>r. RuleReason (rule_Name r) (why r)) (pol_Rules pol)"
    unfolding explain_rules_def .
  with en na assms ex show ?thesis
    by (intro exI [of _ why]) (simp add: explain_report_def Let_def)
qed

lemma explain_gives_every_reason_demo:
  "explain_report demo_policy (demo_identity\<lparr>id_Issuer := ''j''\<rparr>)
     = [DenyNone, RuleReason ''deploy'' (IssuerMismatch ''i'' ''j'')]"
proof -
  let ?i = "demo_identity\<lparr>id_Issuer := ''j''\<rparr>"
  have e: "ExplainRule demo_rule ?i = Some (IssuerMismatch ''i'' ''j'')"
    by (simp add: ExplainRule_def demo_rule_def demo_match_def IsEnabled_def)
  then have "\<not> candidate ?i demo_rule" using ExplainRule_None_iff [of demo_rule ?i] by simp
  then have "dec_Reason (Evaluate demo_policy ?i) = Some ReasonNoRuleMatched"
    by (simp add: Evaluate_reason demo_policy_def)
  from explain_gives_every_reason [OF this] e show ?thesis
    by (auto simp: demo_policy_def demo_rule_def)
qed

section \<open>Command lines and exit statuses\<close>

text \<open>C38: The command line determines the flags and nothing is lost in between: the
  arguments written out for any flag values, whatever characters the values have, run
  \<open>serve\<close> and \<open>print-ca-pub\<close> with exactly those values.\<close>

theorem command_line_roundtrip:
  "cmdServe lib sys read yaml (serve_args fl) = wrap_err CommandFailed (cmdServe_start lib sys read yaml fl)
   \<and> cmdPrintCAPub lib sys (key_args fl) = wrap_err CommandFailed
        (print_ca_pub lib sys (flg_ca_key_file fl) (flg_skip_key_permission_check fl))"
  using cmdServe_args cmdPrintCAPub_args by blast

lemma check_config_outcome:
  "cmdCheckConfig read yaml [path] = Some (case Load read yaml path of Inl e \<Rightarrow> Inl (CheckLoad e)
     | Inr pol \<Rightarrow> Inr (the (map_option (\<lambda>ws.
            [PolicyOK (length (pol_Rules pol)), DisabledLine (pol_Disabled pol),
              OffsetLine (ValidAfterOffsetSeconds pol), MaxLine (MaxValidForSeconds pol),
              KeyTypesLine (AllowedPublicKeyTypes pol)]
             @ map (rule_line pol) (pol_Rules pol) @ map WarningLine ws) (rules_warnings pol (pol_Rules pol)))))"
proof (cases "Load read yaml path")
  case (Inl e)
  then show ?thesis by (simp add: cmdCheckConfig_def)
next
  case (Inr pol)
  obtain ws where "rules_warnings pol (pol_Rules pol) = Some ws"
    using rules_warnings_ok [of "pol_Rules pol" pol] rule_warnings_ok [OF Load_policy_ok [OF Inr]] by blast
  with Inr show ?thesis by (simp add: cmdCheckConfig_def)
qed

text \<open>On one argument \<open>check-config\<close> never panics.\<close>

lemma check_config_total:
  "cmdCheckConfig read yaml [path] \<noteq> None
   \<and> ((\<exists>ls. cmdCheckConfig read yaml [path] = Some (Inr ls)) \<longleftrightarrow> (\<exists>pol. Load read yaml path = Inr pol))"
  by (cases "Load read yaml path") (simp_all add: check_config_outcome)

lemma main_commands [simp]:
  "main_command ''serve'' = Some CmdServe" "main_command ''check-config'' = Some CmdCheckConfig"
  "main_command ''explain'' = Some CmdExplain" "main_command ''print-ca-pub'' = Some CmdPrintCAPub"
  by (simp_all add: main_command_def)

text \<open>The status of a command with flags: 0 for a request for help, 2 for flags that are not
  understood, and otherwise 0 or 1 by what the command does with the values.\<close>

definition flag_status :: "(flag_error, flag_values \<times> string list) result \<Rightarrow> (flag_values \<Rightarrow> bool) \<Rightarrow> nat" where
  "flag_status parsed succeeds =
     (case parsed of
        Inl e \<Rightarrow> if e = HelpRequested then 0 else 2
      | Inr (v, rest) \<Rightarrow> if succeeds v then 0 else 1)"

fun end_status :: "command_end \<Rightarrow> nat" where
  "end_status ReturnedNil = 0"
| "end_status ReturnedError = 1"
| "end_status (ProcessExit n) = n"

lemma main_status:
  assumes "main_command c = Some cmd" and "cmd \<noteq> CmdVersion" and "cmd \<noteq> CmdHelp"
  shows "snd (main run (prog # c # args)) = end_status (run cmd args)"
  using assms by (cases cmd) (auto simp: main_def split: command_end.split)

lemma flag_exit_status: "flag_exit e = (if e = HelpRequested then 0 else 2)"
  by (cases e) simp_all

lemma ends_with_status:
  assumes "\<And>v x. k v = Inr x \<Longrightarrow> end_status (f x) = (if good v then 0 else 1)"
    and "\<And>v e. k v = Inl e \<Longrightarrow> \<not> good v"
  shows "end_status (ends_with (with_flags formal defaults args k) f)
    = flag_status (parse_flags formal args defaults) good"
proof (cases "parse_flags formal args defaults")
  case (Inl e)
  then show ?thesis by (simp add: with_flags_def flag_status_def flag_exit_status)
next
  case (Inr vr)
  obtain v rest where vr: "vr = (v, rest)" by (cases vr)
  with Inr assms show ?thesis
    by (cases "k v") (simp_all add: with_flags_def flag_status_def wrap_err_def)
qed

lemma explain_files_ok:
  "(\<exists>ls. explain_files read yaml p c = Inr ls) \<longleftrightarrow>
     p \<noteq> [] \<and> c \<noteq> [] \<and> (\<exists>pol. Load read yaml p = Inr pol) \<and> (\<exists>i. loadIdentity read c = Inr i)"
  by (auto simp: explain_files_def rbind_Inr_iff wrap_err_iff)

lemma print_ca_pub_ok:
  "(\<exists>out. print_ca_pub lib sys path skip = Inr out) \<longleftrightarrow> (\<exists>m. fst (LoadCAKey lib sys path skip) = Inr m)"
  by (auto simp: print_ca_pub_def rbind_Inr_iff)

text \<open>C37: The exit status of the process, for every command line.  Without a command, or with an
  unknown one, it is 2, after the usage text; the spellings of \<open>version\<close> and of \<open>help\<close> print
  and give 0.  \<open>check-config\<close> gives 0 exactly for one argument that names a file which \<open>serve\<close>
  would load, and 1 otherwise: it never panics.  For the other three commands a request for
  help gives 0 and a bad flag 2; then \<open>serve\<close> gives 0 exactly when it started and its process
  returned without an error, \<open>explain\<close> exactly when both of its files are named and load,
  \<open>print-ca-pub\<close> exactly when the CA key loads, and otherwise 1.\<close>

theorem exit_status:
  fixes served :: "'sk memorySigner \<Rightarrow> 'p verifier_state server_state \<Rightarrow> exit_error option"
  shows "let run = run_command lib sys read yaml served in
   (length argv < 2 \<longrightarrow> main run argv = ([UsageText], 2))
   \<and> (main_command c = None \<longrightarrow> main run (prog # c # args) = ([UnknownCommand c, UsageText], 2))
   \<and> (c \<in> {''version'', ''--version'', ''-v'', ''-V''} \<longrightarrow> main run (prog # c # args) = ([VersionText version], 0))
   \<and> (c \<in> {''help'', ''--help'', ''-h''} \<longrightarrow> main run (prog # c # args) = ([UsageText], 0))
   \<and> snd (main run (prog # ''check-config'' # args))
      = (if \<exists>path pol. args = [path] \<and> Load read yaml path = Inr pol then 0 else 1)
   \<and> snd (main run (prog # ''serve'' # args)) = flag_status (parse_flags serve_flag_set args serve_defaults)
        (\<lambda>v. \<exists>m s. cmdServe_start lib sys read yaml (serve_flags_of v) = Inr (m, s) \<and> served m s = None)
   \<and> snd (main run (prog # ''explain'' # args)) = flag_status (parse_flags explain_flag_set args no_values)
        (\<lambda>v. fv_string v ''policy'' \<noteq> [] \<and> fv_string v ''claims'' \<noteq> []
           \<and> (\<exists>pol. Load read yaml (fv_string v ''policy'') = Inr pol)
           \<and> (\<exists>i. loadIdentity read (fv_string v ''claims'') = Inr i))
   \<and> snd (main run (prog # ''print-ca-pub'' # args)) = flag_status (parse_flags print_flag_set args no_values)
        (\<lambda>v. \<exists>m. fst (LoadCAKey lib sys (fv_string v ''ca-key-file'') (fv_bool v ''skip-key-permission-check'')) = Inr m)"
  unfolding Let_def
proof (intro conjI impI)
  let ?run = "run_command lib sys read yaml served"
  show "snd (main ?run (prog # ''check-config'' # args))
      = (if \<exists>path pol. args = [path] \<and> Load read yaml path = Inr pol then 0 else 1)"
  proof (cases "\<exists>path. args = [path]")
    case True
    then obtain path where "args = [path]" by blast
    then show ?thesis
      by (cases "Load read yaml path") (simp_all add: main_status check_config_outcome)
  next
    case False
    then have "length args \<noteq> 1" by (cases args) auto
    then have "cmdCheckConfig read yaml args = Some (Inl CheckUsage)" by (simp add: cmdCheckConfig_def)
    with False show ?thesis by (simp add: main_status)
  qed
  show "snd (main ?run (prog # ''serve'' # args)) = flag_status (parse_flags serve_flag_set args serve_defaults)
      (\<lambda>v. \<exists>m s. cmdServe_start lib sys read yaml (serve_flags_of v) = Inr (m, s) \<and> served m s = None)"
    by (simp add: main_status cmdServe_def)
      (rule ends_with_status, auto split: option.split)
  show "snd (main ?run (prog # ''explain'' # args)) = flag_status (parse_flags explain_flag_set args no_values)
      (\<lambda>v. fv_string v ''policy'' \<noteq> [] \<and> fv_string v ''claims'' \<noteq> []
         \<and> (\<exists>pol. Load read yaml (fv_string v ''policy'') = Inr pol)
         \<and> (\<exists>i. loadIdentity read (fv_string v ''claims'') = Inr i))"
    unfolding explain_files_ok [symmetric]
    by (simp add: main_status cmdExplain_def) (rule ends_with_status, auto)
  show "snd (main ?run (prog # ''print-ca-pub'' # args)) = flag_status (parse_flags print_flag_set args no_values)
      (\<lambda>v. \<exists>m. fst (LoadCAKey lib sys (fv_string v ''ca-key-file'') (fv_bool v ''skip-key-permission-check'')) = Inr m)"
    unfolding print_ca_pub_ok [symmetric]
    by (simp add: main_status cmdPrintCAPub_def) (rule ends_with_status, auto)
  show "main ?run argv = ([UsageText], 2)" if "length argv < 2" using that by (simp add: main_def)
  show "main ?run (prog # c # args) = ([UnknownCommand c, UsageText], 2)" if "main_command c = None"
    using that by (simp add: main_def)
  show "main ?run (prog # c # args) = ([VersionText version], 0)" if "c \<in> {''version'', ''--version'', ''-v'', ''-V''}"
    using that by (auto simp: main_def main_command_def simp del: list.set)
  show "main ?run (prog # c # args) = ([UsageText], 0)" if "c \<in> {''help'', ''--help'', ''-h''}"
    using that by (auto simp: main_def main_command_def simp del: list.set)
qed

lemma exit_status_demo:
  "let run = run_command demo_lib demo_os demo_read demo_yaml
      (\<lambda>m (s :: string verifier_state server_state). None) in
    main run [''oidc-ssh-ca''] = ([UsageText], 2)
    \<and> main run [''oidc-ssh-ca'', ''sign''] = ([UnknownCommand ''sign'', UsageText], 2)
    \<and> main run [''oidc-ssh-ca'', ''-V''] = ([VersionText version], 0)
    \<and> main run [''oidc-ssh-ca'', ''--help''] = ([UsageText], 0)
    \<and> snd (main run [''oidc-ssh-ca'', ''check-config'', ''policy.yaml'']) = 0
    \<and> snd (main run [''oidc-ssh-ca'', ''check-config'']) = 1
    \<and> snd (main run (''oidc-ssh-ca'' # ''serve'' # serve_args demo_flags)) = 0
    \<and> snd (main run [''oidc-ssh-ca'', ''explain'', ''--polcy'']) = 2
    \<and> snd (main run [''oidc-ssh-ca'', ''explain'']) = 1
    \<and> snd (main run [''oidc-ssh-ca'', ''print-ca-pub'', ''-h'']) = 0"
proof -
  let ?run = "run_command demo_lib demo_os demo_read demo_yaml
      (\<lambda>m (s :: string verifier_state server_state). None)"
  note e = exit_status [of demo_lib demo_os demo_read demo_yaml
      "\<lambda>m (s :: string verifier_state server_state). None", unfolded Let_def]
  note status = e [THEN conjunct2, THEN conjunct2, THEN conjunct2, THEN conjunct2]
  have "main_command ''sign'' = None" by (simp add: main_command_def)
  then have "main ?run [''oidc-ssh-ca'', ''sign''] = ([UnknownCommand ''sign'', UsageText], 2)"
    by (rule e [THEN conjunct2, THEN conjunct1, rule_format])
  moreover have "main ?run [''oidc-ssh-ca''] = ([UsageText], 2)"
    by (rule e [THEN conjunct1, rule_format]) simp
  moreover have "main ?run [''oidc-ssh-ca'', ''-V''] = ([VersionText version], 0)"
    by (rule e [THEN conjunct2, THEN conjunct2, THEN conjunct1, rule_format]) simp
  moreover have "main ?run [''oidc-ssh-ca'', ''--help''] = ([UsageText], 0)"
    by (rule e [THEN conjunct2, THEN conjunct2, THEN conjunct2, THEN conjunct1, rule_format]) simp
  moreover have "snd (main ?run [''oidc-ssh-ca'', ''check-config'', ''policy.yaml'']) = 0"
    by (subst status [THEN conjunct1]) (use demo_load in simp)
  moreover have "snd (main ?run [''oidc-ssh-ca'', ''check-config'']) = 1"
    by (subst status [THEN conjunct1]) simp
  moreover have "snd (main ?run (''oidc-ssh-ca'' # ''serve'' # serve_args demo_flags)) = 0"
    using serve_args_parsed [of demo_flags] demo_start
    by (subst status [THEN conjunct2, THEN conjunct1]) (auto simp: flag_status_def)
  moreover have "snd (main ?run [''oidc-ssh-ca'', ''explain'', ''--polcy'']) = 2"
    by (subst status [THEN conjunct2, THEN conjunct2, THEN conjunct1])
      (simp add: flag_status_def explain_flag_set_def cut_value_def)
  moreover have "snd (main ?run [''oidc-ssh-ca'', ''explain'']) = 1"
    by (subst status [THEN conjunct2, THEN conjunct2, THEN conjunct1]) (simp add: flag_status_def no_values_def)
  moreover have "snd (main ?run [''oidc-ssh-ca'', ''print-ca-pub'', ''-h'']) = 0"
    by (subst status [THEN conjunct2, THEN conjunct2, THEN conjunct2])
      (simp add: flag_status_def print_flag_set_def cut_value_def)
  ultimately show ?thesis unfolding Let_def by blast
qed

text \<open>The two kinds of warning about a rule with match block \<open>m\<close>.\<close>

definition warned :: "Policy \<Rightarrow> warning \<Rightarrow> Rule \<Rightarrow> JWTMatch \<Rightarrow> bool" where
  "warned pol w r m \<longleftrightarrow>
     (\<exists>v. w = UnknownClaim (rule_Name r) v \<and> v \<in> set (var_names (KeyIDTemplateFor pol r))
        \<and> v \<notin> set knownGitHubClaims)
     \<or> w = Unrestricted (rule_Name r) \<and> jwt_ClaimsExact m = [] \<and> jwt_Owner m = [] \<and> jwt_RepoName m = []"

text \<open>C39: The warnings are the template variables outside the list of GitHub's claims, and
  the rules without owner, repository and exact claims.\<close>

theorem check_config_warnings:
  assumes "Load read yaml path = Inr pol" and "cmdCheckConfig read yaml [path] = Some (Inr ls)"
  shows "WarningLine w \<in> set ls \<longleftrightarrow>
    (\<exists>r m. r \<in> set (pol_Rules pol) \<and> match_JWT (rule_Match r) = Some m \<and> warned pol w r m)"
proof -
  have ok: "policy_ok pol" using Load_policy_ok [OF assms(1)] .
  obtain ws where ws: "rules_warnings pol (pol_Rules pol) = Some ws"
    "set ws = (\<Union>r \<in> set (pol_Rules pol). set (the (rule_warnings pol r)))"
    using rules_warnings_ok [of "pol_Rules pol" pol] rule_warnings_ok [OF ok] by blast
  have "WarningLine w \<in> set ls \<longleftrightarrow> w \<in> set ws"
  proof -
    have "ls = [PolicyOK (length (pol_Rules pol)), DisabledLine (pol_Disabled pol),
              OffsetLine (ValidAfterOffsetSeconds pol), MaxLine (MaxValidForSeconds pol),
              KeyTypesLine (AllowedPublicKeyTypes pol)] @ map (rule_line pol) (pol_Rules pol) @ map WarningLine ws"
      using assms ws(1) by (simp add: cmdCheckConfig_def)
    moreover have "WarningLine w \<noteq> rule_line pol r" for r by (simp add: rule_line_def)
    ultimately show ?thesis by auto
  qed
  moreover have "w \<in> set (the (rule_warnings pol r)) \<longleftrightarrow>
      (\<exists>m. match_JWT (rule_Match r) = Some m \<and> warned pol w r m)"
    if r: "r \<in> set (pol_Rules pol)" for r
  proof -
    have t: "w \<in> set (template_warnings pol r) \<longleftrightarrow> (\<exists>v. w = UnknownClaim (rule_Name r) v
        \<and> v \<in> set (var_names (KeyIDTemplateFor pol r)) \<and> v \<notin> set knownGitHubClaims)"
    proof (cases w)
      case (UnknownClaim n v)
      then show ?thesis using template_warnings_iff [OF ok r, of n v] by auto
    next
      case (Unrestricted n)
      then show ?thesis by (auto simp: template_warnings_def Let_def)
    qed
    obtain m where "match_JWT (rule_Match r) = Some m"
      using policy_ok_rule [OF ok r] by (auto simp: rule_ok_def)
    with t show ?thesis by (simp add: rule_warnings_def warned_def)
  qed
  ultimately show ?thesis using ws(2) by blast
qed

lemma check_config_warnings_demo:
  "\<exists>ls. cmdCheckConfig demo_read demo_yaml [''policy.yaml''] = Some (Inr ls)
     \<and> WarningLine (Unrestricted ''deploy'') \<notin> set ls"
proof -
  obtain ls where ls: "cmdCheckConfig demo_read demo_yaml [''policy.yaml''] = Some (Inr ls)"
    using demo_load rules_warnings_ok [of "pol_Rules demo_policy" demo_policy]
      rule_warnings_ok [OF demo_policy_ok] by (fastforce simp: cmdCheckConfig_def)
  from check_config_warnings [OF demo_load this, of "Unrestricted ''deploy''"] ls show ?thesis
    by (auto simp: demo_policy_def demo_rule_def demo_match_def warned_def)
qed

end
