(* ===== verification/Findings.thy ===== *)
theory Findings
  imports Demo
begin

text \<open>
  Places where the code does something other than what its comments, its documentation or its
  purpose say, each as a fact about the model.
\<close>

section \<open>Dates that wrap\<close>

text \<open>A \<open>nbf\<close> at the end of the range of an \<open>int64\<close>, some 292 billion years away, wraps in
  \<open>time.Unix\<close> to a time long past, and the token is accepted today.\<close>

definition far_claims :: claims where
  "far_claims = [''exp'' \<mapsto> AFloat (Float 1000 0), ''nbf'' \<mapsto> AFloat (Float 9007199254740991 10)]"

lemma far_nbf: "claim_seconds oob far_claims ''nbf'' = Some 9223372036854774784"
  by (simp add: claim_seconds_def far_claims_def float_to_int64_def trunc_float_def)

lemma far_future_nbf_accepted: "checkTimeClaims oob far_claims demo_now = Inr ()"
proof -
  have "numericClaim oob far_claims ''exp'' = Some (time_Unix 1000)"
    "numericClaim oob far_claims ''nbf'' = Some (time_Unix 9223372036854774784)"
    "numericClaim oob far_claims ''iat'' = None"
    by (simp_all add: numericClaim_def far_claims_def float_to_int64_def trunc_float_def)
  then show ?thesis
    by (simp add: checkTimeClaims_def After_def Before_def Add_def Let_def carry_ns_def add_sec_def demo_now_def
        time_Unix_def unixToInternal_def ns_per_s_def ClockSkewLeeway_def signed_divide_int_def
        signed_modulo_int_def)
qed

section \<open>A body cut off by a read error\<close>

text \<open>What was read before the error is used as if it were the body.\<close>

lemma read_error_of_body_ignored:
  "handleSign env s (rq\<lparr>hrq_Body := (hrq_Body rq)\<lparr>src_error := e\<rparr>\<rparr>) = handleSign env s rq"
  by (simp add: handleSign_def read_limited_def)

section \<open>A restriction that the audit event does not show\<close>

text \<open>The certificate of the demo deployment is restricted to the addresses of the defaults;
  the attributes of its audit event do not name them.\<close>

lemma inherited_source_not_logged:
  "crt_CriticalOptions (unsigned_cert serial (cert_request demo_policy demo_rule pub keyID now)) ''source-address''
     = Some ''192.0.2.0/24''
   \<and> ''source_address'' \<notin> fst ` set (issued_attrs demo_policy demo_rule keyID)"
  by (simp add: unsigned_cert_def cert_request_def criticalOptionMap_apply issued_attrs_def effective_defs
      demo_policy_defs)

end
