(* ===== verification/Spec2Isabelle.thy ===== *)
theory Spec2Isabelle
  imports PolicyClaims TokenClaims LockClaims IssuerClaims ServerClaims ProcessClaims ConcurrentClaims AuditClaims
    CliClaims Findings
begin

text \<open>
  A verification development of \<open>oidc-ssh-ca\<close>, an SSH certificate authority that issues
  short-lived OpenSSH user certificates to callers with an OIDC token.

  \<^bold>\<open>The program.\<close>  A client posts a public key with a bearer token.  \<open>internal/server\<close>
  checks the request, \<open>internal/oidc\<close> verifies the token against a cache of discovered
  providers, \<open>internal/policy\<close> matches the verified claims against the rules of a YAML
  policy, of which exactly one must match, and expands that rule's Key ID template, and
  \<open>internal/issuer\<close> builds and signs the certificate.  Every outcome goes to the log of
  \<open>internal/audit\<close>.  \<open>cmd/oidc-ssh-ca\<close> starts the server, reloads the policy on
  \<open>SIGHUP\<close>, and has the commands \<open>check-config\<close>, \<open>explain\<close> and \<open>print-ca-pub\<close>.

  \<^bold>\<open>The theories\<close>, each after those it uses:

  \<^item> \<open>Prelude\<close>: results as sums, early returns, loops with a first failing element, facts on
    filtered lists, and the collection \<open>result_iff\<close>.
  \<^item> \<open>GoText\<close>, \<open>GoValue\<close>, \<open>GoNet\<close>, \<open>GoTime\<close>, \<open>GoJson\<close>, \<open>GoIO\<close>: what the program uses of
    Go's standard library.  Strings are byte lists; \<open>runes\<close> decodes UTF-8 as \<open>range\<close> does;
    \<open>ParseCIDR\<close> is \<open>net.ParseCIDR\<close>; times are signed 64-bit seconds with nanoseconds and an
    optional monotonic reading, whose operations wrap and saturate as in package \<open>time\<close>;
    \<open>parse_json\<close> is the grammar of \<open>encoding/json\<close> with its depth limit, \<open>marshal_map\<close> its
    printer, with a round trip between the two; \<open>read_limited\<close> is \<open>ReadAll\<close> on a
    \<open>LimitReader\<close>.
  \<^item> \<open>PolicyModel\<close>, \<open>PolicyValidate\<close> (\<open>internal/policy/policy.go\<close>): the records of the
    file, the accessors of effective settings, \<open>Issuers\<close>; \<open>Validate\<close> check by check with
    its errors, and \<open>policy_ok\<close>, the declarative reading that it is proved to decide;
    \<open>Parse\<close> and \<open>Load\<close>.  Integers are 64-bit words read as signed.
  \<^item> \<open>KeyID\<close> (\<open>keyid.go\<close>): the template's regular expression as a scanner into segments,
    \<open>templateVars\<close> against the inductive grammar \<open>template_grammar\<close>, and \<open>ExpandKeyID\<close>, with
    the closure's captured error as a threaded state, against \<open>first_fault\<close> and
    \<open>expansion\<close>.
  \<^item> \<open>Matching\<close> (\<open>match.go\<close>): \<open>ruleMatches\<close>, \<open>Evaluate\<close>, \<open>ExplainRule\<close>.
  \<^item> \<open>Issuer\<close> (\<open>internal/issuer\<close>): \<open>ValidatePublicKey\<close>, \<open>LoadCAKey\<close>, \<open>Issue\<close>.  The
    interface \<open>issuer.Signer\<close> is the locale \<open>Signer\<close>; \<open>memory\<close> is its interpretation on
    \<open>memorySigner\<close>.
  \<^item> \<open>TokenTime\<close>, \<open>Verifier\<close> (\<open>internal/oidc/verifier.go\<close>): the time checks; \<open>provider\<close>,
    \<open>discoverProvider\<close>, \<open>checkJWKS\<close> and \<open>Verify\<close> over a state with the provider entries and
    two counters, of clock readings and of outside interactions.  The interface
    \<open>oidc.Verifier\<close> is the locale \<open>token_verifier\<close>; \<open>remote\<close> is its interpretation on
    \<open>RemoteVerifier\<close>, with the invariant \<open>cache_inv\<close>.
  \<^item> \<open>Transitions\<close>: runs of a labelled step relation, and the locale \<open>finishing_system\<close> of
    systems whose steps decrease a measure until they reach a goal.
  \<^item> \<open>ProviderLocks\<close>, \<open>ProviderProgress\<close>, \<open>ProviderRefine\<close>: \<open>provider\<close> again, called by any
    number of goroutines at once, one statement per step, with \<open>v.mu\<close> and the entries'
    mutexes: the invariant of the locks; progress, as two interpretations of
    \<open>finishing_system\<close>, for all calls and for those of one issuer; and the refinement of the
    sequential function: \<open>released\<close> adds to a run the history of the calls that have released
    their entry, in that order, \<open>provider_call\<close> is one run of the sequential \<open>provider\<close> on an
    issuer's entry, and the history is shown to be a sequence of such runs.
  \<^item> \<open>AuditLog\<close>, \<open>AuditLines\<close> (\<open>internal/audit\<close>): events and their attributes, where the
    levels are a linear order; the line of JSON that \<open>slog\<close> writes for an event.
  \<^item> \<open>Server\<close> (\<open>internal/server/server.go\<close>): \<open>Sign\<close> as a pipeline of stages, each of which
    may return a denial, \<open>deny\<close>, the handlers.  The locale \<open>signing_server\<close> puts a \<open>Signer\<close>
    and a \<open>token_verifier\<close> together; \<open>production\<close> is its interpretation on the two that
    \<open>serve\<close> uses.
  \<^item> \<open>PolicyOrder\<close>: policies that differ only in the order of the \<open>claims_exact\<close> lists, which
    stand for Go maps.
  \<^item> \<open>Issuance\<close>: \<open>safe_cert\<close>, the abstract promise of a certificate, and its lifetime.
  \<^item> \<open>System\<close>, \<open>Process\<close> (\<open>cmd/oidc-ssh-ca/serve.go\<close>): startup, \<open>reload\<close>, and the step
    relation \<open>sys_step\<close> in which requests, each in three steps, and reloads interleave; around
    it \<open>proc_step\<close>, the life of the process up to its shutdown.  Two more interpretations of
    \<open>finishing_system\<close>, for one request and for the requests to drain.
  \<^item> \<open>ReloadLoop\<close> (\<open>serve.go\<close>): the goroutine that reloads, statement by statement, with its
    channel of capacity one; without interruption it is \<open>reload\<close>.
  \<^item> \<open>Concurrent\<close> (\<open>serve.go\<close>, \<open>server.go\<close>, \<open>verifier.go\<close>): the whole process after
    startup in steps that touch shared state at most once each.  \<open>go\<close> is the next step of a
    request at its program point, with the local variables that are live there, the calls of
    \<open>provider\<close> are those of \<open>ProviderLocks\<close>, and \<open>live_step\<close> puts requests, reload loop,
    signals, listener and shutdown together.  \<open>http.Server.Shutdown\<close> waits for connections: one
    is active from the arrival of a request until \<open>ConnIdle\<close>, which the HTTP server can do once
    the handler has answered.
  \<^item> \<open>ConcurrentSafety\<close>, \<open>ConcurrentProgress\<close>, \<open>ConcurrentReload\<close>, \<open>ConcurrentRefine\<close>: the
    invariant \<open>live_inv\<close> (what a request knows at each point, how calls fit requests, the log
    against the answers); three interpretations of \<open>finishing_system\<close>, for all requests, for
    one request without those that wait for another issuer, and for the reload loop; what the
    loop does to the policy; and the simulation of \<open>provider\<close> and \<open>Sign\<close> by the fine steps,
    with \<open>server_view\<close> as the abstraction.
  \<^item> \<open>ConcurrentAudit\<close>: what an event of the log says.  \<open>denial_due\<close> lists the causes of each
    denial with its status and reason, \<open>grounds\<close> and \<open>describes\<close> say what the event of a
    certificate rests on; each is kept by \<open>go\<close>, for any predicate of the active policy.
  \<^item> \<open>GoFlag\<close>, \<open>Cli\<close>: the package \<open>flag\<close>; \<open>main\<close>, \<open>serve\<close>'s flags, \<open>check-config\<close>,
    \<open>explain\<close>, \<open>print-ca-pub\<close>, and all of them under \<open>main\<close>.
  \<^item> \<open>Demo\<close>: one concrete deployment, to which the properties are applied.
  \<^item> \<open>Findings\<close>: where the code does something other than its comments or its purpose say.
  \<^item> \<open>PolicyClaims\<close>, \<open>TokenClaims\<close>, \<open>LockClaims\<close>, \<open>IssuerClaims\<close>, \<open>ServerClaims\<close>,
    \<open>ProcessClaims\<close>, \<open>ConcurrentClaims\<close>, \<open>AuditClaims\<close>, \<open>CliClaims\<close> and this theory: the properties.

  \<^bold>\<open>What is shown.\<close>  A certificate is issued only for a request that the policy justifies,
  and is then safe, over the whole life of the process and under any interleaving of the
  statements of its goroutines (C1, C2, C13); the server's decision is characterised both ways
  (C6); a disabled policy stops issuance (C8).  The log matches the answers at every
  moment, and what it says of each is true (C9); every request is answered, after a bounded number of steps and without waiting
  for the issuers of others (C16); no change of the policy file is missed, although signals may
  be lost (C15), and once made it decides every later request (C32); the process ends without an error only with nothing left unanswered, and can always end so (C17); and a request
  that is not interrupted gets what the sequential \<open>Sign\<close> gives (C27).  Each reply and each
  line of the log is well formed, whatever the request holds, and a denied client learns
  nothing but a request id (C28 to C31; C31 also says what becomes of a body that is cut off by a read error).  Validation, matching and Key IDs are characterised
  without reference to the code's loops (C3, C4, C10, C33 to C35), and the random order of Go's maps plays no part in
  what the server decides (C24); the time checks, the
  lifetime and the two delays of the provider cache agree with integer time (C11, C12, C20,
  C21).  The cache never loses a working provider nor lets a token of another issuer near the
  network (C18, C19, C22), and its locks make concurrent calls linearisable in the order in which they release their
  entries, one call at a time on an entry, and delayed by their own issuer only (C5, C7, C14,
  C23).  Keys are loaded and published
  as documented (C25, C26).  The commands tell the operator what the server would do, and their exit status is given for every command line (C36 to C39).
  C40 computes the expiry when a lifetime does not fit a duration, which \<open>Validate\<close> does not
  rule out.

  \<^bold>\<open>Parameters.\<close>  Code outside the repository is a parameter: \<open>x/crypto/ssh\<close> is the record
  \<open>ssh_lib\<close>, \<open>go-oidc\<close> and the network are in \<open>oidc_env\<close>, \<open>yaml.v3\<close> is \<open>yaml_lib\<close>, files
  and environment are \<open>os\<close> and \<open>read_file\<close>, clock and randomness are sequences.  Two facts
  are taken from the documentation of such code.  One is built into \<open>SignCertificate\<close>:
  \<open>Certificate.SignCert\<close> sets the nonce, the signature key and the signature of its receiver
  and nothing else.  The other is the hypothesis \<open>issuer_checked\<close> of C13: a verifier of
  \<open>go-oidc\<close> accepts only tokens whose issuer is that of the provider it was made from.  No
  property assumes that signatures cannot be forged: \<open>authentic\<close> says that the library
  verified the token.

  \<^bold>\<open>Bounds.\<close>  No definition takes fuel: all recursion ends by a measure.  C11 and C12 assume
  times and durations for which 64-bit arithmetic is exact, that is, a clock within
  \<open>2 ^ 62\<close> seconds of year 1, dates within \<open>2 ^ 61\<close> seconds of 1970, and a ceiling of at most
  9223372036 seconds, some 292 years.

  \<^bold>\<open>Not modelled.\<close>  In \<open>Concurrent\<close> what touches no shared state is not a step of its own: a
  discovery with its two requests is one step, during which its caller holds the lock of its
  entry only, and so are the check of a body, the match against the policy that was read, and
  the signature with its clock reading and its random numbers.  A \<open>GET\<close> of the CA key reads a constant and changes nothing; it is no
  goroutine there.  Left out are what \<open>ServeMux\<close> and the HTTP server do on their own (other
  paths, redirects, malformed requests, panics), the deadlines of the HTTP server and of the
  shutdown, which are events that may come at any time, the text of error messages (an error is
  a constructor with the values it prints; where a line of the log has it, it is a parameter),
  the usage text of \<open>flag\<close>, and the bytes that \<open>io.ReadAll\<close> returns beside an error of the key
  file, which \<open>readKeyFile\<close> drops.  The keys of the map \<open>claims_exact\<close> have an order here, as the map is
  a list (C24).
\<close>

section \<open>Issuance\<close>

text \<open>C1: A certificate answers a request only if the request is a POST with an acceptable
  body and key, its bearer token is authentic for an issuer the policy names, exactly one
  enabled rule of the active policy matches the token, and its Key ID expands; the
  certificate then carries that rule's principals, options, extensions and validity for the
  client's key, is signed by the CA, and stays within what \<open>Validate\<close> allows.\<close>

theorem sign_issues_only_justified:
  assumes "Sign (production_env lib m oe rnd clk) s meth authHeader body = (resp, s')"
    and "rsp_Status resp = 200" and "policy_ok (st_policy s)" and "cache_inv oe (st_verifier s)"
  shows "\<exists>cert. justified (production_env lib m oe rnd clk) (authentic oe) (st_policy s)
      \<lparr>sr_method = meth, sr_auth = authHeader, sr_body = body\<rparr> cert
    \<and> safe_cert cert \<and> rsp_Body resp = lib_MarshalCert lib cert"
proof -
  let ?env = "production_env lib m oe rnd clk"
  from production.sign_with_issued [OF assms(1) [unfolded Sign_def] assms(2,4)]
  obtain pub tok i r keyID cert where h: "acceptable lib (st_policy s) meth body pub"
    and tok: "bearerToken authHeader = Some tok \<and> authentic oe tok i
      \<and> (\<exists>iss \<in> set (Issuers (st_policy s)). unverifiedIssuer tok = Inr iss)"
    and g: "granted (st_policy s) i r keyID"
    and c: "cert_for (st_policy s) r keyID pub (clk (st_tick s)) cert"
      "crt_SignatureKey cert = Some (sv_ca_key ?env)" "rsp_Body resp = lib_MarshalCert lib cert"
    by auto
  have "justified ?env (authentic oe) (st_policy s)
      \<lparr>sr_method = meth, sr_auth = authHeader, sr_body = body\<rparr> cert"
    using tok g c h by (intro justifiedI [where tok = tok]) (simp_all add: check_request_iff)
  with granted_safe [OF assms(3) g c(1)] c(3) show ?thesis by blast
qed

lemma sign_issues_only_justified_demo:
  "\<exists>resp s' cert. Sign demo_env demo_state ''POST'' demo_auth demo_body = (resp, s')
     \<and> rsp_Body resp = ''cert:ci-s'' \<and> safe_cert cert \<and> rsp_Body resp = lib_MarshalCert demo_lib cert"
proof -
  obtain resp s' where r: "Sign demo_env demo_state ''POST'' demo_auth demo_body = (resp, s')"
    "rsp_Status resp = 200" "rsp_Body resp = ''cert:ci-s''"
    using demo_sign by blast
  with sign_issues_only_justified [OF r(1) [unfolded demo_env_def] r(2) demo_state_ok]
  show ?thesis by blast
qed

text \<open>What \<open>go-oidc\<close> documents: \<open>NewProvider\<close> fails unless the discovery document names the
  issuer it was asked for, and \<open>Verify\<close> fails unless the token's issuer is its provider's.\<close>

definition issuer_checked :: "'p oidc_env \<Rightarrow> bool" where
  "issuer_checked oe \<longleftrightarrow> (\<forall>iss p n cfg raw tok. obtained oe iss p \<longrightarrow> env_verify oe n cfg p raw = Inr tok
     \<longrightarrow> tok_Issuer tok = iss)"

text \<open>C13: No issuer can speak for another: when a certificate is issued, the one rule that
  granted it names the very issuer whose provider verified the token, which is the issuer that
  the unverified token named to be looked up.\<close>

theorem no_issuer_confusion:
  assumes "Sign (production_env lib m oe rnd clk) s meth authHeader body = (resp, s')"
    and "rsp_Status resp = 200" and "cache_inv oe (st_verifier s)" and "issuer_checked oe"
  shows "\<exists>tok iss p n t r mt i keyID. bearerToken authHeader = Some tok \<and> unverifiedIssuer tok = Inr iss
    \<and> obtained oe iss p \<and> env_verify oe n rs256_config p tok = Inr t \<and> tok_Issuer t = iss
    \<and> granted (st_policy s) i r keyID \<and> id_Issuer i = iss
    \<and> match_JWT (rule_Match r) = Some mt \<and> jwt_Issuer mt = iss"
proof -
  from production.sign_with_issued [OF assms(1) [unfolded Sign_def] assms(2,3)]
  obtain pub tok i r keyID cert
    where tok: "bearerToken authHeader = Some tok" "authentic oe tok i"
    and g: "granted (st_policy s) i r keyID"
    by auto
  from tok(2) obtain iss p n t where p: "unverifiedIssuer tok = Inr iss" "obtained oe iss p"
    "env_verify oe n rs256_config p tok = Inr t" "id_Issuer i = tok_Issuer t"
    unfolding authentic_def by blast
  have "tok_Issuer t = iss" using assms(4) p unfolding issuer_checked_def by blast
  moreover have "r \<in> set (filter (candidate i) (pol_Rules (st_policy s)))" using g by (simp add: granted_def)
  then have "candidate i r" by simp
  then obtain mt where "match_JWT (rule_Match r) = Some mt" "jwt_Issuer mt = id_Issuer i"
    by (auto simp: candidate_def ruleMatches_iff satisfies_def)
  ultimately show ?thesis using tok(1) p g by metis
qed

lemma no_issuer_confusion_demo:
  "\<exists>iss mt. unverifiedIssuer demo_token = Inr iss \<and> match_JWT (rule_Match demo_rule) = Some mt
     \<and> jwt_Issuer mt = iss"
proof -
  have checked: "issuer_checked demo_oidc"
    by (auto simp: issuer_checked_def obtained_def demo_oidc_def)
  obtain resp s' where r: "Sign demo_env demo_state ''POST'' demo_auth demo_body = (resp, s')"
    "rsp_Status resp = 200"
    using demo_sign by blast
  from no_issuer_confusion [OF r(1) [unfolded demo_env_def] r(2) demo_state_ok(2) checked]
  obtain iss tok r mt i keyID where t: "bearerToken demo_auth = Some tok" "unverifiedIssuer tok = Inr iss"
    "granted (st_policy demo_state) i r keyID" "match_JWT (rule_Match r) = Some mt" "jwt_Issuer mt = iss"
    by blast
  have "r = demo_rule"
    using t(3) by (auto simp: granted_def demo_state_def New_def demo_policy_def split: if_split_asm)
  with t demo_bearer show ?thesis by auto
qed

text \<open>From startup to the end of the process, whatever requests run at the same time and
  whatever reloads, and the signal to stop, come between their steps, the active policy is
  valid, and every certificate that was handed out is justified by a valid policy and
  safe.\<close>

theorem server_always_safe:
  assumes "cmdServe_start lib sys read yaml fl = Inr (m, s)"
    and "steps (proc_step (production_env lib m oe rnd clk) yaml (flg_config fl)) (proc_init s) es \<pi>"
  shows "policy_ok (st_policy (sys_server (pr_sys \<pi>)))
    \<and> (\<forall>t rq resp. sys_threads (pr_sys \<pi>) t = Some (rq, Done resp) \<and> rsp_Status resp = 200 \<longrightarrow>
        (\<exists>pol cert. policy_ok pol \<and> justified (production_env lib m oe rnd clk) (authentic oe) pol rq cert
           \<and> safe_cert cert \<and> rsp_Body resp = lib_MarshalCert lib cert))"
proof -
  let ?env = "production_env lib m oe rnd clk"
  have "policy_ok (st_policy s)" "cache_inv oe (st_verifier s)"
    using assms(1) Load_policy_ok cache_inv_init by (auto simp: cmdServe_start_iff New_def)
  then have inv: "sys_inv ?env (cache_inv oe) (authentic oe) (pr_sys \<pi>)"
    using production.proc_steps_sys_inv [OF assms(2), unfolded proc_init_simps] sys_init_inv by blast
  have "phase_ok ?env (authentic oe) rq (Done resp)"
    if "sys_threads (pr_sys \<pi>) t = Some (rq, Done resp)" for t rq resp
    using inv that unfolding sys_inv_def by blast
  then have "\<exists>pol cert. policy_ok pol \<and> justified ?env (authentic oe) pol rq cert \<and> safe_cert cert
      \<and> rsp_Body resp = lib_MarshalCert lib cert"
    if "sys_threads (pr_sys \<pi>) t = Some (rq, Done resp)" "rsp_Status resp = 200" for t rq resp
    using that justified_safe [where env = ?env] by (metis phase_ok.simps(4) production_env_simps(1))
  then show ?thesis using inv unfolding sys_inv_def by blast
qed

lemma server_always_safe_demo:
  "\<exists>(\<sigma> :: (string, string verifier_state) sys) resp cert. sys_threads \<sigma> 0 = Some (demo_request, Done resp) \<and> safe_cert cert
     \<and> policy_ok (st_policy (sys_server \<sigma>)) \<and> rsp_Body resp = lib_MarshalCert demo_lib cert"
proof -
  obtain log \<sigma> resp where st: "cmdServe_start demo_lib demo_os demo_read demo_yaml demo_flags
      = Inr (NewMemorySigner ''ca'', New demo_policy NewRemoteVerifier log :: string verifier_state server_state)"
    and run: "sys_run demo_env demo_yaml ''policy.yaml'' (sys_init (New demo_policy NewRemoteVerifier log))
        [Arrive 0 demo_request, Run 0, Run 0, Run 0] \<sigma>"
    and d: "sys_threads \<sigma> 0 = Some (demo_request, Done resp)" "rsp_Status resp = 200"
    by (rule demo_run)
  have "flg_config demo_flags = ''policy.yaml''" by (simp add: demo_flags_def)
  note safe = server_always_safe [OF st, unfolded this,
    OF sys_run_proc [OF run [unfolded demo_env_def], of Serving, folded proc_init_def, simplified],
    unfolded process.select_convs]
  from conjunct2 [OF safe] d obtain cert where "safe_cert cert" "rsp_Body resp = lib_MarshalCert demo_lib cert"
    by blast
  with conjunct1 [OF safe] d(1) show ?thesis by blast
qed

section \<open>Emergency stop\<close>

text \<open>Once the active policy is disabled, and as long as every reload that succeeds loads
  a disabled one, no request that had not yet read the policy is answered with a certificate:
  it gets 503, or 405 for a wrong method, however the requests and reloads interleave.\<close>

theorem emergency_stop:
  assumes "sys_run env yaml path \<sigma> es \<sigma>'" and "pol_Disabled (st_policy (sys_server \<sigma>))"
    and "\<forall>ev \<in> set es. keeps_disabled yaml path ev"
    and "sys_threads \<sigma> t = None \<or> sys_threads \<sigma> t = Some (rq, Received rid)"
  shows "sys_threads \<sigma>' t = Some (rq', Done resp) \<longrightarrow> rsp_Status resp \<in> {405, 503}"
proof -
  have "stopped t \<sigma>" using assms(2,4) by (auto simp: stopped_def)
  with stopped_run [OF assms(1) _ assms(3)] have "stopped t \<sigma>'" by blast
  then show ?thesis by (auto simp: stopped_def)
qed

lemma demo_stop_run:
  assumes "newRequestID demo_env s = (rid, s0)" and "pol_Disabled (st_policy s)"
  shows "\<exists>\<sigma> resp. sys_run demo_env demo_yaml ''policy.yaml'' (sys_init s) [Arrive 0 demo_request, Run 0] \<sigma>
    \<and> sys_threads \<sigma> 0 = Some (demo_request, Done resp)"
proof -
  let ?st = "\<lambda>s ph. \<lparr>sys_server = s, sys_threads = [0 \<mapsto> (demo_request, ph)]\<rparr>"
  have "sys_step demo_env demo_yaml ''policy.yaml'' (sys_init s) (Arrive 0 demo_request) (?st s0 (Received rid))"
    using sys_step.arrive [of "sys_init s" 0 demo_env rid s0 demo_yaml "''policy.yaml''" demo_request] assms(1)
    by (simp add: sys_init_def)
  note first = run_one [OF run_none this]
  have "st_policy s0 = st_policy s" using newRequestID_simps(2) [of demo_env s] assms(1) by simp
  then obtain d where "check_request (sv_lib demo_env) (st_policy s0) (sr_method demo_request) (sr_body demo_request) = Inl d"
    using check_request_disabled assms(2) by metis
  then obtain resp s1 where "advance demo_env demo_request (Received rid) s0 = (Done resp, s1)"
    by (simp add: finish_denied_def case_prod_beta)
  then have "sys_step demo_env demo_yaml ''policy.yaml'' (?st s0 (Received rid)) (Run 0) (?st s1 (Done resp))"
    using sys_step.run [of "?st s0 (Received rid)" 0 demo_request "Received rid" demo_env "Done resp" s1] by simp
  from run_one [OF first this] show ?thesis by (intro exI [of _ "?st s1 (Done resp)"]) simp
qed

lemma emergency_stop_demo:
  "\<exists>(\<sigma> :: (string, string verifier_state) sys) resp.
     sys_threads \<sigma> 0 = Some (demo_request, Done resp) \<and> rsp_Status resp \<in> {405, 503}"
proof -
  define s where "s = SetPolicy (demo_policy\<lparr>pol_Disabled := True\<rparr>) demo_state"
  have dis: "pol_Disabled (st_policy s)" by (simp add: s_def SetPolicy_def)
  obtain \<sigma> resp where run: "sys_run demo_env demo_yaml ''policy.yaml'' (sys_init s) [Arrive 0 demo_request, Run 0] \<sigma>"
    and d: "sys_threads \<sigma> 0 = Some (demo_request, Done resp)"
    using demo_stop_run [OF _ dis] by (metis surj_pair)
  have "rsp_Status resp \<in> {405, 503}"
    using emergency_stop [OF run, of 0 demo_request "[]" demo_request resp] dis d
    by (simp add: sys_init_def)
  with d show ?thesis by blast
qed

section \<open>Audit\<close>

text \<open>From startup to the end of the process, the log holds exactly one request event for
  every completed request, under any interleaving, and for each of them one with the request
  id of its response that says whether a certificate was issued.\<close>

theorem audit_complete:
  assumes "cmdServe_start lib sys read yaml fl = Inr (m, s)"
    and "steps (proc_step env yaml (flg_config fl)) (proc_init s) es \<pi>"
  shows "finite (completed (pr_sys \<pi>))
    \<and> length (request_events (sys_server (pr_sys \<pi>))) = card (completed (pr_sys \<pi>))
    \<and> (\<forall>t rq resp. sys_threads (pr_sys \<pi>) t = Some (rq, Done resp) \<longrightarrow>
        (\<exists>e \<in> set (st_audit (sys_server (pr_sys \<pi>))). event_for resp e))"
  using proc_steps_inv [OF assms(2) proc_init_inv [OF startup_log_quiet [OF assms(1)]]]
  unfolding proc_inv_def logged_def by blast

lemma audit_complete_demo:
  "\<exists>(\<sigma> :: (string, string verifier_state) sys) resp.
     sys_threads \<sigma> 0 = Some (demo_request, Done resp) \<and> rsp_Status resp = 200
     \<and> (\<exists>e \<in> set (st_audit (sys_server \<sigma>)). event_for resp e)"
proof -
  obtain log \<sigma> resp where st: "cmdServe_start demo_lib demo_os demo_read demo_yaml demo_flags
      = Inr (NewMemorySigner ''ca'', New demo_policy NewRemoteVerifier log :: string verifier_state server_state)"
    and run: "sys_run demo_env demo_yaml ''policy.yaml'' (sys_init (New demo_policy NewRemoteVerifier log))
        [Arrive 0 demo_request, Run 0, Run 0, Run 0] \<sigma>"
    and d: "sys_threads \<sigma> 0 = Some (demo_request, Done resp)" "rsp_Status resp = 200"
    by (rule demo_run)
  have "flg_config demo_flags = ''policy.yaml''" by (simp add: demo_flags_def)
  note complete = audit_complete [OF st, unfolded this,
    OF sys_run_proc [OF run, of Serving, folded proc_init_def, simplified], unfolded process.select_convs]
  from complete d show ?thesis by blast
qed

section \<open>The steps and the function\<close>

text \<open>The three steps of a request, run without interruption, are \<open>Sign\<close>: the
  interleaved system refines nothing away.\<close>

theorem steps_refine_Sign:
  "advance_n 3 env rq (Received (fst (newRequestID env s))) (snd (newRequestID env s)) =
    (Done (fst (Sign env s (sr_method rq) (sr_auth rq) (sr_body rq))),
     snd (Sign env s (sr_method rq) (sr_auth rq) (sr_body rq)))"
  by (rule three_steps) simp_all

section \<open>Startup and reload\<close>

text \<open>A reload replaces the policy exactly when the file loads, keeps the active one
  otherwise, touches nothing else, and logs one event, an error when it failed.\<close>

lemma reload_keeps_or_replaces:
  "ActivePolicy (reload read yaml path s) = (case Load read yaml path of Inl e \<Rightarrow> ActivePolicy s | Inr p \<Rightarrow> p)
   \<and> st_verifier (reload read yaml path s) = st_verifier s
   \<and> st_rand (reload read yaml path s) = st_rand s \<and> st_tick (reload read yaml path s) = st_tick s
   \<and> (\<exists>e. st_audit (reload read yaml path s) = st_audit s @ [e]
        \<and> ev_level e = (case Load read yaml path of Inl e \<Rightarrow> LevelError | Inr p \<Rightarrow> LevelInfo))"
  by (auto simp: reload_def SetPolicy_def ActivePolicy_def Let_def log_error_def log_info_def
      log_event_def split: sum.split)

text \<open>C26: The key that \<open>print-ca-pub\<close> prints, for the same flags and environment, is the one
  the running server serves on \<open>GET /ca-public-key\<close> and the one in whose name every
  certificate is signed.\<close>

theorem ca_key_published_consistently:
  assumes "cmdServe_start lib sys read yaml fl = Inr (m, s)" and "hrq_Method rq = ''GET''"
    and "Issue (sv_sign (production_env lib m oe rnd clk)) marshal rnd n req = Inr (out, cert)"
  shows "cmdPrintCAPub lib sys (key_args fl)
      = Inr (hrp_Body (handleCAPub (production_env lib m oe rnd clk) rq))
    \<and> hrp_Status (handleCAPub (production_env lib m oe rnd clk) rq) = 200
    \<and> (\<exists>pub. crt_SignatureKey cert = Some pub
        \<and> hrp_Body (handleCAPub (production_env lib m oe rnd clk) rq) = lib_MarshalKey lib pub)"
proof -
  have "crt_SignatureKey cert = Some (PublicKey lib m)"
    using memory.Issue_fields(9) [OF assms(3) [unfolded production_env_simps]] .
  with assms(1,2) show ?thesis
    by (auto simp: cmdServe_start_iff cmdPrintCAPub_args print_ca_pub_def handleCAPub_def rbind_Inr_iff wrap_err_iff)
qed

lemma ca_key_published_consistently_demo:
  "cmdPrintCAPub demo_lib demo_os [''--ca-key-file'', ''ca.key''] = Inr ''pub:ca''"
proof -
  obtain log where st: "cmdServe_start demo_lib demo_os demo_read demo_yaml demo_flags
      = Inr (NewMemorySigner ''ca'', New demo_policy NewRemoteVerifier log :: string verifier_state server_state)"
    using demo_start by blast
  define rq where "rq = \<lparr>hrq_Method = ''GET'', hrq_Path = ''/ca-public-key'', hrq_Authorization = [],
    hrq_Body = \<lparr>src_bytes = [], src_error = None\<rparr>\<rparr>"
  obtain out cert where i: "Issue (sv_sign (production_env demo_lib (NewMemorySigner ''ca'') demo_oidc demo_rand
      (\<lambda>n. demo_now))) (lib_MarshalCert demo_lib) demo_rand 0
      (cert_request demo_policy demo_rule ''k'' ''ci-s'' demo_now) = Inr (out, cert)"
    by (simp add: Issue_def randomSerial_def demo_rand_def SignCertificate_def NewMemorySigner_def
        demo_lib_def rbind_def wrap_err_def)
  have "hrq_Method rq = ''GET''" by (simp add: rq_def)
  from ca_key_published_consistently [OF st this i] show ?thesis
    by (simp add: handleCAPub_def rq_def demo_flags_def key_args_def PublicKey_def NewMemorySigner_def demo_lib_def)
qed

text \<open>The server starts only with a policy that validates and an ed25519 CA key; its log
  then ends with the event that names the fingerprint of that key.\<close>

theorem startup_fails_fast:
  assumes "cmdServe_start lib sys read yaml fl = Inr (m, s)"
  shows "policy_ok (st_policy s) \<and> Load read yaml (flg_config fl) = Inr (st_policy s)
    \<and> lib_Type lib (PublicKey lib m) = ''ssh-ed25519''
    \<and> (\<exists>log e. st_audit s = log @ [e] \<and> ev_msg e = ''starting''
        \<and> attr e ''ca_fingerprint'' = Some (AttrString (lib_FingerprintSHA256 lib (PublicKey lib m))))"
  using assms Load_policy_ok
  by (auto simp: cmdServe_start_iff LoadCAKey_iff New_def PublicKey_def NewMemorySigner_def attr_def
      starting_attrs_def Fingerprint_def)

lemma startup_fails_fast_demo:
  "lib_Type demo_lib (PublicKey demo_lib (NewMemorySigner ''ca'')) = ''ssh-ed25519'' \<and> policy_ok demo_policy"
proof -
  obtain log where st: "cmdServe_start demo_lib demo_os demo_read demo_yaml demo_flags
      = Inr (NewMemorySigner ''ca'', New demo_policy NewRemoteVerifier log :: string verifier_state server_state)"
    using demo_start by blast
  from startup_fails_fast [OF st] show ?thesis by (simp add: New_def)
qed

end
